(* ===== verification/Go_Prelude.thy ===== *)
theory Go_Prelude
  imports Main "HOL-Library.Word" "HOL-Library.Multiset"
begin

text \<open>
  Shared vocabulary of the development: the fragments of the Go language and of its standard
  library that the sources use. Go strings are byte strings (\<^typ>\<open>string\<close>, a list of 8-bit
  characters), fixed-width integers are integers reduced explicitly to 64 bits or
  \<open>w word\<close>s, a pair \<open>(value, error)\<close> is a sum with the error on the left, and a pointer that
  may be nil is an option. The lemma collections declared here carry the component proofs.
\<close>

named_theorems go_simps \<open>executable equations of the Go standard library fragments\<close>

type_synonym byte = "8 word"

section \<open>Fixed-width integers\<close>

text \<open>Reduction of a mathematical integer to a two's complement \<open>int64\<close>.\<close>

definition wrap64 :: "int \<Rightarrow> int" where
  "wrap64 x = (x + 2 ^ 63) mod 2 ^ 64 - 2 ^ 63"

definition int64_range :: "int \<Rightarrow> bool" where
  "int64_range x \<longleftrightarrow> - (2 ^ 63) \<le> x \<and> x < 2 ^ 63"

lemma wrap64_range [simp]: "int64_range (wrap64 x)"
proof -
  have "0 \<le> (x + 2 ^ 63) mod 2 ^ 64" and "(x + 2 ^ 63) mod 2 ^ 64 < 2 ^ 64"
    by simp_all
  then show ?thesis
    by (simp add: wrap64_def int64_range_def)
qed

lemma wrap64_id: "int64_range x \<Longrightarrow> wrap64 x = x"
  by (simp add: wrap64_def int64_range_def)

lemma wrap64_wrap64 [simp]: "wrap64 (wrap64 x) = wrap64 x"
  by (rule wrap64_id) simp

text \<open>Go's integer division truncates towards zero.\<close>

definition quot :: "int \<Rightarrow> int \<Rightarrow> int" where
  "quot a b = sgn a * sgn b * (\<bar>a\<bar> div \<bar>b\<bar>)"

lemma quot_nonneg: "0 \<le> a \<Longrightarrow> 0 < b \<Longrightarrow> quot a b = a div b"
  by (cases "a = 0") (auto simp: quot_def)

lemma quot_abs_le:
  assumes "0 < b"
  shows "\<bar>quot a b\<bar> \<le> \<bar>a\<bar> div b"
proof -
  have "0 \<le> \<bar>a\<bar> div b"
    using assms by (simp add: pos_imp_zdiv_nonneg_iff)
  then show ?thesis
    using assms by (simp add: quot_def abs_mult sgn_if)
qed

section \<open>Durations\<close>

text \<open>A \<open>time.Duration\<close> is an int64 count of nanoseconds.\<close>

definition Nanosecond :: int where "Nanosecond = 1"
definition Microsecond :: int where "Microsecond = 1000"
definition Millisecond :: int where "Millisecond = 1000000"
definition Second :: int where "Second = 1000000000"
definition Minute :: int where "Minute = 60000000000"
definition Hour :: int where "Hour = 3600000000000"

lemmas duration_units =
  Nanosecond_def Microsecond_def Millisecond_def Second_def Minute_def Hour_def

text \<open>\<open>Duration.Milliseconds\<close>: an integer count, truncated.\<close>

definition Milliseconds :: "int \<Rightarrow> int" where
  "Milliseconds d = quot d Millisecond"

lemma Milliseconds_bound:
  assumes "int64_range d"
  shows "\<bar>Milliseconds d\<bar> \<le> 2 ^ 44"
proof -
  have "\<bar>d\<bar> \<le> 2 ^ 63"
    using assms by (simp add: int64_range_def abs_le_iff)
  then have "\<bar>d\<bar> div Millisecond \<le> 2 ^ 63 div Millisecond"
    by (intro zdiv_mono1) (simp_all add: duration_units)
  moreover have "(2 ^ 63 :: int) div Millisecond \<le> 2 ^ 44"
    by (simp add: duration_units)
  moreover have "\<bar>Milliseconds d\<bar> \<le> \<bar>d\<bar> div Millisecond"
    unfolding Milliseconds_def by (rule quot_abs_le) (simp add: duration_units)
  ultimately show ?thesis by linarith
qed

section \<open>Pairs of a value and an error\<close>

fun is_ok :: "'e + 'a \<Rightarrow> bool" where
  "is_ok (Inl _) = False"
| "is_ok (Inr _) = True"

lemma is_ok_iff: "is_ok r \<longleftrightarrow> (\<exists>x. r = Inr x)"
  by (cases r) auto

section \<open>Association lists\<close>

text \<open>First binding of a key, or the empty string: \<open>http.Header.Get\<close>, \<open>url.Values.Get\<close>.\<close>

definition get_first :: "(string \<times> string) list \<Rightarrow> string \<Rightarrow> string" where
  "get_first kvs k = (case map_of kvs k of None \<Rightarrow> '''' | Some v \<Rightarrow> v)"

lemma get_first_Nil [simp]: "get_first [] k = ''''"
  by (simp add: get_first_def)

lemma get_first_Cons [simp]:
  "get_first ((k', v) # kvs) k = (if k = k' then v else get_first kvs k)"
  by (simp add: get_first_def)

lemma find_Some_conv: "List.find P xs = Some x \<Longrightarrow> P x \<and> x \<in> set xs"
  by (auto simp: find_Some_iff)

end
