(* ===== verification/Go_Strings.thy ===== *)
theory Go_Strings
  imports Go_Prelude
begin

text \<open>
  The parts of Go's \<open>strings\<close>, \<open>unicode/utf8\<close>, \<open>encoding/hex\<close> and \<open>crypto/subtle\<close> packages
  that the sources call, on byte strings. White space is Unicode white space in its UTF-8
  encoding, so that trimming is exact on every byte string, and \<open>EqualFold\<close> is the ASCII case
  folding that the two ASCII arguments the sources compare need.
\<close>

unbundle bit_operations_syntax

section \<open>Definitions\<close>

subsection \<open>Prefixes\<close>

definition HasPrefix :: "string \<Rightarrow> string \<Rightarrow> bool" where
  "HasPrefix s p \<longleftrightarrow> take (length p) s = p"

definition TrimPrefix :: "string \<Rightarrow> string \<Rightarrow> string" where
  "TrimPrefix s p = (if HasPrefix s p then drop (length p) s else s)"

subsection \<open>White space\<close>

text \<open>The UTF-8 encodings of the runes for which \<open>unicode.IsSpace\<close> holds.\<close>

definition space_runes :: "string list" where
  "space_runes =
     [[CHR 0x09], [CHR 0x0A], [CHR 0x0B], [CHR 0x0C], [CHR 0x0D], [CHR 0x20],
      [CHR 0xC2, CHR 0x85], [CHR 0xC2, CHR 0xA0], [CHR 0xE1, CHR 0x9A, CHR 0x80],
      [CHR 0xE2, CHR 0x80, CHR 0x80], [CHR 0xE2, CHR 0x80, CHR 0x81],
      [CHR 0xE2, CHR 0x80, CHR 0x82], [CHR 0xE2, CHR 0x80, CHR 0x83],
      [CHR 0xE2, CHR 0x80, CHR 0x84], [CHR 0xE2, CHR 0x80, CHR 0x85],
      [CHR 0xE2, CHR 0x80, CHR 0x86], [CHR 0xE2, CHR 0x80, CHR 0x87],
      [CHR 0xE2, CHR 0x80, CHR 0x88], [CHR 0xE2, CHR 0x80, CHR 0x89],
      [CHR 0xE2, CHR 0x80, CHR 0x8A], [CHR 0xE2, CHR 0x80, CHR 0xA8],
      [CHR 0xE2, CHR 0x80, CHR 0xA9], [CHR 0xE2, CHR 0x80, CHR 0xAF],
      [CHR 0xE2, CHR 0x81, CHR 0x9F], [CHR 0xE3, CHR 0x80, CHR 0x80]]"

text \<open>Drop leading members of a list of non-empty words; the empty words are ignored.\<close>

definition leading :: "string list \<Rightarrow> string \<Rightarrow> string option" where
  "leading ws s = List.find (\<lambda>w. w \<noteq> [] \<and> HasPrefix s w) ws"

function strip_left :: "string list \<Rightarrow> string \<Rightarrow> string" where
  "strip_left ws s =
     (case leading ws s of None \<Rightarrow> s | Some w \<Rightarrow> strip_left ws (drop (length w) s))"
  by pat_completeness auto
termination
proof (relation "measure (\<lambda>(ws, s). length s)")
  fix ws s w
  assume "leading ws s = Some w"
  then have "w \<noteq> []" and "HasPrefix s w"
    by (auto simp: leading_def dest: find_Some_conv)
  moreover from this have "s \<noteq> []"
    by (auto simp: HasPrefix_def)
  ultimately show "((ws, drop (length w) s), (ws, s)) \<in> measure (\<lambda>(ws, s). length s)"
    by simp
qed simp

declare strip_left.simps [simp del]

definition TrimLeft_space :: "string \<Rightarrow> string" where
  "TrimLeft_space s = strip_left space_runes s"

definition TrimRight_space :: "string \<Rightarrow> string" where
  "TrimRight_space s = rev (strip_left (map rev space_runes) (rev s))"

definition TrimSpace :: "string \<Rightarrow> string" where
  "TrimSpace s = TrimRight_space (TrimLeft_space s)"

subsection \<open>Searching\<close>

text \<open>\<open>IndexByte\<close> and \<open>IndexAny\<close> (of single-byte characters); absence is \<open>None\<close> for -1.\<close>

fun index_where :: "(char \<Rightarrow> bool) \<Rightarrow> string \<Rightarrow> nat option" where
  "index_where P [] = None"
| "index_where P (c # cs) = (if P c then Some 0 else map_option Suc (index_where P cs))"

definition IndexByte :: "string \<Rightarrow> char \<Rightarrow> nat option" where
  "IndexByte s c = index_where (\<lambda>x. x = c) s"

definition IndexAny :: "string \<Rightarrow> string \<Rightarrow> nat option" where
  "IndexAny s cs = index_where (\<lambda>x. x \<in> set cs) s"

text \<open>\<open>strings.Cut\<close> at a one-byte separator.\<close>

definition Cut :: "string \<Rightarrow> char \<Rightarrow> (string \<times> string) option" where
  "Cut s sep = (case IndexByte s sep of
      None \<Rightarrow> None
    | Some i \<Rightarrow> Some (take i s, drop (Suc i) s))"

subsection \<open>Case folding\<close>

definition lower :: "char \<Rightarrow> char" where
  "lower c = (if 65 \<le> (of_char c :: nat) \<and> (of_char c :: nat) \<le> 90
              then char_of ((of_char c :: nat) + 32) else c)"

definition EqualFold :: "string \<Rightarrow> string \<Rightarrow> bool" where
  "EqualFold s t \<longleftrightarrow> map lower s = map lower t"

subsection \<open>Hexadecimal\<close>

definition hex_digit :: "byte \<Rightarrow> char" where
  "hex_digit x = ''0123456789abcdef'' ! unat x"

fun EncodeToString :: "byte list \<Rightarrow> string" where
  "EncodeToString [] = ''''"
| "EncodeToString (b # bs) =
     hex_digit (drop_bit 4 b) # hex_digit (b AND 15) # EncodeToString bs"

subsection \<open>Quoting\<close>

text \<open>
  The verb \<open>%q\<close> on a string: ASCII control characters, quotes and backslashes are escaped,
  other bytes are kept (as Go keeps every printable rune).
\<close>

definition quote_char :: "char \<Rightarrow> string" where
  "quote_char c =
     (if c = CHR 0x22 then [CHR 0x5C, CHR 0x22]
      else if c = CHR 0x5C then [CHR 0x5C, CHR 0x5C]
      else if c = CHR 0x07 then [CHR 0x5C, CHR ''a'']
      else if c = CHR 0x08 then [CHR 0x5C, CHR ''b'']
      else if c = CHR 0x0C then [CHR 0x5C, CHR ''f'']
      else if c = CHR 0x0A then [CHR 0x5C, CHR ''n'']
      else if c = CHR 0x0D then [CHR 0x5C, CHR ''r'']
      else if c = CHR 0x09 then [CHR 0x5C, CHR ''t'']
      else if c = CHR 0x0B then [CHR 0x5C, CHR ''v'']
      else if (of_char c :: nat) < 0x20 \<or> c = CHR 0x7F
        then [CHR 0x5C, CHR ''x''] @ EncodeToString [of_nat (of_char c)]
      else [c])"

definition Quote :: "string \<Rightarrow> string" where
  "Quote s = [CHR 0x22] @ concat (map quote_char s) @ [CHR 0x22]"

subsection \<open>Constant-time comparison\<close>

definition byte_of :: "char \<Rightarrow> byte" where
  "byte_of c = of_nat (of_char c)"

text \<open>\<open>[]byte(s)\<close>: the bytes of a string.\<close>

definition bytes_of :: "string \<Rightarrow> byte list" where
  "bytes_of s = map byte_of s"

definition ConstantTimeCompare :: "byte list \<Rightarrow> byte list \<Rightarrow> int" where
  "ConstantTimeCompare xs ys =
     (if length xs \<noteq> length ys then 0
      else if fold (\<lambda>(x, y) v. v OR (x XOR y)) (zip xs ys) 0 = 0 then 1 else 0)"

subsection \<open>UTF-8 validity\<close>

definition in_range :: "nat \<Rightarrow> nat \<Rightarrow> char \<Rightarrow> bool" where
  "in_range lo hi c \<longleftrightarrow> lo \<le> (of_char c :: nat) \<and> (of_char c :: nat) \<le> hi"

abbreviation cont :: "char \<Rightarrow> bool" where
  "cont \<equiv> in_range 0x80 0xBF"

text \<open>The number of bytes of the valid encoding at the head of a string, 0 if there is none.\<close>

definition utf8_head :: "string \<Rightarrow> nat" where
  "utf8_head s = (case s of [] \<Rightarrow> 0 | b # bs \<Rightarrow>
     (if in_range 0 0x7F b then 1
      else case bs of [] \<Rightarrow> 0 | c # cs \<Rightarrow>
        (if in_range 0xC2 0xDF b then (if cont c then 2 else 0)
         else case cs of [] \<Rightarrow> 0 | d # ds \<Rightarrow>
           (if in_range 0xE0 0xEF b then
              (if (if b = CHR 0xE0 then in_range 0xA0 0xBF c
                   else if b = CHR 0xED then in_range 0x80 0x9F c else cont c) \<and> cont d
               then 3 else 0)
            else case ds of [] \<Rightarrow> 0 | e # _ \<Rightarrow>
              (if in_range 0xF0 0xF4 b \<and>
                  (if b = CHR 0xF0 then in_range 0x90 0xBF c
                   else if b = CHR 0xF4 then in_range 0x80 0x8F c else cont c) \<and> cont d \<and> cont e
               then 4 else 0)))))"

function ValidString :: "string \<Rightarrow> bool" where
  "ValidString s =
     (if s = [] then True
      else if utf8_head s = 0 then False else ValidString (drop (utf8_head s) s))"
  by pat_completeness auto
termination
  by (relation "measure length") auto

declare ValidString.simps [simp del]

section \<open>Lemmas\<close>

subsection \<open>Prefixes\<close>

lemma HasPrefix_iff: "HasPrefix s p \<longleftrightarrow> (\<exists>t. s = p @ t)"
proof
  assume "HasPrefix s p"
  then have "s = p @ drop (length p) s"
    unfolding HasPrefix_def by (metis append_take_drop_id)
  then show "\<exists>t. s = p @ t" by blast
qed (auto simp: HasPrefix_def)

lemma HasPrefix_append [simp]: "HasPrefix (p @ t) p"
  by (auto simp: HasPrefix_iff)

lemma TrimPrefix_append [simp]: "TrimPrefix (p @ t) p = t"
  by (simp add: TrimPrefix_def)

subsection \<open>Trimming\<close>

lemma strip_left_None: "leading ws s = None \<Longrightarrow> strip_left ws s = s"
  by (simp add: strip_left.simps)

lemma leading_strip_left: "leading ws (strip_left ws s) = None"
proof (induction ws s rule: strip_left.induct)
  case (1 ws s)
  then show ?case
    by (cases "leading ws s") (simp_all add: strip_left.simps [of ws s])
qed

lemma strip_left_suffix: "\<exists>p. s = p @ strip_left ws s"
proof (induction ws s rule: strip_left.induct)
  case (1 ws s)
  show ?case
  proof (cases "leading ws s")
    case None
    then show ?thesis by (simp add: strip_left_None)
  next
    case (Some w)
    from "1" [OF Some] obtain p where "drop (length w) s = p @ strip_left ws (drop (length w) s)"
      by blast
    then have "s = (take (length w) s @ p) @ strip_left ws (drop (length w) s)"
      by (metis append.assoc append_take_drop_id)
    then have "\<exists>p. s = p @ strip_left ws (drop (length w) s)" by blast
    with Some show ?thesis by (simp add: strip_left.simps [of ws s])
  qed
qed

lemma strip_left_idem [simp]: "strip_left ws (strip_left ws s) = strip_left ws s"
  by (rule strip_left_None) (rule leading_strip_left)

lemma TrimSpace_infix: "\<exists>p q. s = p @ TrimSpace s @ q"
proof -
  obtain p where p: "s = p @ TrimLeft_space s"
    unfolding TrimLeft_space_def using strip_left_suffix by blast
  obtain q where q: "rev (TrimLeft_space s) = q @ strip_left (map rev space_runes) (rev (TrimLeft_space s))"
    using strip_left_suffix by blast
  then have "TrimLeft_space s = TrimSpace s @ rev q"
    by (metis TrimRight_space_def TrimSpace_def rev_append rev_rev_ident)
  with p show ?thesis by metis
qed

subsection \<open>Searching\<close>

lemma index_where_Some:
  "index_where P s = Some i \<longleftrightarrow> i < length s \<and> P (s ! i) \<and> (\<forall>j < i. \<not> P (s ! j))"
proof (induction s arbitrary: i)
  case Nil
  then show ?case by simp
next
  case (Cons c cs)
  then show ?case
    by (cases i) (auto simp: less_Suc_eq_0_disj split: if_splits)
qed

lemma index_where_None: "index_where P s = None \<longleftrightarrow> (\<forall>c \<in> set s. \<not> P c)"
  by (induction s) auto

lemma index_where_append:
  "(\<forall>c \<in> set p. \<not> P c) \<Longrightarrow> index_where P (p @ s) = map_option ((+) (length p)) (index_where P s)"
proof (induction p)
  case Nil
  then show ?case by (simp add: option.map_ident_strong)
next
  case (Cons a p)
  then show ?case by (cases "index_where P s") auto
qed

lemma IndexByte_first: "sep \<notin> set k \<Longrightarrow> IndexByte (k @ sep # v) sep = Some (length k)"
  unfolding IndexByte_def by (subst index_where_append) auto

lemma Cut_first: "sep \<notin> set k \<Longrightarrow> Cut (k @ sep # v) sep = Some (k, v)"
  by (simp add: Cut_def IndexByte_first)

subsection \<open>Hexadecimal\<close>

lemma length_EncodeToString [simp]: "length (EncodeToString bs) = 2 * length bs"
  by (induction bs rule: EncodeToString.induct) auto

lemma hex_digit_inj:
  assumes "hex_digit x = hex_digit y" and "unat x < 16" and "unat y < 16"
  shows "x = y"
proof -
  have "distinct ''0123456789abcdef''" by simp
  moreover have "''0123456789abcdef'' ! unat x = ''0123456789abcdef'' ! unat y"
    using assms(1) by (simp only: hex_digit_def)
  ultimately have "unat x = unat y"
    using assms(2,3) nth_eq_iff_index_eq [of "''0123456789abcdef''" "unat x" "unat y"] by simp
  then show ?thesis by (simp add: word_unat_eq_iff)
qed

lemma nibbles_bound: "unat (drop_bit 4 (b :: byte)) < 16" "unat (b AND 15) < 16"
proof -
  have "unat (drop_bit 4 b) = unat b div 16"
    by (simp only: unat_drop_bit_eq drop_bit_nat_def) simp
  moreover have "unat b < 256"
    using unsigned_less [of b, where ?'a = nat] by simp
  ultimately show "unat (drop_bit 4 b) < 16" by linarith
  have "unat (b AND 15) \<le> unat (15 :: byte)"
    by (rule word_and_le1 [THEN word_le_nat_alt [THEN iffD1]])
  then show "unat (b AND 15) < 16" by simp
qed

lemma nibbles_inj:
  assumes "drop_bit 4 (a :: byte) = drop_bit 4 b" and "a AND 15 = b AND 15"
  shows "a = b"
proof (rule bit_eqI)
  fix n
  assume "possible_bit TYPE(byte) n"
  have low: "bit (15 :: byte) n \<longleftrightarrow> n < 4" for n
    using bit_mask_iff [of 4 n, where ?'a = byte] by (auto simp: mask_eq_exp_minus_1)
  show "bit a n = bit b n"
  proof (cases "n < 4")
    case True
    then show ?thesis
      using assms(2) low [of n] by (metis bit_and_iff)
  next
    case False
    then have "n = 4 + (n - 4)" by simp
    then show ?thesis
      using assms(1) by (metis bit_drop_bit_eq comp_apply)
  qed
qed

lemma EncodeToString_inj: "EncodeToString xs = EncodeToString ys \<longleftrightarrow> xs = ys"
proof
  assume "EncodeToString xs = EncodeToString ys"
  then show "xs = ys"
  proof (induction xs arbitrary: ys)
    case Nil
    then show ?case by (cases ys) auto
  next
    case (Cons x xs)
    then obtain y ys' where ys: "ys = y # ys'"
      by (cases ys) auto
    with Cons.prems have "drop_bit 4 x = drop_bit 4 y" and "x AND 15 = y AND 15"
      by (auto intro: hex_digit_inj nibbles_bound)
    then have "x = y" by (rule nibbles_inj)
    with Cons ys show ?case by auto
  qed
qed simp

subsection \<open>Constant-time comparison\<close>

lemma unat_byte_of: "unat (byte_of c) = of_char c"
  unfolding byte_of_def by (simp add: unat_of_nat)

lemma byte_of_inj [simp]: "byte_of c = byte_of d \<longleftrightarrow> c = d"
  by (metis of_char_eq_iff unat_byte_of)

lemma bytes_of_inj [simp]: "bytes_of s = bytes_of t \<longleftrightarrow> s = t"
  unfolding bytes_of_def by (simp add: inj_def inj_map_eq_map)

lemma fold_or_zero:
  "fold (\<lambda>(x, y) v. v OR (x XOR y)) ps (v :: byte) = 0 \<longleftrightarrow> v = 0 \<and> (\<forall>(x, y) \<in> set ps. x = y)"
proof (induction ps arbitrary: v)
  case Nil
  then show ?case by simp
next
  case (Cons p ps)
  obtain x y where p: "p = (x, y)" by (cases p)
  have "v OR (x XOR y) = 0 \<longleftrightarrow> v = 0 \<and> x = y"
    by (auto simp: bit_eq_iff bit_or_iff bit_xor_iff)
  with Cons p show ?case by auto
qed

lemma zip_all_eq: "length xs = length ys \<Longrightarrow> (\<forall>(x, y) \<in> set (zip xs ys). x = y) \<longleftrightarrow> xs = ys"
  by (induction xs ys rule: list_induct2) auto

lemma ConstantTimeCompare_eq: "ConstantTimeCompare xs ys = 1 \<longleftrightarrow> xs = ys"
  by (auto simp: ConstantTimeCompare_def fold_or_zero zip_all_eq)

end
