(* ===== verification/Identity.thy ===== *)
theory Identity
  imports Go_Strings
begin

text \<open>
  The caller identity of \<open>shared/identity/identity.go\<close>. A role is an open string type in the
  source, so it is one here: the four known roles are constants and \<open>Valid\<close> tells them from
  every other string.
\<close>

type_synonym Role = string

definition RoleAdmin :: Role where "RoleAdmin = ''admin''"
definition RoleSupplier :: Role where "RoleSupplier = ''supplier''"
definition RoleWarehouseManager :: Role where "RoleWarehouseManager = ''warehouse_manager''"
definition RoleAnalyst :: Role where "RoleAnalyst = ''analyst''"

lemmas role_defs [go_simps] =
  RoleAdmin_def RoleSupplier_def RoleWarehouseManager_def RoleAnalyst_def

definition Valid :: "Role \<Rightarrow> bool" where
  "Valid r \<longleftrightarrow> r = RoleAdmin \<or> r = RoleSupplier \<or> r = RoleWarehouseManager \<or> r = RoleAnalyst"

record Identity =
  id_TenantID :: string
  id_UserID :: string
  id_Role :: Role
  id_Region :: string
  id_SupplierID :: string

text \<open>The zero value \<open>Identity{}\<close> returned beside an error.\<close>

definition zero_Identity :: Identity where
  "zero_Identity = \<lparr>id_TenantID = '''', id_UserID = '''', id_Role = '''', id_Region = '''',
     id_SupplierID = ''''\<rparr>"

lemma role_distinct [simp]:
  "RoleAdmin \<noteq> RoleSupplier" "RoleAdmin \<noteq> RoleWarehouseManager" "RoleAdmin \<noteq> RoleAnalyst"
  "RoleSupplier \<noteq> RoleAdmin" "RoleSupplier \<noteq> RoleWarehouseManager" "RoleSupplier \<noteq> RoleAnalyst"
  "RoleWarehouseManager \<noteq> RoleAdmin" "RoleWarehouseManager \<noteq> RoleSupplier"
  "RoleWarehouseManager \<noteq> RoleAnalyst"
  "RoleAnalyst \<noteq> RoleAdmin" "RoleAnalyst \<noteq> RoleSupplier" "RoleAnalyst \<noteq> RoleWarehouseManager"
  by (simp_all add: role_defs)

lemma Valid_known [simp]:
  "Valid RoleAdmin" "Valid RoleSupplier" "Valid RoleWarehouseManager" "Valid RoleAnalyst"
  by (simp_all add: Valid_def)

lemma Valid_cases:
  assumes "Valid r"
  obtains "r = RoleAdmin" | "r = RoleSupplier" | "r = RoleWarehouseManager" | "r = RoleAnalyst"
  using assms by (auto simp: Valid_def)

lemma zero_role_invalid [simp]: "\<not> Valid (id_Role zero_Identity)"
  by (simp add: zero_Identity_def Valid_def role_defs)

end
