(* ===== verification/Jwt.thy ===== *)
theory Jwt
  imports Identity
begin

text \<open>
  Token issuance and validation of \<open>internal/auth/jwt.go\<close>. The library
  \<open>golang-jwt/jwt\<close> is not part of the repository: the three functions the source calls
  (signing claims with HS256, parsing with a key function and a clock, \<open>NewNumericDate\<close>) and
  the method a token's header names are the fields of a record that the definitions take as an
  argument, and what the source relies on of them is the predicate \<open>jwt_documented\<close>.
\<close>

section \<open>Definitions\<close>

definition tokenTypeAccess :: string where "tokenTypeAccess = ''access''"
definition tokenTypeRefresh :: string where "tokenTypeRefresh = ''refresh''"

text \<open>The payload; the registered claims in use are the subject, the issuer and the two dates.\<close>

record Claims =
  cl_TenantID :: string
  cl_Role :: string
  cl_Region :: string
  cl_SupplierID :: string
  cl_TokenType :: string
  cl_Subject :: string
  cl_Issuer :: string
  cl_IssuedAt :: "int option"
  cl_ExpiresAt :: "int option"

record TokenPair =
  tp_AccessToken :: string
  tp_RefreshToken :: string
  tp_TokenType :: string
  tp_ExpiresAt :: int

text \<open>
  The sentinel errors of the package (and, for the key store and the gateway, theirs). An
  error that wraps a sentinel carries the text added to it.
\<close>

datatype auth_error =
    ErrExpired
  | ErrInvalidToken string
  | ErrWrongTokenUse
  | ErrKeyNotFound
  | ErrKeyRevoked
  | ErrKeyExpired
  | errNoCredential
  | ErrOther string

fun Error :: "auth_error \<Rightarrow> string" where
  "Error ErrExpired = ''token expired''"
| "Error (ErrInvalidToken m) = (if m = '''' then ''invalid token'' else ''invalid token: '' @ m)"
| "Error ErrWrongTokenUse = ''token used for wrong purpose''"
| "Error ErrKeyNotFound = ''api key not found''"
| "Error ErrKeyRevoked = ''api key revoked''"
| "Error ErrKeyExpired = ''api key expired''"
| "Error errNoCredential = ''no credential presented''"
| "Error (ErrOther m) = m"

text \<open>The library: signing methods, parse failures, and the functions called.\<close>

datatype SigningMethod = SigningMethodHMAC string | OtherSigningMethod string

definition SigningMethodHS256 :: SigningMethod where "SigningMethodHS256 = SigningMethodHMAC ''HS256''"

text \<open>A parse error: whether \<open>errors.Is(err, jwt.ErrTokenExpired)\<close> holds, and its text.\<close>

datatype jwt_error = JwtError (jwt_is_expired: bool) (jwt_message: string)

record JwtLib =
  jwt_SignedString :: "string \<Rightarrow> Claims \<Rightarrow> string + string"
  jwt_Method :: "string \<Rightarrow> SigningMethod option"
  jwt_ParseWithClaims :: "string \<Rightarrow> (SigningMethod \<Rightarrow> auth_error + string) \<Rightarrow> int \<Rightarrow> jwt_error + Claims"
  jwt_NewNumericDate :: "int \<Rightarrow> int"

record Issuer =
  is_secret :: string
  is_accessTTL :: int
  is_refreshTTL :: int

text \<open>\<open>NewIssuer\<close> panics on an empty secret.\<close>

definition NewIssuer :: "string \<Rightarrow> int \<Rightarrow> int \<Rightarrow> string + Issuer" where
  "NewIssuer secret accessTTL refreshTTL =
     (if secret = '''' then Inl ''auth: empty JWT secret''
      else Inr \<lparr>is_secret = secret, is_accessTTL = accessTTL, is_refreshTTL = refreshTTL\<rparr>)"

definition claims_of :: "JwtLib \<Rightarrow> Identity \<Rightarrow> string \<Rightarrow> int \<Rightarrow> int \<Rightarrow> Claims" where
  "claims_of J i tokenType iat expy =
     \<lparr>cl_TenantID = id_TenantID i,
      cl_Role = id_Role i,
      cl_Region = id_Region i,
      cl_SupplierID = id_SupplierID i,
      cl_TokenType = tokenType,
      cl_Subject = id_UserID i,
      cl_Issuer = ''chainpulse'',
      cl_IssuedAt = Some (jwt_NewNumericDate J iat),
      cl_ExpiresAt = Some (jwt_NewNumericDate J expy)\<rparr>"

definition sign :: "JwtLib \<Rightarrow> Issuer \<Rightarrow> Identity \<Rightarrow> string \<Rightarrow> int \<Rightarrow> int \<Rightarrow> auth_error + string" where
  "sign J iss i tokenType iat expy =
     (case jwt_SignedString J (is_secret iss) (claims_of J i tokenType iat expy) of
        Inl m \<Rightarrow> Inl (ErrOther (''sign token: '' @ m))
      | Inr tok \<Rightarrow> Inr tok)"

definition Issue :: "JwtLib \<Rightarrow> Issuer \<Rightarrow> int \<Rightarrow> Identity \<Rightarrow> auth_error + TokenPair" where
  "Issue J iss now i =
     (if \<not> Valid (id_Role i) then Inl (ErrInvalidToken (''unknown role '' @ Quote (id_Role i)))
      else if id_TenantID i = '''' \<or> id_UserID i = ''''
        then Inl (ErrInvalidToken ''tenant_id and user_id are required'')
      else
        let accessExp = now + is_accessTTL iss in
        case sign J iss i tokenTypeAccess now accessExp of
          Inl err \<Rightarrow> Inl err
        | Inr access \<Rightarrow>
            (case sign J iss i tokenTypeRefresh now (now + is_refreshTTL iss) of
               Inl err \<Rightarrow> Inl err
             | Inr refresh \<Rightarrow>
                 Inr \<lparr>tp_AccessToken = access, tp_RefreshToken = refresh,
                      tp_TokenType = ''Bearer'', tp_ExpiresAt = accessExp\<rparr>))"

definition keyfunc :: "Issuer \<Rightarrow> SigningMethod \<Rightarrow> auth_error + string" where
  "keyfunc iss m =
     (case m of
        SigningMethodHMAC _ \<Rightarrow> Inr (is_secret iss)
      | OtherSigningMethod alg \<Rightarrow> Inl (ErrInvalidToken (''unexpected signing method '' @ alg)))"

definition parse :: "JwtLib \<Rightarrow> Issuer \<Rightarrow> int \<Rightarrow> string \<Rightarrow> auth_error + Claims" where
  "parse J iss now tokenString =
     (case jwt_ParseWithClaims J tokenString (keyfunc iss) now of
        Inl err \<Rightarrow> (if jwt_is_expired err then Inl ErrExpired
                     else Inl (ErrInvalidToken (jwt_message err)))
      | Inr claims \<Rightarrow> Inr claims)"

definition toIdentity :: "Claims \<Rightarrow> auth_error + Identity" where
  "toIdentity c =
     (if \<not> Valid (cl_Role c) then Inl (ErrInvalidToken (''unknown role '' @ Quote (cl_Role c)))
      else Inr \<lparr>id_TenantID = cl_TenantID c, id_UserID = cl_Subject c, id_Role = cl_Role c,
                id_Region = cl_Region c, id_SupplierID = cl_SupplierID c\<rparr>)"

definition Validate :: "JwtLib \<Rightarrow> Issuer \<Rightarrow> int \<Rightarrow> string \<Rightarrow> auth_error + Identity" where
  "Validate J iss now tokenString =
     (case parse J iss now tokenString of
        Inl err \<Rightarrow> Inl err
      | Inr claims \<Rightarrow>
          (if cl_TokenType claims \<noteq> tokenTypeAccess then Inl ErrWrongTokenUse
           else toIdentity claims))"

text \<open>\<open>Refresh\<close> reads the clock twice: when parsing and when issuing.\<close>

definition Refresh :: "JwtLib \<Rightarrow> Issuer \<Rightarrow> int \<Rightarrow> int \<Rightarrow> string \<Rightarrow> auth_error + TokenPair" where
  "Refresh J iss parse_now issue_now refreshToken =
     (case parse J iss parse_now refreshToken of
        Inl err \<Rightarrow> Inl err
      | Inr claims \<Rightarrow>
          (if cl_TokenType claims \<noteq> tokenTypeRefresh then Inl ErrWrongTokenUse
           else case toIdentity claims of
                  Inl err \<Rightarrow> Inl err
                | Inr i \<Rightarrow> Issue J iss issue_now i))"

section \<open>What the source relies on of the library\<close>

text \<open>The claims survive their JSON encoding when their strings are valid UTF-8.\<close>

definition claims_utf8 :: "Claims \<Rightarrow> bool" where
  "claims_utf8 c \<longleftrightarrow> ValidString (cl_TenantID c) \<and> ValidString (cl_Role c) \<and>
     ValidString (cl_Region c) \<and> ValidString (cl_SupplierID c) \<and> ValidString (cl_TokenType c) \<and>
     ValidString (cl_Subject c) \<and> ValidString (cl_Issuer c)"

definition identity_utf8 :: "Identity \<Rightarrow> bool" where
  "identity_utf8 i \<longleftrightarrow> ValidString (id_TenantID i) \<and> ValidString (id_UserID i) \<and>
     ValidString (id_Region i) \<and> ValidString (id_SupplierID i)"

text \<open>HMAC signing succeeds, and the token names the method it was signed with.\<close>

definition jwt_signs :: "JwtLib \<Rightarrow> bool" where
  "jwt_signs J \<longleftrightarrow> (\<forall>k c. \<exists>t. jwt_SignedString J k c = Inr t \<and> jwt_Method J t = Some SigningMethodHS256)"

text \<open>
  Parsing a token with the key it was signed with returns its claims until they expire. The dates
  are those that \<open>NewNumericDate\<close> makes, which the encoding keeps.
\<close>

definition jwt_reads_back :: "JwtLib \<Rightarrow> bool" where
  "jwt_reads_back J \<longleftrightarrow>
     (\<forall>k c t kf now iat expy. jwt_SignedString J k c = Inr t \<longrightarrow> kf SigningMethodHS256 = Inr k \<longrightarrow>
        claims_utf8 c \<longrightarrow> cl_IssuedAt c = Some (jwt_NewNumericDate J iat) \<longrightarrow>
        cl_ExpiresAt c = Some (jwt_NewNumericDate J expy) \<longrightarrow> now < jwt_NewNumericDate J expy \<longrightarrow>
        jwt_ParseWithClaims J t kf now = Inr c)"

definition jwt_expires :: "JwtLib \<Rightarrow> bool" where
  "jwt_expires J \<longleftrightarrow>
     (\<forall>k c t kf now expy. jwt_SignedString J k c = Inr t \<longrightarrow> kf SigningMethodHS256 = Inr k \<longrightarrow>
        cl_ExpiresAt c = Some (jwt_NewNumericDate J expy) \<longrightarrow> jwt_NewNumericDate J expy \<le> now \<longrightarrow>
        (\<exists>m. jwt_ParseWithClaims J t kf now = Inl (JwtError True m)))"

text \<open>A token is accepted only if the key function accepts the method its header names.\<close>

definition jwt_asks_key :: "JwtLib \<Rightarrow> bool" where
  "jwt_asks_key J \<longleftrightarrow>
     (\<forall>t kf now c. jwt_ParseWithClaims J t kf now = Inr c \<longrightarrow>
        (\<exists>m k. jwt_Method J t = Some m \<and> kf m = Inr k))"

text \<open>\<open>NewNumericDate\<close> truncates to a whole second.\<close>

definition jwt_truncates :: "JwtLib \<Rightarrow> bool" where
  "jwt_truncates J \<longleftrightarrow> (\<forall>t. jwt_NewNumericDate J t \<le> t \<and> t < jwt_NewNumericDate J t + Second)"

definition jwt_documented :: "JwtLib \<Rightarrow> bool" where
  "jwt_documented J \<longleftrightarrow>
     jwt_signs J \<and> jwt_reads_back J \<and> jwt_expires J \<and> jwt_asks_key J \<and> jwt_truncates J"

section \<open>Lemmas\<close>

lemma keyfunc_HS256 [simp]: "keyfunc iss SigningMethodHS256 = Inr (is_secret iss)"
  by (simp add: keyfunc_def SigningMethodHS256_def)

lemma keyfunc_Inr: "keyfunc iss m = Inr k \<Longrightarrow> (\<exists>alg. m = SigningMethodHMAC alg) \<and> k = is_secret iss"
  by (simp add: keyfunc_def split: SigningMethod.splits)

lemma ValidString_constants [simp]:
  "ValidString ''access''" "ValidString ''refresh''" "ValidString ''chainpulse''"
  "ValidString ''admin''" "ValidString ''supplier''" "ValidString ''warehouse_manager''"
  "ValidString ''analyst''"
  by (simp_all add: ValidString.simps utf8_head_def in_range_def)

lemma Valid_utf8: "Valid r \<Longrightarrow> ValidString r"
  by (erule Valid_cases) (simp_all add: role_defs)

lemma claims_of_utf8:
  "identity_utf8 i \<Longrightarrow> Valid (id_Role i) \<Longrightarrow> ValidString ty \<Longrightarrow> claims_utf8 (claims_of J i ty iat expy)"
  by (simp add: claims_utf8_def identity_utf8_def claims_of_def Valid_utf8)

lemma toIdentity_claims_of: "Valid (id_Role i) \<Longrightarrow> toIdentity (claims_of J i ty iat expy) = Inr i"
  by (simp add: toIdentity_def claims_of_def)

lemma toIdentity_Inr: "toIdentity c = Inr i \<Longrightarrow>
    Valid (id_Role i) \<and> id_Role i = cl_Role c \<and> id_TenantID i = cl_TenantID c \<and> id_UserID i = cl_Subject c"
  by (auto simp: toIdentity_def split: if_splits)

text \<open>What a successful \<open>Issue\<close> returns.\<close>

lemma Issue_InrD:
  assumes "Issue J iss now i = Inr p"
  shows "Valid (id_Role i)" and "id_TenantID i \<noteq> ''''" and "id_UserID i \<noteq> ''''"
    and "jwt_SignedString J (is_secret iss)
           (claims_of J i tokenTypeAccess now (now + is_accessTTL iss)) = Inr (tp_AccessToken p)"
    and "jwt_SignedString J (is_secret iss)
           (claims_of J i tokenTypeRefresh now (now + is_refreshTTL iss)) = Inr (tp_RefreshToken p)"
    and "tp_TokenType p = ''Bearer''" and "tp_ExpiresAt p = now + is_accessTTL iss"
  using assms by (auto simp: Issue_def sign_def Let_def split: if_splits sum.splits)

lemma Issue_total:
  assumes "jwt_signs J" and "Valid (id_Role i)" and "id_TenantID i \<noteq> ''''" and "id_UserID i \<noteq> ''''"
  shows "\<exists>p. Issue J iss now i = Inr p"
proof -
  obtain a r where
    "jwt_SignedString J (is_secret iss) (claims_of J i tokenTypeAccess now (now + is_accessTTL iss)) = Inr a"
    "jwt_SignedString J (is_secret iss) (claims_of J i tokenTypeRefresh now (now + is_refreshTTL iss)) = Inr r"
    using assms(1) unfolding jwt_signs_def by metis
  then show ?thesis
    using assms(2-4) by (simp add: Issue_def sign_def Let_def)
qed

lemma Issue_ok_iff:
  "jwt_signs J \<Longrightarrow>
   is_ok (Issue J iss now i) \<longleftrightarrow> Valid (id_Role i) \<and> id_TenantID i \<noteq> '''' \<and> id_UserID i \<noteq> ''''"
  by (metis Issue_InrD(1-3) Issue_total is_ok_iff)

text \<open>Parsing a token that this issuer signed.\<close>

lemma parse_signed:
  assumes "jwt_reads_back J" and "jwt_SignedString J (is_secret iss) c = Inr t"
    and "claims_utf8 c" and "cl_IssuedAt c = Some (jwt_NewNumericDate J iat)"
    and "cl_ExpiresAt c = Some (jwt_NewNumericDate J expy)" and "now < jwt_NewNumericDate J expy"
  shows "parse J iss now t = Inr c"
proof -
  have "jwt_ParseWithClaims J t (keyfunc iss) now = Inr c"
    using assms keyfunc_HS256 unfolding jwt_reads_back_def by blast
  then show ?thesis by (simp add: parse_def)
qed

lemma parse_signed_expired:
  assumes "jwt_expires J" and "jwt_SignedString J (is_secret iss) c = Inr t"
    and "cl_ExpiresAt c = Some (jwt_NewNumericDate J expy)" and "jwt_NewNumericDate J expy \<le> now"
  shows "parse J iss now t = Inl ErrExpired"
proof -
  obtain m where "jwt_ParseWithClaims J t (keyfunc iss) now = Inl (JwtError True m)"
    using assms keyfunc_HS256 unfolding jwt_expires_def by blast
  then show ?thesis by (simp add: parse_def)
qed

lemma parse_Inr_HMAC:
  assumes "jwt_asks_key J" and "parse J iss now t = Inr c"
  shows "\<exists>alg. jwt_Method J t = Some (SigningMethodHMAC alg)"
proof -
  from assms(2) have "jwt_ParseWithClaims J t (keyfunc iss) now = Inr c"
    by (simp add: parse_def split: sum.splits if_splits)
  with assms(1) show ?thesis
    unfolding jwt_asks_key_def using keyfunc_Inr by metis
qed

lemma Validate_InrD:
  assumes "Validate J iss now t = Inr i"
  obtains c where "parse J iss now t = Inr c" and "cl_TokenType c = tokenTypeAccess"
    and "toIdentity c = Inr i"
  using assms by (auto simp: Validate_def split: sum.splits if_splits)

lemma token_types_distinct [simp]: "tokenTypeAccess \<noteq> tokenTypeRefresh" "tokenTypeRefresh \<noteq> tokenTypeAccess"
  by (simp_all add: tokenTypeAccess_def tokenTypeRefresh_def)

lemma ValidString_token_types [simp]: "ValidString tokenTypeAccess" "ValidString tokenTypeRefresh"
  by (simp_all add: tokenTypeAccess_def tokenTypeRefresh_def)

lemma claims_of_simps [simp]:
  "cl_TokenType (claims_of J i ty iat expy) = ty"
  "cl_IssuedAt (claims_of J i ty iat expy) = Some (jwt_NewNumericDate J iat)"
  "cl_ExpiresAt (claims_of J i ty iat expy) = Some (jwt_NewNumericDate J expy)"
  by (simp_all add: claims_of_def)

text \<open>The tokens of a pair, each read back with its own use.\<close>

lemma parse_access_token:
  assumes J: "jwt_documented J" and p: "Issue J iss now i = Inr p" and "identity_utf8 i"
    and "t < jwt_NewNumericDate J (now + is_accessTTL iss)"
  shows "parse J iss t (tp_AccessToken p) =
    Inr (claims_of J i tokenTypeAccess now (now + is_accessTTL iss))"
  using assms Issue_InrD [OF p]
  by (intro parse_signed) (auto simp: jwt_documented_def intro: claims_of_utf8)

lemma parse_refresh_token:
  assumes J: "jwt_documented J" and p: "Issue J iss now i = Inr p" and "identity_utf8 i"
    and "t < jwt_NewNumericDate J (now + is_refreshTTL iss)"
  shows "parse J iss t (tp_RefreshToken p) =
    Inr (claims_of J i tokenTypeRefresh now (now + is_refreshTTL iss))"
  using assms Issue_InrD [OF p]
  by (intro parse_signed) (auto simp: jwt_documented_def intro: claims_of_utf8)

lemma Validate_access_token:
  assumes "jwt_documented J" and "identity_utf8 i" and "Issue J iss now i = Inr p"
  shows "Validate J iss t (tp_AccessToken p) =
    (if t < jwt_NewNumericDate J (now + is_accessTTL iss) then Inr i else Inl ErrExpired)"
proof (cases "t < jwt_NewNumericDate J (now + is_accessTTL iss)")
  case True
  with assms Issue_InrD(1) [OF assms(3)] show ?thesis
    by (simp add: Validate_def parse_access_token toIdentity_claims_of)
next
  case False
  with assms(1) have "parse J iss t (tp_AccessToken p) = Inl ErrExpired"
    by (intro parse_signed_expired [OF _ Issue_InrD(4) [OF assms(3)]]) (auto simp: jwt_documented_def)
  with False show ?thesis by (simp add: Validate_def)
qed

end
