(* ===== verification/Api_Key.thy ===== *)
theory Api_Key
  imports Jwt
begin

text \<open>
  Key material of \<open>internal/auth/apikey.go\<close>: generation, hashing, the constant-time comparison
  and the display prefix. The digest is an argument (\<open>sha256.Sum256\<close> as a function on byte
  lists) and so is the outcome of reading entropy: an error or the bytes of the buffer.
\<close>

section \<open>Definitions\<close>

definition APIKeyDisplayPrefix :: string where "APIKeyDisplayPrefix = ''cp_''"

definition apiKeyRandomBytes :: nat where "apiKeyRandomBytes = 32"

record APIKey =
  key_ID :: string
  key_TenantID :: string
  key_Name :: string
  key_KeyPrefix :: string
  key_Role :: Role
  key_Region :: string
  key_SupplierID :: string
  key_CreatedAt :: int
  key_LastUsedAt :: "int option"
  key_ExpiresAt :: "int option"
  key_RevokedAt :: "int option"

record CreateAPIKeySpec =
  spec_TenantID :: string
  spec_Name :: string
  spec_Role :: Role
  spec_Region :: string
  spec_SupplierID :: string
  spec_ExpiresAt :: "int option"

definition hashAPIKey :: "(byte list \<Rightarrow> byte list) \<Rightarrow> string \<Rightarrow> string" where
  "hashAPIKey sha256 key = EncodeToString (sha256 (bytes_of key))"

definition constantTimeEqual :: "string \<Rightarrow> string \<Rightarrow> bool" where
  "constantTimeEqual a b \<longleftrightarrow> ConstantTimeCompare (bytes_of a) (bytes_of b) = 1"

definition displayPrefix :: "string \<Rightarrow> string" where
  "displayPrefix plaintext =
     (let body = TrimPrefix plaintext APIKeyDisplayPrefix;
          n = (if length body < 8 then length body else 8)
      in APIKeyDisplayPrefix @ take n body)"

definition generateAPIKey ::
  "(byte list \<Rightarrow> byte list) \<Rightarrow> string + byte list \<Rightarrow> auth_error + (string \<times> string \<times> string)" where
  "generateAPIKey sha256 rand_Read =
     (case rand_Read of
        Inl err \<Rightarrow> Inl (ErrOther (''generate api key entropy: '' @ err))
      | Inr buf \<Rightarrow>
          (let plaintext = APIKeyDisplayPrefix @ EncodeToString buf
           in Inr (plaintext, hashAPIKey sha256 plaintext, displayPrefix plaintext)))"

section \<open>The interfaces\<close>

text \<open>
  \<open>APIKeyResolver\<close>, all that the gateway's authentication depends on: a resolved identity has
  a known role. \<open>APIKeyStore\<close> adds the management operations: they keep the store well formed
  and touch the keys of the calling tenant only.
\<close>

locale key_resolver =
  fixes resolve :: "'e \<Rightarrow> string \<Rightarrow> 'db \<Rightarrow> (auth_error + Identity) \<times> 'db"
    and inv :: "'db \<Rightarrow> bool"
  assumes resolve_valid: "resolve env k db = (Inr i, db') \<Longrightarrow> Valid (id_Role i)"
    and resolve_inv: "inv db \<Longrightarrow> inv (snd (resolve env k db))"

locale key_store = key_resolver resolve inv
  for resolve :: "'e \<Rightarrow> string \<Rightarrow> 'db \<Rightarrow> (auth_error + Identity) \<times> 'db"
    and inv :: "'db \<Rightarrow> bool" +
  fixes create :: "'e \<Rightarrow> CreateAPIKeySpec \<Rightarrow> 'db \<Rightarrow> (auth_error + (APIKey \<times> string)) \<times> 'db"
    and rotate :: "'e \<Rightarrow> string \<Rightarrow> string \<Rightarrow> 'db \<Rightarrow> (auth_error + (APIKey \<times> string)) \<times> 'db"
    and revoke :: "'e \<Rightarrow> string \<Rightarrow> string \<Rightarrow> 'db \<Rightarrow> auth_error option \<times> 'db"
    and keys_of :: "string \<Rightarrow> 'db \<Rightarrow> 'k"
    and tenant_of :: "string \<Rightarrow> string option"
  assumes create_inv: "inv db \<Longrightarrow> inv (snd (create env spec db))"
    and rotate_inv: "inv db \<Longrightarrow> inv (snd (rotate env tenant i db))"
    and revoke_inv: "inv db \<Longrightarrow> inv (snd (revoke env tenant i db))"
    and create_scoped: "inv db \<Longrightarrow> tenant_of (spec_TenantID spec) \<noteq> Some t \<Longrightarrow>
          keys_of t (snd (create env spec db)) = keys_of t db"
    and rotate_scoped: "inv db \<Longrightarrow> tenant_of tenant \<noteq> Some t \<Longrightarrow>
          keys_of t (snd (rotate env tenant i db)) = keys_of t db"
    and revoke_scoped: "inv db \<Longrightarrow> tenant_of tenant \<noteq> Some t \<Longrightarrow>
          keys_of t (snd (revoke env tenant i db)) = keys_of t db"

section \<open>Lemmas\<close>

lemma constantTimeEqual_eq [simp]: "constantTimeEqual a b \<longleftrightarrow> a = b"
  by (simp add: constantTimeEqual_def ConstantTimeCompare_eq)

lemma displayPrefix_take:
  "displayPrefix (APIKeyDisplayPrefix @ body) = APIKeyDisplayPrefix @ take 8 body"
  by (simp add: displayPrefix_def Let_def)

lemma length_APIKeyDisplayPrefix [simp]: "length APIKeyDisplayPrefix = 3"
  by (simp add: APIKeyDisplayPrefix_def)

lemma generateAPIKey_Inr:
  "generateAPIKey sha rnd = Inr (plain, hash, prefix) \<Longrightarrow>
   (\<exists>buf. rnd = Inr buf \<and> plain = APIKeyDisplayPrefix @ EncodeToString buf) \<and>
   hash = hashAPIKey sha plain \<and> prefix = displayPrefix plain"
  by (auto simp: generateAPIKey_def Let_def split: sum.splits)

lemma generateAPIKey_ok: "is_ok (generateAPIKey sha (Inr buf))"
  by (simp add: generateAPIKey_def Let_def)

end
