(* ===== verification/Policy.thy ===== *)
theory Policy
  imports Identity
begin

text \<open>
  The policy engine of \<open>internal/policy/engine.go\<close> and the rule set of
  \<open>internal/policy/rules.go\<close>. \<open>Evaluate\<close> runs the rules in a goroutine and selects between its
  result and the expiry of a context; which of the two the select takes is an argument, so
  every theorem holds for every outcome of that race.
\<close>

section \<open>Definitions\<close>

subsection \<open>engine.go\<close>

type_synonym Action = string

definition ActionCreate :: Action where "ActionCreate = ''create''"
definition ActionRead :: Action where "ActionRead = ''read''"
definition ActionUpdate :: Action where "ActionUpdate = ''update''"
definition ActionDelete :: Action where "ActionDelete = ''delete''"
definition ActionCancel :: Action where "ActionCancel = ''cancel''"

lemmas action_defs [go_simps] =
  ActionCreate_def ActionRead_def ActionUpdate_def ActionDelete_def ActionCancel_def

text \<open>A float64: a finite value is \<open>m * 2 ^ e\<close>; comparisons with NaN are false.\<close>

datatype float64 = NaN | PosInf | NegInf | Finite int int

fun float_ge :: "float64 \<Rightarrow> int \<Rightarrow> bool" where
  "float_ge NaN k = False"
| "float_ge PosInf k = True"
| "float_ge NegInf k = False"
| "float_ge (Finite m e) k =
     (if 0 \<le> e then k \<le> m * 2 ^ nat e else k * 2 ^ nat (- e) \<le> m)"

record Resource =
  res_Type :: string
  res_ID :: string
  res_TenantID :: string
  res_Region :: string
  res_OwnerSupplierID :: string
  res_ValueUSD :: float64

definition zero_Resource :: Resource where
  "zero_Resource = \<lparr>res_Type = '''', res_ID = '''', res_TenantID = '''', res_Region = '''',
     res_OwnerSupplierID = '''', res_ValueUSD = Finite 0 0\<rparr>"

record Input =
  in_Actor :: Identity
  in_Action :: Action
  in_Resource :: Resource

record Decision =
  dec_Allow :: bool
  dec_RuleMatched :: string
  dec_Reason :: string

definition RuleCrossTenantDeny :: string where "RuleCrossTenantDeny = ''cross_tenant_deny''"
definition RuleDefaultDeny :: string where "RuleDefaultDeny = ''default_deny''"
definition RuleEvalTimeout :: string where "RuleEvalTimeout = ''eval_timeout''"

type_synonym Effect = string

definition EffectAllow :: Effect where "EffectAllow = ''allow''"
definition EffectDeny :: Effect where "EffectDeny = ''deny''"

lemmas effect_defs [go_simps] = EffectAllow_def EffectDeny_def

record Rule =
  rule_ID :: string
  rule_Effect :: Effect
  rule_Reason :: string
  rule_Match :: "Input \<Rightarrow> bool"

record Engine =
  eng_rules :: "Rule list"
  eng_evalTimeout :: int

definition NewEngine :: "Rule list \<Rightarrow> int \<Rightarrow> Engine" where
  "NewEngine rules evalTimeout = \<lparr>eng_rules = rules, eng_evalTimeout = evalTimeout\<rparr>"

text \<open>The rule a loop over the rule set returns at, for an effect.\<close>

definition first_match :: "Effect \<Rightarrow> Input \<Rightarrow> Rule list \<Rightarrow> Rule option" where
  "first_match eff i rules = List.find (\<lambda>r. rule_Effect r = eff \<and> rule_Match r i) rules"

definition evaluateRules :: "Engine \<Rightarrow> Input \<Rightarrow> Decision" where
  "evaluateRules e i =
     (case first_match EffectDeny i (eng_rules e) of
        Some r \<Rightarrow> \<lparr>dec_Allow = False, dec_RuleMatched = rule_ID r, dec_Reason = rule_Reason r\<rparr>
      | None \<Rightarrow>
          (case first_match EffectAllow i (eng_rules e) of
             Some r \<Rightarrow> \<lparr>dec_Allow = True, dec_RuleMatched = rule_ID r, dec_Reason = ''''\<rparr>
           | None \<Rightarrow> \<lparr>dec_Allow = False, dec_RuleMatched = RuleDefaultDeny,
                      dec_Reason = ''no matching allow rule''\<rparr>))"

text \<open>The case a select statement takes: the result channel or the expired context.\<close>

datatype select_case = ResultReady | CtxDone

definition Evaluate :: "Engine \<Rightarrow> select_case \<Rightarrow> Input \<Rightarrow> Decision" where
  "Evaluate e sel i =
     (if res_TenantID (in_Resource i) \<noteq> '''' \<and>
         res_TenantID (in_Resource i) \<noteq> id_TenantID (in_Actor i)
      then \<lparr>dec_Allow = False, dec_RuleMatched = RuleCrossTenantDeny,
            dec_Reason = ''resource belongs to a different tenant''\<rparr>
      else if eng_evalTimeout e \<le> 0 then evaluateRules e i
      else case sel of
             ResultReady \<Rightarrow> evaluateRules e i
           | CtxDone \<Rightarrow> \<lparr>dec_Allow = False, dec_RuleMatched = RuleEvalTimeout,
                         dec_Reason = ''policy evaluation exceeded timeout''\<rparr>)"

subsection \<open>rules.go\<close>

definition HighValueThresholdUSD :: int where "HighValueThresholdUSD = 50000"

definition DefaultRules :: "Rule list" where
  "DefaultRules =
    [\<lparr>rule_ID = ''deny_high_value_order_mutation_non_admin'',
      rule_Effect = EffectDeny,
      rule_Reason = ''high-value order mutation requires admin'',
      rule_Match = (\<lambda>i.
        res_Type (in_Resource i) = ''order'' \<and>
        (in_Action i = ActionUpdate \<or> in_Action i = ActionCancel) \<and>
        float_ge (res_ValueUSD (in_Resource i)) HighValueThresholdUSD \<and>
        id_Role (in_Actor i) \<noteq> RoleAdmin)\<rparr>,
     \<lparr>rule_ID = ''allow_admin_within_tenant'', rule_Effect = EffectAllow, rule_Reason = '''',
      rule_Match = (\<lambda>i. id_Role (in_Actor i) = RoleAdmin)\<rparr>,
     \<lparr>rule_ID = ''allow_analyst_read'', rule_Effect = EffectAllow, rule_Reason = '''',
      rule_Match = (\<lambda>i. id_Role (in_Actor i) = RoleAnalyst \<and> in_Action i = ActionRead)\<rparr>,
     \<lparr>rule_ID = ''allow_wm_read_inventory'', rule_Effect = EffectAllow, rule_Reason = '''',
      rule_Match = (\<lambda>i.
        id_Role (in_Actor i) = RoleWarehouseManager \<and>
        res_Type (in_Resource i) = ''inventory'' \<and>
        in_Action i = ActionRead)\<rparr>,
     \<lparr>rule_ID = ''allow_wm_write_own_region_inventory'', rule_Effect = EffectAllow, rule_Reason = '''',
      rule_Match = (\<lambda>i.
        id_Role (in_Actor i) = RoleWarehouseManager \<and>
        res_Type (in_Resource i) = ''inventory'' \<and>
        (in_Action i = ActionCreate \<or> in_Action i = ActionUpdate) \<and>
        res_Region (in_Resource i) \<noteq> '''' \<and>
        res_Region (in_Resource i) = id_Region (in_Actor i))\<rparr>,
     \<lparr>rule_ID = ''allow_wm_orders'', rule_Effect = EffectAllow, rule_Reason = '''',
      rule_Match = (\<lambda>i.
        id_Role (in_Actor i) = RoleWarehouseManager \<and>
        res_Type (in_Resource i) = ''order'' \<and>
        (in_Action i = ActionRead \<or> in_Action i = ActionCreate))\<rparr>,
     \<lparr>rule_ID = ''allow_supplier_own_shipments'', rule_Effect = EffectAllow, rule_Reason = '''',
      rule_Match = (\<lambda>i.
        id_Role (in_Actor i) = RoleSupplier \<and>
        res_Type (in_Resource i) = ''shipment'' \<and>
        res_OwnerSupplierID (in_Resource i) \<noteq> '''' \<and>
        res_OwnerSupplierID (in_Resource i) = id_SupplierID (in_Actor i))\<rparr>,
     \<lparr>rule_ID = ''allow_supplier_read_own_inventory'', rule_Effect = EffectAllow, rule_Reason = '''',
      rule_Match = (\<lambda>i.
        id_Role (in_Actor i) = RoleSupplier \<and>
        res_Type (in_Resource i) = ''inventory'' \<and>
        in_Action i = ActionRead \<and>
        res_OwnerSupplierID (in_Resource i) \<noteq> '''' \<and>
        res_OwnerSupplierID (in_Resource i) = id_SupplierID (in_Actor i))\<rparr>]"

subsection \<open>Specification\<close>

text \<open>The tenant test that comes before the rules.\<close>

definition cross_tenant :: "Input \<Rightarrow> bool" where
  "cross_tenant i \<longleftrightarrow> res_TenantID (in_Resource i) \<noteq> '''' \<and>
     res_TenantID (in_Resource i) \<noteq> id_TenantID (in_Actor i)"

text \<open>Deny-overrides combination of an unordered collection of rules.\<close>

definition some_match :: "Effect \<Rightarrow> Input \<Rightarrow> Rule multiset \<Rightarrow> bool" where
  "some_match eff i R \<longleftrightarrow> (\<exists>r \<in># R. rule_Effect r = eff \<and> rule_Match r i)"

definition deny_overrides :: "Rule multiset \<Rightarrow> Input \<Rightarrow> bool" where
  "deny_overrides R i \<longleftrightarrow> some_match EffectAllow i R \<and> \<not> some_match EffectDeny i R"

text \<open>The access matrix of the default rules, by role.\<close>

definition own_supplier :: "Input \<Rightarrow> bool" where
  "own_supplier i \<longleftrightarrow> res_OwnerSupplierID (in_Resource i) \<noteq> '''' \<and>
     res_OwnerSupplierID (in_Resource i) = id_SupplierID (in_Actor i)"

definition own_region :: "Input \<Rightarrow> bool" where
  "own_region i \<longleftrightarrow> res_Region (in_Resource i) \<noteq> '''' \<and>
     res_Region (in_Resource i) = id_Region (in_Actor i)"

definition access_matrix :: "Input \<Rightarrow> bool" where
  "access_matrix i =
    (let role = id_Role (in_Actor i); t = res_Type (in_Resource i); a = in_Action i in
     if role = RoleAdmin then True
     else if role = RoleAnalyst then a = ActionRead
     else if role = RoleWarehouseManager then
       (t = ''inventory'' \<and> (a = ActionRead \<or> (a = ActionCreate \<or> a = ActionUpdate) \<and> own_region i))
       \<or> (t = ''order'' \<and> (a = ActionRead \<or> a = ActionCreate))
     else if role = RoleSupplier then
       own_supplier i \<and> (t = ''shipment'' \<or> (t = ''inventory'' \<and> a = ActionRead))
     else False)"

section \<open>Lemmas\<close>

subsection \<open>The loops\<close>

lemma first_match_None:
  "first_match eff i rules = None \<longleftrightarrow> \<not> some_match eff i (mset rules)"
  by (auto simp: first_match_def some_match_def find_None_iff)

lemma first_match_SomeD:
  "first_match eff i rules = Some r \<Longrightarrow> r \<in> set rules \<and> rule_Effect r = eff \<and> rule_Match r i"
  by (auto simp: first_match_def dest: find_Some_conv)

lemma first_match_earliest:
  assumes "first_match eff i rules = Some r"
  obtains xs ys where "rules = xs @ r # ys"
    and "\<forall>x \<in> set xs. \<not> (rule_Effect x = eff \<and> rule_Match x i)"
proof -
  from assms obtain n where n: "n < length rules" "r = rules ! n"
    and before: "\<forall>j < n. \<not> (rule_Effect (rules ! j) = eff \<and> rule_Match (rules ! j) i)"
    by (auto simp: first_match_def find_Some_iff)
  have "\<forall>x \<in> set (take n rules). \<not> (rule_Effect x = eff \<and> rule_Match x i)"
    using before n(1) by (auto simp: in_set_conv_nth)
  then show ?thesis
    using n that [of "take n rules" "drop (Suc n) rules"] by (simp add: id_take_nth_drop)
qed

lemma first_match_at:
  assumes "\<forall>x \<in> set xs. rule_Effect x = eff \<longrightarrow> \<not> rule_Match x i"
    and "rule_Effect r = eff" and "rule_Match r i"
  shows "first_match eff i (xs @ r # ys) = Some r"
  using assms by (induction xs) (auto simp: first_match_def)

lemma first_match_exists: "some_match eff i (mset rules) \<Longrightarrow> \<exists>r. first_match eff i rules = Some r"
  using first_match_None by fastforce

lemma evaluateRules_Allow:
  "dec_Allow (evaluateRules e i) \<longleftrightarrow> deny_overrides (mset (eng_rules e)) i"
proof -
  have "some_match eff i (mset (eng_rules e)) \<longleftrightarrow> first_match eff i (eng_rules e) \<noteq> None" for eff
    by (simp add: first_match_None)
  then show ?thesis
    by (simp add: evaluateRules_def deny_overrides_def split: option.splits)
qed

lemma Evaluate_cross_tenant:
  "cross_tenant i \<Longrightarrow> Evaluate e sel i =
     \<lparr>dec_Allow = False, dec_RuleMatched = RuleCrossTenantDeny,
      dec_Reason = ''resource belongs to a different tenant''\<rparr>"
  by (simp add: Evaluate_def cross_tenant_def)

lemma Evaluate_within_tenant:
  "\<not> cross_tenant i \<Longrightarrow> Evaluate e sel i =
     (if 0 < eng_evalTimeout e \<and> sel = CtxDone
      then \<lparr>dec_Allow = False, dec_RuleMatched = RuleEvalTimeout,
            dec_Reason = ''policy evaluation exceeded timeout''\<rparr>
      else evaluateRules e i)"
  by (auto simp: Evaluate_def cross_tenant_def split: select_case.splits)

lemma Evaluate_Allow_iff:
  "dec_Allow (Evaluate e sel i) \<longleftrightarrow>
     \<not> cross_tenant i \<and> \<not> (0 < eng_evalTimeout e \<and> sel = CtxDone) \<and>
     deny_overrides (mset (eng_rules e)) i"
  by (cases "cross_tenant i")
     (simp_all add: Evaluate_cross_tenant Evaluate_within_tenant evaluateRules_Allow)

lemma effects_distinct [simp]: "EffectAllow \<noteq> EffectDeny" "EffectDeny \<noteq> EffectAllow"
  by (simp_all add: effect_defs)

lemma Evaluate_Allow_reason: "dec_Allow (Evaluate e sel i) \<Longrightarrow> dec_Reason (Evaluate e sel i) = ''''"
  by (auto simp: Evaluate_def evaluateRules_def split: if_splits select_case.splits option.splits)

subsection \<open>The default rules\<close>

lemma action_distinct [simp]:
  "ActionRead \<noteq> ActionUpdate" "ActionRead \<noteq> ActionCancel" "ActionRead \<noteq> ActionCreate"
  "ActionCreate \<noteq> ActionUpdate" "ActionCreate \<noteq> ActionCancel" "ActionCreate \<noteq> ActionRead"
  "ActionUpdate \<noteq> ActionRead" "ActionUpdate \<noteq> ActionCreate" "ActionUpdate \<noteq> ActionCancel"
  "ActionCancel \<noteq> ActionRead" "ActionCancel \<noteq> ActionCreate" "ActionCancel \<noteq> ActionUpdate"
  "ActionDelete \<noteq> ActionRead" "ActionDelete \<noteq> ActionCreate" "ActionDelete \<noteq> ActionUpdate"
  "ActionDelete \<noteq> ActionCancel"
  by (simp_all add: action_defs)

lemma DefaultRules_allow_match:
  "some_match EffectAllow i (mset DefaultRules) \<longleftrightarrow> access_matrix i"
  by (auto simp: some_match_def DefaultRules_def access_matrix_def own_region_def own_supplier_def
      Let_def)

lemma DefaultRules_deny_match:
  "some_match EffectDeny i (mset DefaultRules) \<longleftrightarrow>
     res_Type (in_Resource i) = ''order'' \<and>
     (in_Action i = ActionUpdate \<or> in_Action i = ActionCancel) \<and>
     float_ge (res_ValueUSD (in_Resource i)) HighValueThresholdUSD \<and>
     id_Role (in_Actor i) \<noteq> RoleAdmin"
  by (simp add: some_match_def DefaultRules_def)

lemma DefaultRules_deny_redundant:
  "some_match EffectDeny i (mset DefaultRules) \<Longrightarrow> \<not> access_matrix i"
  by (auto simp: DefaultRules_deny_match access_matrix_def Let_def)

lemma DefaultRules_deny_overrides: "deny_overrides (mset DefaultRules) i \<longleftrightarrow> access_matrix i"
  using DefaultRules_deny_redundant by (auto simp: deny_overrides_def DefaultRules_allow_match)

lemma access_matrix_valid_role: "access_matrix i \<Longrightarrow> Valid (id_Role (in_Actor i))"
  by (auto simp: access_matrix_def Let_def Valid_def split: if_splits)

end
