(* ===== verification/Logger.thy ===== *)
theory Logger
  imports Go_Strings
begin

text \<open>
  The structured logger of \<open>shared/logger/logger.go\<close> over the part of \<open>log/slog\<close> it uses: a
  logger has a minimum level and the attributes attached with \<open>With\<close>; a record is written only
  when its level reaches the minimum. What is written is a list of log lines, one per sink.
\<close>

section \<open>The slog fragment\<close>

definition LevelDebug :: int where "LevelDebug = -4"
definition LevelInfo :: int where "LevelInfo = 0"
definition LevelWarn :: int where "LevelWarn = 4"
definition LevelError :: int where "LevelError = 8"

lemmas level_defs [go_simps] = LevelDebug_def LevelInfo_def LevelWarn_def LevelError_def

datatype attr = AStr string | ABool bool | AInt int | ATime int | ANil

datatype sink = Stdout | DefaultSink

record Logger =
  lg_Level :: int
  lg_Attrs :: "(string \<times> attr) list"
  lg_Sink :: sink

record log_line =
  ln_Sink :: sink
  ln_Level :: int
  ln_Msg :: string
  ln_Attrs :: "(string \<times> attr) list"

definition slog_With :: "Logger \<Rightarrow> (string \<times> attr) list \<Rightarrow> Logger" where
  "slog_With lg as = lg\<lparr>lg_Attrs := lg_Attrs lg @ as\<rparr>"

text \<open>\<open>slog.Default()\<close>: the process-wide logger, at level Info.\<close>

definition slog_Default :: Logger where
  "slog_Default = \<lparr>lg_Level = LevelInfo, lg_Attrs = [], lg_Sink = DefaultSink\<rparr>"

definition slog_Log ::
  "Logger \<Rightarrow> int \<Rightarrow> string \<Rightarrow> (string \<times> attr) list \<Rightarrow> log_line list \<Rightarrow> log_line list" where
  "slog_Log lg lvl msg as lines =
     (if lg_Level lg \<le> lvl
      then lines @ [\<lparr>ln_Sink = lg_Sink lg, ln_Level = lvl, ln_Msg = msg, ln_Attrs = lg_Attrs lg @ as\<rparr>]
      else lines)"

section \<open>logger.go\<close>

definition logger_New :: "int \<Rightarrow> Logger" where
  "logger_New level = \<lparr>lg_Level = level, lg_Attrs = [], lg_Sink = Stdout\<rparr>"

definition ParseLevel :: "string \<Rightarrow> int" where
  "ParseLevel s =
     (if s = ''debug'' \<or> s = ''DEBUG'' then LevelDebug
      else if s = ''warn'' \<or> s = ''WARN'' \<or> s = ''warning'' then LevelWarn
      else if s = ''error'' \<or> s = ''ERROR'' then LevelError
      else LevelInfo)"

section \<open>Lemmas\<close>

lemma slog_With_simps [simp]:
  "lg_Level (slog_With lg as) = lg_Level lg"
  "lg_Attrs (slog_With lg as) = lg_Attrs lg @ as"
  "lg_Sink (slog_With lg as) = lg_Sink lg"
  by (simp_all add: slog_With_def)

lemma slog_Log_prefix: "\<exists>new. slog_Log lg lvl msg as lines = lines @ new \<and> length new \<le> 1"
  by (simp add: slog_Log_def)

lemma slog_Log_dropped: "lvl < lg_Level lg \<Longrightarrow> slog_Log lg lvl msg as lines = lines"
  by (simp add: slog_Log_def)

lemma ParseLevel_range: "ParseLevel s \<in> {LevelDebug, LevelInfo, LevelWarn, LevelError}"
  by (simp add: ParseLevel_def)

end
