(* ===== verification/Gin_Context.thy ===== *)
theory Gin_Context
  imports Identity Logger
begin

text \<open>
  What a handler sees and does through \<open>*gin.Context\<close>, together with the request
  \<open>context.Context\<close> and the two packages that store values in it (\<open>identity.WithContext\<close>,
  \<open>identity.FromContext\<close>, \<open>identity.FromGin\<close>, \<open>logger.WithContext\<close>, \<open>logger.FromContext\<close>).

  The framework is not part of the repository. A context is represented by the data the
  handlers read (method, matched route, headers, query and path parameters, body) and by the
  effects they have on it (keys set, status, headers and payloads written, abort), and
  \<open>c.Next()\<close> is an argument: a middleware takes the rest of the chain as a parameter \<open>next\<close>
  and calls it or does not. The world a handler acts on besides its context is a type
  parameter; each component names the operations on it that it is given.
\<close>

section \<open>Request context\<close>

text \<open>
  Both packages key their value by a private integer type, so the keys differ by package
  although both are \<open>iota\<close>.
\<close>

datatype ctx_key = identity_ctxKey int | logger_ctxKey int

datatype ctx_val = CtxIdentity Identity | CtxLogger Logger

type_synonym Context = "(ctx_key \<times> ctx_val) list"

definition WithValue :: "Context \<Rightarrow> ctx_key \<Rightarrow> ctx_val \<Rightarrow> Context" where
  "WithValue ctx k v = (k, v) # ctx"

definition Value :: "Context \<Rightarrow> ctx_key \<Rightarrow> ctx_val option" where
  "Value ctx k = map_of ctx k"

definition identityKey :: ctx_key where "identityKey = identity_ctxKey 0"
definition loggerKey :: ctx_key where "loggerKey = logger_ctxKey 0"

definition identity_WithContext :: "Context \<Rightarrow> Identity \<Rightarrow> Context" where
  "identity_WithContext ctx i = WithValue ctx identityKey (CtxIdentity i)"

definition ErrNoIdentity :: string where "ErrNoIdentity = ''no identity in context''"

definition identity_FromContext :: "Context \<Rightarrow> string + Identity" where
  "identity_FromContext ctx =
     (case Value ctx identityKey of
        Some (CtxIdentity i) \<Rightarrow> Inr i
      | _ \<Rightarrow> Inl ErrNoIdentity)"

definition logger_WithContext :: "Context \<Rightarrow> Logger \<Rightarrow> Context" where
  "logger_WithContext ctx l = WithValue ctx loggerKey (CtxLogger l)"

definition logger_FromContext :: "Context \<Rightarrow> Logger" where
  "logger_FromContext ctx =
     (case Value ctx loggerKey of
        Some (CtxLogger l) \<Rightarrow> l
      | _ \<Rightarrow> slog_Default)"

section \<open>The gin context\<close>

record Request =
  req_Method :: string
  req_FullPath :: string
  req_Path :: string
  req_Headers :: "(string \<times> string) list"
  req_Query :: "(string \<times> string) list"
  req_Params :: "(string \<times> string) list"
  req_Body :: string

datatype json =
    JNull
  | JBool bool
  | JInt int
  | JString string
  | JTime int
  | JArray "json list"
  | JObject "(string \<times> json) list"

text \<open>A struct field tagged \<open>omitempty\<close>.\<close>

definition omitempty :: "string \<Rightarrow> string \<Rightarrow> (string \<times> json) list" where
  "omitempty k s = (if s = '''' then [] else [(k, JString s)])"

definition omitnil :: "string \<Rightarrow> int option \<Rightarrow> (string \<times> json) list" where
  "omitnil k t = (case t of None \<Rightarrow> [] | Some x \<Rightarrow> [(k, JTime x)])"

datatype payload = BodyJSON json | BodyData string string

datatype gin_val = GStr string | GBool bool | GIdentity Identity

record GinCtx =
  c_Request :: Request
  c_Context :: Context
  c_Keys :: "string \<rightharpoonup> gin_val"
  c_Status :: int
  c_Header :: "string \<rightharpoonup> string"
  c_Written :: "payload list"
  c_Aborted :: bool

type_synonym 'w handler = "GinCtx \<Rightarrow> 'w \<Rightarrow> GinCtx \<times> 'w"

type_synonym 'w emitter = "Logger \<Rightarrow> int \<Rightarrow> string \<Rightarrow> (string \<times> attr) list \<Rightarrow> 'w \<Rightarrow> 'w"

definition fresh_ctx :: "Request \<Rightarrow> GinCtx" where
  "fresh_ctx r = \<lparr>c_Request = r, c_Context = [], c_Keys = Map.empty, c_Status = 200,
     c_Header = Map.empty, c_Written = [], c_Aborted = False\<rparr>"

abbreviation FullPath :: "GinCtx \<Rightarrow> string" where
  "FullPath c \<equiv> req_FullPath (c_Request c)"

definition GetHeader :: "GinCtx \<Rightarrow> string \<Rightarrow> string" where
  "GetHeader c k = get_first (req_Headers (c_Request c)) k"

definition Query :: "GinCtx \<Rightarrow> string \<Rightarrow> string" where
  "Query c k = get_first (req_Query (c_Request c)) k"

definition Param :: "GinCtx \<Rightarrow> string \<Rightarrow> string" where
  "Param c k = get_first (req_Params (c_Request c)) k"

definition gin_Set :: "string \<Rightarrow> gin_val \<Rightarrow> GinCtx \<Rightarrow> GinCtx" where
  "gin_Set k v c = c\<lparr>c_Keys := (c_Keys c)(k \<mapsto> v)\<rparr>"

definition gin_Header :: "string \<Rightarrow> string \<Rightarrow> GinCtx \<Rightarrow> GinCtx" where
  "gin_Header k v c = c\<lparr>c_Header := (c_Header c)(k \<mapsto> v)\<rparr>"

definition gin_JSON :: "int \<Rightarrow> json \<Rightarrow> GinCtx \<Rightarrow> GinCtx" where
  "gin_JSON status j c = c\<lparr>c_Status := status, c_Written := c_Written c @ [BodyJSON j]\<rparr>"

definition gin_Data :: "int \<Rightarrow> string \<Rightarrow> string \<Rightarrow> GinCtx \<Rightarrow> GinCtx" where
  "gin_Data status ctype b c = c\<lparr>c_Status := status, c_Written := c_Written c @ [BodyData ctype b]\<rparr>"

definition gin_Status :: "int \<Rightarrow> GinCtx \<Rightarrow> GinCtx" where
  "gin_Status status c = c\<lparr>c_Status := status\<rparr>"

text \<open>
  The framework's documented answer when no route matched. Its text goes out after the chain of
  middlewares has run; none of them reads what was written.
\<close>

definition gin_NotFound :: "GinCtx \<Rightarrow> GinCtx" where
  "gin_NotFound c = gin_Data 404 ''text/plain'' ''404 page not found'' c"

definition gin_Abort :: "GinCtx \<Rightarrow> GinCtx" where
  "gin_Abort c = c\<lparr>c_Aborted := True\<rparr>"

definition AbortWithStatusJSON :: "int \<Rightarrow> json \<Rightarrow> GinCtx \<Rightarrow> GinCtx" where
  "AbortWithStatusJSON status j c = gin_JSON status j (gin_Abort c)"

text \<open>A value of another dynamic type fails the type assertion \<open>v.(string)\<close>, leaving the zero value.\<close>

definition get_string :: "GinCtx \<Rightarrow> string \<Rightarrow> string" where
  "get_string c k = (case c_Keys c k of Some (GStr s) \<Rightarrow> s | _ \<Rightarrow> '''')"

definition GinKey :: string where "GinKey = ''identity''"

definition FromGin :: "GinCtx \<Rightarrow> Identity option" where
  "FromGin c = (case c_Keys c GinKey of Some (GIdentity i) \<Rightarrow> Some i | _ \<Rightarrow> None)"

section \<open>Lemmas\<close>

lemma ctx_keys_distinct [simp]: "identityKey \<noteq> loggerKey" "loggerKey \<noteq> identityKey"
  by (simp_all add: identityKey_def loggerKey_def)

lemma identity_FromContext_With [simp]:
  "identity_FromContext (identity_WithContext ctx i) = Inr i"
  "identity_FromContext (logger_WithContext ctx l) = identity_FromContext ctx"
  by (simp_all add: identity_FromContext_def identity_WithContext_def logger_WithContext_def
      Value_def WithValue_def)

lemma logger_FromContext_With [simp]:
  "logger_FromContext (logger_WithContext ctx l) = l"
  "logger_FromContext (identity_WithContext ctx i) = logger_FromContext ctx"
  by (simp_all add: logger_FromContext_def identity_WithContext_def logger_WithContext_def
      Value_def WithValue_def)

text \<open>What each framework operation leaves alone: projections of an updated context.\<close>

lemma gin_Set_simps [simp]:
  "c_Request (gin_Set k v c) = c_Request c" "c_Context (gin_Set k v c) = c_Context c"
  "c_Keys (gin_Set k v c) = (c_Keys c)(k \<mapsto> v)" "c_Status (gin_Set k v c) = c_Status c"
  "c_Header (gin_Set k v c) = c_Header c" "c_Written (gin_Set k v c) = c_Written c"
  "c_Aborted (gin_Set k v c) = c_Aborted c"
  by (simp_all add: gin_Set_def)

lemma gin_Header_simps [simp]:
  "c_Request (gin_Header k v c) = c_Request c" "c_Context (gin_Header k v c) = c_Context c"
  "c_Keys (gin_Header k v c) = c_Keys c" "c_Status (gin_Header k v c) = c_Status c"
  "c_Header (gin_Header k v c) = (c_Header c)(k \<mapsto> v)" "c_Written (gin_Header k v c) = c_Written c"
  "c_Aborted (gin_Header k v c) = c_Aborted c"
  by (simp_all add: gin_Header_def)

lemma gin_JSON_simps [simp]:
  "c_Request (gin_JSON n j c) = c_Request c" "c_Context (gin_JSON n j c) = c_Context c"
  "c_Keys (gin_JSON n j c) = c_Keys c" "c_Status (gin_JSON n j c) = n"
  "c_Header (gin_JSON n j c) = c_Header c" "c_Written (gin_JSON n j c) = c_Written c @ [BodyJSON j]"
  "c_Aborted (gin_JSON n j c) = c_Aborted c"
  by (simp_all add: gin_JSON_def)

lemma gin_Data_simps [simp]:
  "c_Request (gin_Data n t b c) = c_Request c" "c_Context (gin_Data n t b c) = c_Context c"
  "c_Keys (gin_Data n t b c) = c_Keys c" "c_Status (gin_Data n t b c) = n"
  "c_Header (gin_Data n t b c) = c_Header c"
  "c_Written (gin_Data n t b c) = c_Written c @ [BodyData t b]"
  "c_Aborted (gin_Data n t b c) = c_Aborted c"
  by (simp_all add: gin_Data_def)

lemma gin_Status_simps [simp]:
  "c_Request (gin_Status n c) = c_Request c" "c_Keys (gin_Status n c) = c_Keys c"
  "c_Status (gin_Status n c) = n" "c_Written (gin_Status n c) = c_Written c"
  "c_Aborted (gin_Status n c) = c_Aborted c"
  by (simp_all add: gin_Status_def)

lemma gin_Abort_simps [simp]:
  "c_Request (gin_Abort c) = c_Request c" "c_Context (gin_Abort c) = c_Context c"
  "c_Keys (gin_Abort c) = c_Keys c" "c_Status (gin_Abort c) = c_Status c"
  "c_Header (gin_Abort c) = c_Header c" "c_Written (gin_Abort c) = c_Written c"
  "c_Aborted (gin_Abort c) = True"
  by (simp_all add: gin_Abort_def)

lemma FromGin_Set [simp]:
  "FromGin (gin_Set GinKey (GIdentity i) c) = Some i"
  "k \<noteq> GinKey \<Longrightarrow> FromGin (gin_Set k v c) = FromGin c"
  by (simp_all add: FromGin_def)

lemma FromGin_keys: "c_Keys c = c_Keys d \<Longrightarrow> FromGin c = FromGin d"
  by (simp add: FromGin_def)

lemma get_string_Set [simp]:
  "get_string (gin_Set k (GStr s) c) k = s"
  "k \<noteq> k' \<Longrightarrow> get_string (gin_Set k v c) k' = get_string c k'"
  by (simp_all add: get_string_def)

end
