(* ===== verification/Httpx.thy ===== *)
theory Httpx
  imports Gin_Context
begin

text \<open>
  The error envelope of \<open>shared/httpx/errors.go\<close>: \<open>Abort\<close> writes the canonical JSON error with
  the request id found in the context and stops the chain.
\<close>

record ErrorDetail =
  ed_Code :: string
  ed_Message :: string
  ed_RequestID :: string

definition ErrorBody :: "ErrorDetail \<Rightarrow> json" where
  "ErrorBody e = JObject [(''error'', JObject
     ([(''code'', JString (ed_Code e)), (''message'', JString (ed_Message e))]
      @ omitempty ''request_id'' (ed_RequestID e)))]"

definition CodeUnauthorized :: string where "CodeUnauthorized = ''unauthorized''"
definition CodeForbidden :: string where "CodeForbidden = ''forbidden''"
definition CodeRateLimited :: string where "CodeRateLimited = ''rate_limited''"
definition CodeConflict :: string where "CodeConflict = ''conflict''"
definition CodeBadRequest :: string where "CodeBadRequest = ''bad_request''"
definition CodeInternal :: string where "CodeInternal = ''internal_error''"
definition CodeUnavailable :: string where "CodeUnavailable = ''service_unavailable''"
definition CodeIdempotency :: string where "CodeIdempotency = ''idempotency_key_required''"

lemmas code_defs [go_simps] =
  CodeUnauthorized_def CodeForbidden_def CodeRateLimited_def CodeConflict_def CodeBadRequest_def
  CodeInternal_def CodeUnavailable_def CodeIdempotency_def

definition RequestIDKey :: string where "RequestIDKey = ''request_id''"

definition Abort :: "int \<Rightarrow> string \<Rightarrow> string \<Rightarrow> GinCtx \<Rightarrow> GinCtx" where
  "Abort status code message c =
     AbortWithStatusJSON status
       (ErrorBody \<lparr>ed_Code = code, ed_Message = message, ed_RequestID = get_string c RequestIDKey\<rparr>) c"

definition Unauthorized :: "string \<Rightarrow> GinCtx \<Rightarrow> GinCtx" where
  "Unauthorized msg c = Abort 401 CodeUnauthorized msg c"

definition Forbidden :: "string \<Rightarrow> GinCtx \<Rightarrow> GinCtx" where
  "Forbidden msg c = Abort 403 CodeForbidden msg c"

definition BadRequest :: "string \<Rightarrow> GinCtx \<Rightarrow> GinCtx" where
  "BadRequest msg c = Abort 400 CodeBadRequest msg c"

definition Internal :: "string \<Rightarrow> GinCtx \<Rightarrow> GinCtx" where
  "Internal msg c = Abort 500 CodeInternal msg c"

text \<open>Reading an envelope back: the machine code and message of an error response.\<close>

fun error_of :: "payload \<Rightarrow> (string \<times> string) option" where
  "error_of (BodyJSON (JObject [(_, JObject ((_, JString code) # (_, JString msg) # _))])) =
     Some (code, msg)"
| "error_of _ = None"

lemma Abort_simps [simp]:
  "c_Request (Abort n code msg c) = c_Request c"
  "c_Context (Abort n code msg c) = c_Context c"
  "c_Keys (Abort n code msg c) = c_Keys c"
  "c_Status (Abort n code msg c) = n"
  "c_Header (Abort n code msg c) = c_Header c"
  "c_Aborted (Abort n code msg c) = True"
  by (simp_all add: Abort_def AbortWithStatusJSON_def)

lemma Abort_written:
  "c_Written (Abort n code msg c) = c_Written c @
     [BodyJSON (ErrorBody \<lparr>ed_Code = code, ed_Message = msg, ed_RequestID = get_string c RequestIDKey\<rparr>)]"
  by (simp add: Abort_def AbortWithStatusJSON_def)

lemma error_of_ErrorBody [simp]:
  "error_of (BodyJSON (ErrorBody e)) = Some (ed_Code e, ed_Message e)"
  by (simp add: ErrorBody_def)

lemmas abort_defs = Unauthorized_def Forbidden_def BadRequest_def Internal_def

lemma abort_shorthands [simp]:
  "c_Status (Unauthorized m c) = 401" "c_Status (Forbidden m c) = 403"
  "c_Status (BadRequest m c) = 400" "c_Status (Internal m c) = 500"
  "c_Aborted (Unauthorized m c)" "c_Aborted (Forbidden m c)"
  "c_Aborted (BadRequest m c)" "c_Aborted (Internal m c)"
  "c_Keys (Unauthorized m c) = c_Keys c" "c_Keys (Forbidden m c) = c_Keys c"
  "c_Keys (BadRequest m c) = c_Keys c" "c_Keys (Internal m c) = c_Keys c"
  by (simp_all add: abort_defs)

end
