(* ===== verification/Audit_Trail.thy ===== *)
theory Audit_Trail
  imports Logger
begin

text \<open>
  The audit contract of \<open>internal/audit/audit.go\<close> and its log-based implementation. The
  interface \<open>Auditor\<close> is the locale \<open>auditor\<close>: writing a record appends it to the trail. The
  \<open>LogAuditor\<close> keeps its trail in the lines of a structured log, so the trail is read back from
  them; the contract holds exactly when its logger lets Info records through.
\<close>

section \<open>Definitions\<close>

definition DecisionAllow :: string where "DecisionAllow = ''allow''"
definition DecisionDeny :: string where "DecisionDeny = ''deny''"

text \<open>A zero \<open>time.Time\<close> is \<open>None\<close>; other times are nanoseconds.\<close>

record AuditRecord =
  au_TenantID :: string
  au_ActorID :: string
  au_ActorRole :: string
  au_Action :: string
  au_ResourceType :: string
  au_ResourceID :: string
  au_PolicyDecision :: string
  au_PolicyRuleMatched :: string
  au_RequestID :: string
  au_Timestamp :: "int option"

record LogAuditor =
  la_log :: Logger

definition NewLogAuditor :: "Logger \<Rightarrow> LogAuditor" where
  "NewLogAuditor lg = \<lparr>la_log = lg\<rparr>"

text \<open>The record that is persisted: a missing timestamp is the time of the write.\<close>

definition stamp :: "int \<Rightarrow> AuditRecord \<Rightarrow> AuditRecord" where
  "stamp now r = (if au_Timestamp r = None then r\<lparr>au_Timestamp := Some now\<rparr> else r)"

definition audit_attrs :: "AuditRecord \<Rightarrow> (string \<times> attr) list" where
  "audit_attrs r =
     [(''audit'', ABool True),
      (''tenant_id'', AStr (au_TenantID r)),
      (''actor_id'', AStr (au_ActorID r)),
      (''actor_role'', AStr (au_ActorRole r)),
      (''action'', AStr (au_Action r)),
      (''resource_type'', AStr (au_ResourceType r)),
      (''resource_id'', AStr (au_ResourceID r)),
      (''policy_decision'', AStr (au_PolicyDecision r)),
      (''policy_rule_matched'', AStr (au_PolicyRuleMatched r)),
      (''request_id'', AStr (au_RequestID r)),
      (''timestamp'', case au_Timestamp r of None \<Rightarrow> ANil | Some t \<Rightarrow> ATime t)]"

definition LogAuditor_Write ::
  "LogAuditor \<Rightarrow> int \<Rightarrow> AuditRecord \<Rightarrow> log_line list \<Rightarrow> string option \<times> log_line list" where
  "LogAuditor_Write a now r lines =
     (None, slog_Log (la_log a) LevelInfo ''audit'' (audit_attrs (stamp now r)) lines)"

text \<open>Reading the trail back from the log: the last eleven attributes of an audit line.\<close>

definition str_attr :: "(string \<times> attr) list \<Rightarrow> string \<Rightarrow> string" where
  "str_attr as k = (case map_of as k of Some (AStr s) \<Rightarrow> s | _ \<Rightarrow> '''')"

definition record_of_attrs :: "(string \<times> attr) list \<Rightarrow> AuditRecord" where
  "record_of_attrs as =
     \<lparr>au_TenantID = str_attr as ''tenant_id'',
      au_ActorID = str_attr as ''actor_id'',
      au_ActorRole = str_attr as ''actor_role'',
      au_Action = str_attr as ''action'',
      au_ResourceType = str_attr as ''resource_type'',
      au_ResourceID = str_attr as ''resource_id'',
      au_PolicyDecision = str_attr as ''policy_decision'',
      au_PolicyRuleMatched = str_attr as ''policy_rule_matched'',
      au_RequestID = str_attr as ''request_id'',
      au_Timestamp = (case map_of as ''timestamp'' of Some (ATime t) \<Rightarrow> Some t | _ \<Rightarrow> None)\<rparr>"

definition record_of_line :: "log_line \<Rightarrow> AuditRecord option" where
  "record_of_line l =
     (if ln_Msg l = ''audit'' then Some (record_of_attrs (drop (length (ln_Attrs l) - 11) (ln_Attrs l)))
      else None)"

definition audit_trail :: "log_line list \<Rightarrow> AuditRecord list" where
  "audit_trail lines = List.map_filter record_of_line lines"

definition audit_enabled :: "LogAuditor \<Rightarrow> bool" where
  "audit_enabled a \<longleftrightarrow> lg_Level (la_log a) \<le> LevelInfo"

section \<open>The interface\<close>

locale auditor =
  fixes Write :: "'a \<Rightarrow> int \<Rightarrow> AuditRecord \<Rightarrow> 'w \<Rightarrow> string option \<times> 'w"
    and enabled :: "'a \<Rightarrow> bool"
    and trail :: "'w \<Rightarrow> AuditRecord list"
  assumes Write_ok: "enabled a \<Longrightarrow> fst (Write a now r w) = None"
    and Write_trail: "enabled a \<Longrightarrow> trail (snd (Write a now r w)) = trail w @ [stamp now r]"
begin

lemma Write_length: "enabled a \<Longrightarrow> length (trail (snd (Write a now r w))) = Suc (length (trail w))"
  by (simp add: Write_trail)

text \<open>A sequence of writes leaves exactly those records, in order, after what was there.\<close>

lemma Write_all:
  "enabled a \<Longrightarrow>
   trail (fold (\<lambda>(now, r) w. snd (Write a now r w)) rs w) = trail w @ map (\<lambda>(now, r). stamp now r) rs"
  by (induction rs arbitrary: w) (auto simp: Write_trail)

end

section \<open>The log auditor provides it\<close>

lemma record_of_attrs_audit [simp]: "record_of_attrs (audit_attrs r) = r"
  by (cases r) (simp add: record_of_attrs_def str_attr_def audit_attrs_def split: option.splits)

lemma length_audit_attrs [simp]: "length (audit_attrs r) = 11"
  by (simp add: audit_attrs_def)

lemma record_of_line_audit:
  "record_of_line \<lparr>ln_Sink = s, ln_Level = l, ln_Msg = ''audit'', ln_Attrs = as @ audit_attrs r\<rparr> = Some r"
  by (simp add: record_of_line_def)

lemma audit_trail_append: "audit_trail (xs @ ys) = audit_trail xs @ audit_trail ys"
  by (simp add: audit_trail_def map_filter_def)

lemma audit_trail_Nil [simp]: "audit_trail [] = []"
  by (simp add: audit_trail_def map_filter_def)

lemma LogAuditor_Write_trail:
  "audit_trail (snd (LogAuditor_Write a now r lines)) =
     audit_trail lines @ (if audit_enabled a then [stamp now r] else [])"
  by (simp add: LogAuditor_Write_def slog_Log_def audit_enabled_def audit_trail_append
      record_of_line_audit audit_trail_def map_filter_def)

text \<open>Lines with another message leave the trail alone.\<close>

lemma audit_trail_other_line:
  "msg \<noteq> ''audit'' \<Longrightarrow> audit_trail (slog_Log lg lvl msg as lines) = audit_trail lines"
  by (simp add: slog_Log_def audit_trail_append)
     (simp add: audit_trail_def map_filter_def record_of_line_def)

interpretation log_auditor: auditor LogAuditor_Write audit_enabled audit_trail
  by unfold_locales (simp_all add: LogAuditor_Write_trail, simp add: LogAuditor_Write_def)

end
