(* ===== verification/Policy_Enforce.thy ===== *)
theory Policy_Enforce
  imports Policy Httpx Audit_Trail
begin

text \<open>
  The enforcement middleware of \<open>internal/policy/middleware.go\<close>. The auditor is the operation
  the middleware is given (the interface \<open>audit.Auditor\<close>), the rest of the chain is \<open>next\<close>.
  That a request does not reach its handler is stated as independence of the result from
  \<open>next\<close>; that it does, as an equation with \<open>next\<close> on the right.
\<close>

section \<open>Definitions\<close>

definition CtxDecisionKey :: string where "CtxDecisionKey = ''policy_decision''"
definition CtxRuleKey :: string where "CtxRuleKey = ''policy_rule''"

type_synonym ResourceExtractor = "GinCtx \<Rightarrow> Identity \<Rightarrow> Resource"

text \<open>The resource of the request: the extractor's, with the type and the tenant filled in.\<close>

definition enforce_resource ::
  "string \<Rightarrow> ResourceExtractor option \<Rightarrow> GinCtx \<Rightarrow> Identity \<Rightarrow> Resource" where
  "enforce_resource resourceType extract c actor =
     (case extract of
        None \<Rightarrow> zero_Resource\<lparr>res_Type := resourceType, res_TenantID := id_TenantID actor\<rparr>
      | Some f \<Rightarrow>
          (let resource = (f c actor)\<lparr>res_Type := resourceType\<rparr> in
           if res_TenantID resource = '''' then resource\<lparr>res_TenantID := id_TenantID actor\<rparr>
           else resource))"

definition enforce_input ::
  "Action \<Rightarrow> string \<Rightarrow> ResourceExtractor option \<Rightarrow> GinCtx \<Rightarrow> Identity \<Rightarrow> Input" where
  "enforce_input action resourceType extract c actor =
     \<lparr>in_Actor = actor, in_Action = action,
      in_Resource = enforce_resource resourceType extract c actor\<rparr>"

definition decision_string :: "Decision \<Rightarrow> string" where
  "decision_string d = (if \<not> dec_Allow d then DecisionDeny else DecisionAllow)"

definition enforce_record ::
  "Action \<Rightarrow> string \<Rightarrow> Resource \<Rightarrow> Decision \<Rightarrow> GinCtx \<Rightarrow> Identity \<Rightarrow> AuditRecord" where
  "enforce_record action resourceType resource decision c actor =
     \<lparr>au_TenantID = id_TenantID actor,
      au_ActorID = id_UserID actor,
      au_ActorRole = id_Role actor,
      au_Action = action,
      au_ResourceType = resourceType,
      au_ResourceID = res_ID resource,
      au_PolicyDecision = decision_string decision,
      au_PolicyRuleMatched = dec_RuleMatched decision,
      au_RequestID = get_string c RequestIDKey,
      au_Timestamp = None\<rparr>"

text \<open>The decision made visible to the request logger.\<close>

definition expose_decision :: "Decision \<Rightarrow> GinCtx \<Rightarrow> GinCtx" where
  "expose_decision d c =
     gin_Set CtxRuleKey (GStr (dec_RuleMatched d))
       (gin_Set CtxDecisionKey (GStr (decision_string d)) c)"

definition Enforce ::
  "Engine \<Rightarrow> (AuditRecord \<Rightarrow> 'w \<Rightarrow> string option \<times> 'w) \<Rightarrow> Action \<Rightarrow> string \<Rightarrow>
   ResourceExtractor option \<Rightarrow> select_case \<Rightarrow> 'w handler \<Rightarrow> 'w handler" where
  "Enforce engine auditor_Write action resourceType extract sel next c w =
     (case FromGin c of
        None \<Rightarrow> (Unauthorized ''authentication required'' c, w)
      | Some actor \<Rightarrow>
          (let input = enforce_input action resourceType extract c actor;
               decision = Evaluate engine sel input;
               w' = snd (auditor_Write
                      (enforce_record action resourceType (in_Resource input) decision c actor) w);
               c' = expose_decision decision c
           in if \<not> dec_Allow decision
              then (Abort 403 CodeForbidden (''denied by policy: '' @ dec_Reason decision) c', w')
              else next c' w'))"

section \<open>Lemmas\<close>

lemma enforce_input_simps [simp]:
  "in_Actor (enforce_input a t x c i) = i"
  "in_Action (enforce_input a t x c i) = a"
  "in_Resource (enforce_input a t x c i) = enforce_resource t x c i"
  by (simp_all add: enforce_input_def)

lemma res_Type_enforce [simp]: "res_Type (enforce_resource t x c i) = t"
  by (simp add: enforce_resource_def Let_def split: option.splits)

lemma cross_tenant_enforce:
  "cross_tenant (enforce_input a t x c i) \<longleftrightarrow>
     (\<exists>f. x = Some f \<and> res_TenantID (f c i) \<noteq> '''' \<and> res_TenantID (f c i) \<noteq> id_TenantID i)"
  by (auto simp: cross_tenant_def enforce_resource_def Let_def split: option.splits)

lemma policy_keys_distinct [simp]:
  "CtxDecisionKey \<noteq> GinKey" "CtxRuleKey \<noteq> GinKey" "CtxRuleKey \<noteq> CtxDecisionKey"
  "CtxDecisionKey \<noteq> CtxRuleKey" "CtxDecisionKey \<noteq> RequestIDKey" "CtxRuleKey \<noteq> RequestIDKey"
  by (simp_all add: CtxDecisionKey_def CtxRuleKey_def GinKey_def RequestIDKey_def)

lemma expose_decision_simps [simp]:
  "FromGin (expose_decision d c) = FromGin c"
  "c_Request (expose_decision d c) = c_Request c"
  "c_Context (expose_decision d c) = c_Context c"
  "c_Status (expose_decision d c) = c_Status c"
  "c_Header (expose_decision d c) = c_Header c"
  "c_Written (expose_decision d c) = c_Written c"
  "get_string (expose_decision d c) RequestIDKey = get_string c RequestIDKey"
  "get_string (expose_decision d c) CtxDecisionKey = decision_string d"
  "get_string (expose_decision d c) CtxRuleKey = dec_RuleMatched d"
  by (simp_all add: expose_decision_def)

lemma Enforce_unauthenticated:
  "FromGin c = None \<Longrightarrow> Enforce e write a t x sel next c w = (Unauthorized ''authentication required'' c, w)"
  by (simp add: Enforce_def)

lemma Enforce_denied:
  assumes "FromGin c = Some i" and "d = Evaluate e sel (enforce_input a t x c i)" and "\<not> dec_Allow d"
  shows "Enforce e write a t x sel next c w =
    (Abort 403 CodeForbidden (''denied by policy: '' @ dec_Reason d) (expose_decision d c),
     snd (write (enforce_record a t (enforce_resource t x c i) d c i) w))"
  using assms by (simp add: Enforce_def Let_def)

lemma Enforce_allowed:
  assumes "FromGin c = Some i" and "d = Evaluate e sel (enforce_input a t x c i)" and "dec_Allow d"
  shows "Enforce e write a t x sel next c w =
    next (expose_decision d c) (snd (write (enforce_record a t (enforce_resource t x c i) d c i) w))"
  using assms by (simp add: Enforce_def Let_def)

lemmas Enforce_cases = Enforce_unauthenticated Enforce_denied Enforce_allowed

text \<open>
  With any auditor that keeps the contract, an authenticated request leaves exactly one new
  record, for the decision that was taken, before the handler runs or the refusal is written.
\<close>

context auditor
begin

lemma Enforce_audited:
  assumes en: "enabled a" and id: "FromGin c = Some i"
    and d: "d = Evaluate e sel (enforce_input act t x c i)"
  obtains w' where
    "trail w' = trail w @ [stamp now (enforce_record act t (enforce_resource t x c i) d c i)]"
    "Enforce e (Write a now) act t x sel next c w =
       (if dec_Allow d then next (expose_decision d c) w'
        else (Abort 403 CodeForbidden (''denied by policy: '' @ dec_Reason d) (expose_decision d c), w'))"
proof
  let ?r = "enforce_record act t (enforce_resource t x c i) d c i"
  show "trail (snd (Write a now ?r w)) = trail w @ [stamp now ?r]"
    by (rule Write_trail [OF en])
  show "Enforce e (Write a now) act t x sel next c w =
       (if dec_Allow d then next (expose_decision d c) (snd (Write a now ?r w))
        else (Abort 403 CodeForbidden (''denied by policy: '' @ dec_Reason d) (expose_decision d c),
              snd (Write a now ?r w)))"
    using id d by (simp add: Enforce_allowed Enforce_denied)
qed

end

end
