(* ===== verification/Redis_Storage.thy ===== *)
theory Redis_Storage
  imports Go_Strings
begin

text \<open>
  The tenant-scoped Redis wrapper of \<open>shared/storage/redis.go\<close>. The client library and the
  server are not part of the repository: the commands the sources issue, directly or in the
  rate limiter's script, are the fields of a record over an abstract server state, and the
  predicates at the end state what the sources rely on of them.
\<close>

section \<open>The client\<close>

datatype redis_reply = RNil | RErr string | RVal string

record 'r RedisClient =
  rc_Ping :: "'r \<Rightarrow> string option"
  rc_Get :: "string \<Rightarrow> 'r \<Rightarrow> redis_reply"
  rc_SetNX :: "string \<Rightarrow> string \<Rightarrow> int \<Rightarrow> 'r \<Rightarrow> (string + bool) \<times> 'r"
  rc_Set :: "string \<Rightarrow> string \<Rightarrow> int \<Rightarrow> 'r \<Rightarrow> string option \<times> 'r"
  rc_Eval :: "('r \<Rightarrow> int \<times> 'r) \<Rightarrow> 'r \<Rightarrow> (string + int) \<times> 'r"
  rc_ZREMRANGEBYSCORE :: "string \<Rightarrow> int \<Rightarrow> int \<Rightarrow> 'r \<Rightarrow> 'r"
  rc_ZCARD :: "string \<Rightarrow> 'r \<Rightarrow> int"
  rc_ZADD :: "string \<Rightarrow> int \<Rightarrow> string \<Rightarrow> 'r \<Rightarrow> 'r"
  rc_PEXPIRE :: "string \<Rightarrow> int \<Rightarrow> 'r \<Rightarrow> 'r"
  rc_ZRANGE :: "string \<Rightarrow> 'r \<Rightarrow> (string \<times> int) list"

section \<open>redis.go\<close>

record RedisOptions =
  ro_Addr :: string
  ro_Password :: string
  ro_DialTimeout :: int
  ro_ReadTimeout :: int
  ro_WriteTimeout :: int
  ro_MaxRetries :: int

definition NewRedis :: "string \<Rightarrow> string \<Rightarrow> string + RedisOptions" where
  "NewRedis addr password =
     Inr \<lparr>ro_Addr = addr, ro_Password = password, ro_DialTimeout = 1 * Second,
          ro_ReadTimeout = 500 * Millisecond, ro_WriteTimeout = 500 * Millisecond,
          ro_MaxRetries = -1\<rparr>"

datatype cache_error = ErrCacheMiss | CacheErr string

definition Redis_Ping :: "'r RedisClient \<Rightarrow> 'r \<Rightarrow> string option" where
  "Redis_Ping C r = rc_Ping C r"

definition Key :: "string \<Rightarrow> string \<Rightarrow> string" where
  "Key tenantID suffix = ''tenant:'' @ tenantID @ '':'' @ suffix"

definition Redis_Get :: "'r RedisClient \<Rightarrow> string \<Rightarrow> string \<Rightarrow> 'r \<Rightarrow> cache_error + string" where
  "Redis_Get C tenantID suffix r =
     (case rc_Get C (Key tenantID suffix) r of
        RNil \<Rightarrow> Inl ErrCacheMiss
      | RErr e \<Rightarrow> Inl (CacheErr e)
      | RVal v \<Rightarrow> Inr v)"

definition Redis_SetNX ::
  "'r RedisClient \<Rightarrow> string \<Rightarrow> string \<Rightarrow> string \<Rightarrow> int \<Rightarrow> 'r \<Rightarrow> (string + bool) \<times> 'r" where
  "Redis_SetNX C tenantID suffix value ttl r = rc_SetNX C (Key tenantID suffix) value ttl r"

definition Redis_Set ::
  "'r RedisClient \<Rightarrow> string \<Rightarrow> string \<Rightarrow> string \<Rightarrow> int \<Rightarrow> 'r \<Rightarrow> string option \<times> 'r" where
  "Redis_Set C tenantID suffix value ttl r = rc_Set C (Key tenantID suffix) value ttl r"

definition Redis_Eval :: "'r RedisClient \<Rightarrow> ('r \<Rightarrow> int \<times> 'r) \<Rightarrow> 'r \<Rightarrow> (string + int) \<times> 'r" where
  "Redis_Eval C script r = rc_Eval C script r"

section \<open>What the sources rely on\<close>

text \<open>A script runs atomically: with a reply it ran; without one it ran or did not.\<close>

definition redis_atomic_eval :: "'r RedisClient \<Rightarrow> bool" where
  "redis_atomic_eval C \<longleftrightarrow>
     (\<forall>script r v r'. rc_Eval C script r = (Inr v, r') \<longrightarrow> script r = (v, r')) \<and>
     (\<forall>script r m r'. rc_Eval C script r = (Inl m, r') \<longrightarrow> r' = r \<or> r' = snd (script r))"

text \<open>
  Sorted sets: \<open>ZREMRANGEBYSCORE\<close> removes the scores of a closed interval, \<open>ZCARD\<close> counts,
  \<open>ZADD\<close> adds a member that is not there yet, a positive \<open>PEXPIRE\<close> leaves the contents, and
  each command touches its own key only. \<open>ZRANGE\<close> reads a set with its scores.
\<close>

definition redis_sorted_sets :: "'r RedisClient \<Rightarrow> bool" where
  "redis_sorted_sets C \<longleftrightarrow>
     (\<forall>k lo hi r. mset (rc_ZRANGE C k (rc_ZREMRANGEBYSCORE C k lo hi r)) =
        filter_mset (\<lambda>(m, s). \<not> (lo \<le> s \<and> s \<le> hi)) (mset (rc_ZRANGE C k r))) \<and>
     (\<forall>k r. rc_ZCARD C k r = int (length (rc_ZRANGE C k r))) \<and>
     (\<forall>k s m r. m \<notin> fst ` set (rc_ZRANGE C k r) \<longrightarrow>
        mset (rc_ZRANGE C k (rc_ZADD C k s m r)) = add_mset (m, s) (mset (rc_ZRANGE C k r))) \<and>
     (\<forall>k ms r. 0 < ms \<longrightarrow> mset (rc_ZRANGE C k (rc_PEXPIRE C k ms r)) = mset (rc_ZRANGE C k r)) \<and>
     (\<forall>k k' lo hi r. k' \<noteq> k \<longrightarrow> rc_ZRANGE C k' (rc_ZREMRANGEBYSCORE C k lo hi r) = rc_ZRANGE C k' r) \<and>
     (\<forall>k k' s m r. k' \<noteq> k \<longrightarrow> rc_ZRANGE C k' (rc_ZADD C k s m r) = rc_ZRANGE C k' r) \<and>
     (\<forall>k k' ms r. k' \<noteq> k \<longrightarrow> rc_ZRANGE C k' (rc_PEXPIRE C k ms r) = rc_ZRANGE C k' r)"

text \<open>A value that was set is read back, until the connection fails.\<close>

definition redis_reads_back :: "'r RedisClient \<Rightarrow> bool" where
  "redis_reads_back C \<longleftrightarrow>
     (\<forall>k v ttl r r'. rc_Set C k v ttl r = (None, r') \<longrightarrow> 0 < ttl \<longrightarrow>
        rc_Get C k r' = RVal v \<or> (\<exists>e. rc_Get C k r' = RErr e)) \<and>
     (\<forall>k k' v ttl r e r'. rc_Set C k v ttl r = (e, r') \<longrightarrow> k' \<noteq> k \<longrightarrow>
        rc_Get C k' r' = rc_Get C k' r \<or> (\<exists>e. rc_Get C k' r' = RErr e))"

text \<open>
  Expiry. The server as time passes by so many milliseconds, the string a key holds, and the time
  it has left to live (\<open>PTTL\<close>, nothing for a key that does not expire).
\<close>

record 'r RedisTime =
  rt_elapse :: "int \<Rightarrow> 'r \<Rightarrow> 'r"
  rt_value :: "string \<Rightarrow> 'r \<Rightarrow> string option"
  rt_PTTL :: "string \<Rightarrow> 'r \<Rightarrow> int option"

text \<open>What is known of a key by its string and its time to live.\<close>

definition rt_entry :: "'r RedisTime \<Rightarrow> string \<Rightarrow> 'r \<Rightarrow> string option \<times> int option" where
  "rt_entry R k r = (rt_value R k r, rt_PTTL R k r)"

text \<open>
  \<open>GET\<close> reads the string or fails, \<open>SET\<close> with a time to live sets both, a command leaves every
  other key alone, and a key lives as long as its time to live, no longer.
\<close>

definition redis_expires :: "'r RedisClient \<Rightarrow> 'r RedisTime \<Rightarrow> bool" where
  "redis_expires C R \<longleftrightarrow>
     (\<forall>k r. rc_Get C k r = (case rt_value R k r of None \<Rightarrow> RNil | Some v \<Rightarrow> RVal v) \<or>
        (\<exists>e. rc_Get C k r = RErr e)) \<and>
     (\<forall>k v ttl r r'. rc_Set C k v ttl r = (None, r') \<longrightarrow> 0 < Milliseconds ttl \<longrightarrow>
        rt_entry R k r' = (Some v, Some (Milliseconds ttl))) \<and>
     (\<forall>k k' v ttl r. k' \<noteq> k \<longrightarrow> rt_entry R k' (snd (rc_Set C k v ttl r)) = rt_entry R k' r) \<and>
     (\<forall>k k' lo hi r. k' \<noteq> k \<longrightarrow> rt_entry R k' (rc_ZREMRANGEBYSCORE C k lo hi r) = rt_entry R k' r) \<and>
     (\<forall>k k' s m r. k' \<noteq> k \<longrightarrow> rt_entry R k' (rc_ZADD C k s m r) = rt_entry R k' r) \<and>
     (\<forall>k k' ms r. k' \<noteq> k \<longrightarrow> rt_entry R k' (rc_PEXPIRE C k ms r) = rt_entry R k' r) \<and>
     (\<forall>k d n r. 0 \<le> d \<longrightarrow> rt_PTTL R k r = Some n \<longrightarrow>
        rt_entry R k (rt_elapse R d r) = (if d < n then (rt_value R k r, Some (n - d)) else (None, None)))"

text \<open>
  The same for sorted sets: \<open>PEXPIRE\<close> sets the time to live of a set that is there, removing members
  leaves it unless the set vanishes, and when it has passed the set is gone.
\<close>

definition rt_left :: "int \<Rightarrow> int option \<Rightarrow> int option" where
  "rt_left d ttl = (case ttl of None \<Rightarrow> None | Some n \<Rightarrow> if d < n then Some (n - d) else None)"

definition rt_gone :: "int \<Rightarrow> int option \<Rightarrow> bool" where
  "rt_gone d ttl = (case ttl of None \<Rightarrow> False | Some n \<Rightarrow> n \<le> d)"

definition redis_sets_expire :: "'r RedisClient \<Rightarrow> 'r RedisTime \<Rightarrow> bool" where
  "redis_sets_expire C R \<longleftrightarrow>
     (\<forall>k ms r. 0 < ms \<longrightarrow> rc_ZRANGE C k r \<noteq> [] \<longrightarrow> rt_PTTL R k (rc_PEXPIRE C k ms r) = Some ms) \<and>
     (\<forall>k lo hi r. rc_ZRANGE C k (rc_ZREMRANGEBYSCORE C k lo hi r) \<noteq> [] \<longrightarrow>
        rt_PTTL R k (rc_ZREMRANGEBYSCORE C k lo hi r) = rt_PTTL R k r) \<and>
     (\<forall>k k' lo hi r. k' \<noteq> k \<longrightarrow> rt_PTTL R k' (rc_ZREMRANGEBYSCORE C k lo hi r) = rt_PTTL R k' r) \<and>
     (\<forall>k k' s m r. k' \<noteq> k \<longrightarrow> rt_PTTL R k' (rc_ZADD C k s m r) = rt_PTTL R k' r) \<and>
     (\<forall>k k' ms r. k' \<noteq> k \<longrightarrow> rt_PTTL R k' (rc_PEXPIRE C k ms r) = rt_PTTL R k' r) \<and>
     (\<forall>k d r. 0 \<le> d \<longrightarrow>
        rc_ZRANGE C k (rt_elapse R d r) = (if rt_gone d (rt_PTTL R k r) then [] else rc_ZRANGE C k r) \<and>
        rt_PTTL R k (rt_elapse R d r) = rt_left d (rt_PTTL R k r))"

section \<open>Lemmas\<close>

lemma colon_split_unique:
  "(t :: string) @ c # s = t' @ c # s' \<Longrightarrow> c \<notin> set t \<Longrightarrow> c \<notin> set t' \<Longrightarrow> t = t' \<and> s = s'"
proof (induction t arbitrary: t')
  case Nil
  then show ?case by (cases t') auto
next
  case (Cons a t)
  then show ?case by (cases t') auto
qed

text \<open>Splitting at the last separator instead.\<close>

lemma last_split_unique:
  assumes "(t :: string) @ c # s = t' @ c # s'" and "c \<notin> set s" and "c \<notin> set s'"
  shows "t = t' \<and> s = s'"
proof -
  have "rev s @ c # rev t = rev s' @ c # rev t'"
    using arg_cong [OF assms(1), of rev] by simp
  with assms(2,3) have "rev s = rev s' \<and> rev t = rev t'"
    by (intro colon_split_unique) auto
  then show ?thesis by simp
qed

lemma Key_inj_suffix [simp]: "Key t s = Key t s' \<longleftrightarrow> s = s'"
  by (simp add: Key_def)

lemma Key_inj:
  assumes "CHR '':'' \<notin> set t" and "CHR '':'' \<notin> set t'"
  shows "Key t s = Key t' s' \<longleftrightarrow> t = t' \<and> s = s'"
  using assms colon_split_unique [of t "CHR '':''" s t' s'] by (auto simp: Key_def)

end
