(* ===== verification/Rate_Limit.thy ===== *)
theory Rate_Limit
  imports Redis_Storage Httpx
begin

text \<open>
  Rate limiting of \<open>internal/gateway/middleware/ratelimit.go\<close>: the middleware, the Redis
  sliding-window limiter with its Lua script, and the in-memory fallback. Both limiters
  implement the interface \<open>Limiter\<close>, the locale \<open>limiter\<close>: admit a request exactly when fewer
  than the limit were admitted in the window that ends now. The bound on admissions in every
  window is proved once, in the locale.
\<close>

section \<open>Definitions\<close>

subsection \<open>The in-memory limiter\<close>

record MemoryLimiter =
  ml_windows :: "string \<rightharpoonup> int list"

definition NewMemoryLimiter :: MemoryLimiter where
  "NewMemoryLimiter = \<lparr>ml_windows = Map.empty\<rparr>"

text \<open>
  The loop \<open>for _, ts := range stamps\<close> that appends to \<open>kept := stamps[:0]\<close>: it reads and
  writes the same array, the read index ahead of the write index.
\<close>

function compact :: "int \<Rightarrow> nat \<Rightarrow> nat \<Rightarrow> int list \<Rightarrow> int list" where
  "compact cutoff i j arr =
     (if i < length arr
      then if arr ! i > cutoff then compact cutoff (Suc i) (Suc j) (arr[j := arr ! i])
           else compact cutoff (Suc i) j arr
      else take j arr)"
  by pat_completeness auto
termination
  by (relation "measure (\<lambda>(cutoff, i, j, arr). length arr - i)") auto

declare compact.simps [simp del]

definition memory_key :: "string \<Rightarrow> string \<Rightarrow> string" where
  "memory_key tenantID suffix = tenantID @ ''|'' @ suffix"

definition MemoryLimiter_Allow ::
  "int \<Rightarrow> string \<Rightarrow> string \<Rightarrow> int \<Rightarrow> int \<Rightarrow> MemoryLimiter \<Rightarrow> (bool \<times> string option) \<times> MemoryLimiter" where
  "MemoryLimiter_Allow now tenantID suffix limit window l =
     (let key = memory_key tenantID suffix;
          cutoff = wrap64 (now - Milliseconds window);
          stamps = (case ml_windows l key of None \<Rightarrow> [] | Some s \<Rightarrow> s);
          kept = compact cutoff 0 0 stamps
      in if int (length kept) \<ge> limit
         then ((False, None), l\<lparr>ml_windows := (ml_windows l)(key \<mapsto> kept)\<rparr>)
         else ((True, None), l\<lparr>ml_windows := (ml_windows l)(key \<mapsto> kept @ [now])\<rparr>))"

subsection \<open>The Redis limiter\<close>

text \<open>
  The script in exact integers. Lua and the scores of a sorted set are doubles, which hold every
  integer below \<open>2 ^ 53\<close>: readings in milliseconds reach that in the year 287396. The key holds a
  sorted set or nothing, since only this script writes under \<open>ratelimit:\<close> keys; a tenant id with a
  colon can break that (lemma \<open>redis_keys_collide\<close>), and the server's error is then one of those
  that \<open>rc_Eval\<close> may return.
\<close>

definition slidingWindowScript ::
  "'r RedisClient \<Rightarrow> string \<Rightarrow> int \<Rightarrow> int \<Rightarrow> int \<Rightarrow> string \<Rightarrow> 'r \<Rightarrow> int \<times> 'r" where
  "slidingWindowScript C key now window limit member r =
     (let r1 = rc_ZREMRANGEBYSCORE C key 0 (now - window) r;
          count = rc_ZCARD C key r1
      in if count < limit
         then (let r2 = rc_ZADD C key now member r1;
                   r3 = rc_PEXPIRE C key window r2
               in (1, r3))
         else (0, r1))"

definition RedisLimiter_Allow ::
  "'r RedisClient \<Rightarrow> int \<Rightarrow> string \<Rightarrow> string \<Rightarrow> string \<Rightarrow> int \<Rightarrow> int \<Rightarrow> 'r \<Rightarrow> (bool \<times> string option) \<times> 'r" where
  "RedisLimiter_Allow C nowMs member tenantID suffix limit window r =
     (case Redis_Eval C
             (slidingWindowScript C (Key tenantID suffix) nowMs (Milliseconds window) limit member) r of
        (Inl err, r') \<Rightarrow> ((False, Some err), r')
      | (Inr v, r') \<Rightarrow> ((v = 1, None), r'))"

subsection \<open>The middleware\<close>

definition FallbackKey :: string where "FallbackKey = ''ratelimit_fallback''"

definition RateLimit ::
  "(string \<Rightarrow> string \<Rightarrow> int \<Rightarrow> int \<Rightarrow> 'w \<Rightarrow> (bool \<times> string option) \<times> 'w) \<Rightarrow>
   (string \<Rightarrow> string \<Rightarrow> int \<Rightarrow> int \<Rightarrow> 'w \<Rightarrow> (bool \<times> string option) \<times> 'w) \<Rightarrow>
   int \<Rightarrow> int \<Rightarrow> 'w emitter \<Rightarrow> 'w handler \<Rightarrow> 'w handler" where
  "RateLimit primary_Allow fallback_Allow limit window emit next c w =
     (case FromGin c of
        None \<Rightarrow> (Unauthorized ''authentication required'' c, w)
      | Some actor \<Rightarrow>
          (let suffix = ''ratelimit:'' @ FullPath c;
               ((allowed0, err), w1) = primary_Allow (id_TenantID actor) suffix limit window w;
               (allowed, c', w') =
                 (case err of
                    None \<Rightarrow> (allowed0, c, w1)
                  | Some e \<Rightarrow>
                      (let w2 = emit (logger_FromContext (c_Context c)) LevelWarn
                                  ''rate limiter falling back to in-memory''
                                  [(''error'', AStr e), (''tenant_id'', AStr (id_TenantID actor)),
                                   (''route'', AStr (FullPath c))] w1;
                           c2 = gin_Set FallbackKey (GBool True) c;
                           ((allowed1, _), w3) =
                             fallback_Allow (id_TenantID actor) suffix limit window w2
                       in (allowed1, c2, w3)))
           in if \<not> allowed then (Abort 429 CodeRateLimited ''rate limit exceeded'' c', w')
              else next c' w'))"

subsection \<open>Specification\<close>

text \<open>The admissions that a window of a given length, ending now, still holds.\<close>

definition in_window :: "int \<Rightarrow> int \<Rightarrow> int multiset \<Rightarrow> int multiset" where
  "in_window now width A = filter_mset (\<lambda>t. now - width < t) A"

text \<open>A sequence of calls, one after the other, and the calls that were admitted.\<close>

fun run_allow ::
  "('e \<Rightarrow> 's \<Rightarrow> (bool \<times> string option) \<times> 's) \<Rightarrow> 'e list \<Rightarrow> 's \<Rightarrow> 'e list \<times> 's" where
  "run_allow f [] s = ([], s)"
| "run_allow f (e # es) s =
     (case f e s of
        ((ok, err), s') \<Rightarrow>
          (case run_allow f es s' of
             (admitted, s'') \<Rightarrow> (if ok \<and> err = None then e # admitted else admitted, s'')))"

text \<open>A condition on the environment of each call, in the state that the call meets.\<close>

fun run_ok ::
  "('e \<Rightarrow> 's \<Rightarrow> (bool \<times> string option) \<times> 's) \<Rightarrow> ('e \<Rightarrow> 's \<Rightarrow> bool) \<Rightarrow> 'e list \<Rightarrow> 's \<Rightarrow> bool" where
  "run_ok f P [] s = True"
| "run_ok f P (e # es) s = (P e s \<and> run_ok f P es (snd (f e s)))"

text \<open>
  Clock readings that are out of order by at most \<open>d\<close>: the limiters read the clock before they
  take the lock or reach the server, and instances have clocks of their own. \<open>T\<close> is the latest
  reading so far.
\<close>

fun skew_ok :: "int \<Rightarrow> int \<Rightarrow> int list \<Rightarrow> bool" where
  "skew_ok d T [] = True"
| "skew_ok d T (n # ns) = (T - d \<le> n \<and> skew_ok d (max T n) ns)"

definition clock_ok :: "int \<Rightarrow> bool" where
  "clock_ok now \<longleftrightarrow> 0 \<le> now \<and> now < 2 ^ 62"

text \<open>The admissions a limiter stores for a tenant and route.\<close>

definition memory_stamps :: "string \<Rightarrow> string \<Rightarrow> MemoryLimiter \<Rightarrow> int multiset" where
  "memory_stamps t x l = (case ml_windows l (memory_key t x) of None \<Rightarrow> {#} | Some s \<Rightarrow> mset s)"

definition redis_stamps :: "'r RedisClient \<Rightarrow> string \<Rightarrow> string \<Rightarrow> 'r \<Rightarrow> int multiset" where
  "redis_stamps C t x r = image_mset snd (mset (rc_ZRANGE C (Key t x) r))"

text \<open>The state of the limiter: the client it holds and the server behind it.\<close>

type_synonym 'r redis_limiter = "'r RedisClient \<times> 'r"

definition redis_limiter_inv :: "'r redis_limiter \<Rightarrow> bool" where
  "redis_limiter_inv s \<longleftrightarrow> redis_atomic_eval (fst s) \<and> redis_sorted_sets (fst s) \<and>
     (\<forall>t x. \<forall>a \<in># redis_stamps (fst s) t x (snd s). 0 \<le> a)"

definition redis_limiter_Allow ::
  "int \<times> string \<Rightarrow> string \<Rightarrow> string \<Rightarrow> int \<Rightarrow> int \<Rightarrow> 'r redis_limiter \<Rightarrow>
   (bool \<times> string option) \<times> 'r redis_limiter" where
  "redis_limiter_Allow e t x limit window s =
     (let (reply, r') = RedisLimiter_Allow (fst s) (fst e) (snd e) t x limit window (snd s)
      in (reply, (fst s, r')))"

definition fresh_member :: "int \<times> string \<Rightarrow> string \<Rightarrow> string \<Rightarrow> 'r redis_limiter \<Rightarrow> bool" where
  "fresh_member e t x s \<longleftrightarrow> snd e \<notin> fst ` set (rc_ZRANGE (fst s) (Key t x) (snd s))"

text \<open>
  How the admissions \<open>A\<close> up to the time \<open>T\<close> relate to the stored ones \<open>S\<close>: those still in the window
  are stored, and no window that is shorter by the skew \<open>d\<close> holds more than the limit.
\<close>

definition tracks :: "int \<Rightarrow> int \<Rightarrow> int \<Rightarrow> int \<Rightarrow> int multiset \<Rightarrow> int multiset \<Rightarrow> bool" where
  "tracks d W limit T A S \<longleftrightarrow> (\<forall>a \<in># A. a \<le> T) \<and> in_window T W A \<subseteq># S \<and>
     (\<forall>y. size (filter_mset (\<lambda>a. y - (W - d) < a \<and> a \<le> y) A) \<le> nat limit)"

section \<open>The interface\<close>

lemma tracks_empty: "tracks d W limit T {#} S"
  by (simp add: tracks_def in_window_def)

lemma in_window_sub: "in_window T W A \<subseteq># S \<Longrightarrow> T \<le> T' \<Longrightarrow> c \<le> T' \<Longrightarrow> in_window T' W A \<subseteq># in_window c W S"
proof -
  assume sub: "in_window T W A \<subseteq># S" and "T \<le> T'" "c \<le> T'"
  then have "in_window T' W A = in_window T' W (in_window T W A)"
    by (auto simp: in_window_def filter_filter_mset intro!: filter_mset_cong)
  also have "\<dots> \<subseteq># in_window T' W S"
    using sub by (auto simp: in_window_def intro: multiset_filter_mono)
  also have "\<dots> \<subseteq># in_window c W S"
    using \<open>c \<le> T'\<close> unfolding in_window_def by (intro filter_mset_mono_strong) auto
  finally show ?thesis .
qed

lemma tracks_keep:
  assumes "tracks d W limit T A S" and "in_window c W S \<subseteq># S'"
  shows "tracks d W limit (max T c) A S'"
  using assms in_window_sub [of T W A S "max T c" c]
  by (auto simp: tracks_def intro: subset_mset.trans)

lemma tracks_add:
  assumes tr: "tracks d W limit T A S" and "0 \<le> d" and late: "T - d \<le> c" and "0 < W"
    and room: "int (size (in_window c W S)) < limit"
  shows "tracks d W limit (max T c) (add_mset c A) (add_mset c (in_window c W S))"
proof -
  have stored: "in_window (max T c) W A \<subseteq># in_window c W S"
    using tr by (intro in_window_sub [of T]) (auto simp: tracks_def)
  have "size (filter_mset (\<lambda>a. y - (W - d) < a \<and> a \<le> y) (add_mset c A)) \<le> nat limit" for y
  proof (cases "y - (W - d) < c \<and> c \<le> y")
    case True
    have "filter_mset (\<lambda>a. y - (W - d) < a \<and> a \<le> y) A \<subseteq># filter_mset (\<lambda>a. c - W < a) (in_window T W A)"
      unfolding in_window_def filter_filter_mset
      using True assms(2,3) by (intro filter_mset_mono_strong) auto
    also have "\<dots> \<subseteq># in_window c W S"
      using tr unfolding tracks_def in_window_def by (intro multiset_filter_mono) blast
    finally have "int (size (filter_mset (\<lambda>a. y - (W - d) < a \<and> a \<le> y) A)) < limit"
      using room size_mset_mono by fastforce
    with True show ?thesis by simp
  next
    case False
    with tr show ?thesis by (auto simp: tracks_def)
  qed
  moreover have "in_window (max T c) W (add_mset c A) \<subseteq># add_mset c (in_window c W S)"
    using subset_mset.trans [OF stored mset_subset_eq_add_right [of _ "{#c#}"]] stored
    by (simp add: in_window_def)
  ultimately show ?thesis using tr by (auto simp: tracks_def le_max_iff_disj)
qed

lemma tracks_count:
  assumes "tracks d W limit T (mset (map (\<lambda>call. clock (fst call)) (filter (\<lambda>call. snd call = (t, x)) adm))) S"
  shows "length (filter (\<lambda>(e, t', x'). t' = t \<and> x' = x \<and> y - (W - d) < clock e \<and> clock e \<le> y) adm) \<le> nat limit"
proof -
  have "length (filter (\<lambda>a. y - (W - d) < a \<and> a \<le> y)
      (map (\<lambda>call. clock (fst call)) (filter (\<lambda>call. snd call = (t, x)) adm))) \<le> nat limit"
    using assms unfolding tracks_def by (simp flip: mset_filter del: mset_map)
  moreover have "filter (\<lambda>(e, t', x'). t' = t \<and> x' = x \<and> y - (W - d) < clock e \<and> clock e \<le> y) adm =
      filter (\<lambda>call. y - (W - d) < clock (fst call) \<and> clock (fst call) \<le> y)
        (filter (\<lambda>call. snd call = (t, x)) adm)"
    unfolding filter_filter by (rule filter_cong) auto
  ultimately show ?thesis by (simp add: filter_map comp_def)
qed

locale limiter =
  fixes allow :: "'e \<Rightarrow> string \<Rightarrow> string \<Rightarrow> int \<Rightarrow> int \<Rightarrow> 's \<Rightarrow> (bool \<times> string option) \<times> 's"
    and clock :: "'e \<Rightarrow> int"
    and env_ok :: "'e \<Rightarrow> string \<Rightarrow> string \<Rightarrow> 's \<Rightarrow> bool"
    and stamps :: "string \<Rightarrow> string \<Rightarrow> 's \<Rightarrow> int multiset"
    and inv :: "'s \<Rightarrow> bool"
  assumes allow_inv:
      "inv s \<Longrightarrow> clock_ok (clock e) \<Longrightarrow> env_ok e t x s \<Longrightarrow> 0 < Milliseconds window \<Longrightarrow>
       inv (snd (allow e t x limit window s))"
    and allow_reply:
      "inv s \<Longrightarrow> clock_ok (clock e) \<Longrightarrow> env_ok e t x s \<Longrightarrow> int64_range window \<Longrightarrow> 0 < Milliseconds window \<Longrightarrow>
       allow e t x limit window s = ((b, None), s') \<Longrightarrow>
       b = (int (size (in_window (clock e) (Milliseconds window) (stamps t x s))) < limit) \<and>
       stamps t x s' =
         (let kept = in_window (clock e) (Milliseconds window) (stamps t x s)
          in if b then add_mset (clock e) kept else kept)"
    and allow_keeps:
      "inv s \<Longrightarrow> clock_ok (clock e) \<Longrightarrow> env_ok e t x s \<Longrightarrow> int64_range window \<Longrightarrow> 0 < Milliseconds window \<Longrightarrow>
       in_window (clock e) (Milliseconds window) (stamps t' x' s)
         \<subseteq># stamps t' x' (snd (allow e t x limit window s))"
begin

lemma allow_tracks:
  assumes "inv s" and "clock_ok (clock e)" and "env_ok e t x s" and "int64_range window"
    and "0 < Milliseconds window" and "0 \<le> d" and "T - d \<le> clock e"
    and "allow e t x limit window s = ((b, m), s')"
    and "tracks d (Milliseconds window) limit T A (stamps t x s)"
  shows "tracks d (Milliseconds window) limit (max T (clock e))
    (if b \<and> m = None then add_mset (clock e) A else A) (stamps t x s')"
proof (cases "b \<and> m = None")
  case True
  with allow_reply [OF assms(1-5), of limit b s'] assms(8) tracks_add [OF assms(9,6,7,5)]
  show ?thesis by (simp add: Let_def)
next
  case False
  with allow_keeps [OF assms(1-5), of t x limit] assms(8) tracks_keep [OF assms(9)]
  show ?thesis by auto
qed

text \<open>The same for the admissions of any tenant and route, whoever calls.\<close>

lemma allow_tracks_any:
  assumes "inv s" and "clock_ok (clock e)" and "env_ok e t' x' s" and "int64_range window"
    and "0 < Milliseconds window" and "0 \<le> d" and "T - d \<le> clock e"
    and "allow e t' x' limit window s = ((b, m), s')"
    and "tracks d (Milliseconds window) limit T A (stamps t x s)"
  shows "tracks d (Milliseconds window) limit (max T (clock e))
    (if (b \<and> m = None) \<and> t' = t \<and> x' = x then add_mset (clock e) A else A) (stamps t x s')"
proof (cases "t' = t \<and> x' = x")
  case True
  with allow_tracks [OF assms(1-8)] assms(9) show ?thesis by simp
next
  case False
  with allow_keeps [OF assms(1-5), of t x limit] assms(8) tracks_keep [OF assms(9)]
  show ?thesis by auto
qed

text \<open>
  Any sequence of calls, of any tenants and for any routes: the admissions of one tenant on one
  route never exceed the limit in any window shorter than the configured one by the skew.
\<close>

lemma window_bound:
  assumes "inv s" and "int64_range window" and "0 < Milliseconds window" and "0 \<le> d"
    and "\<forall>(e, t', x') \<in> set calls. clock_ok (clock e)"
    and "skew_ok d T (map (\<lambda>call. clock (fst call)) calls)"
    and "run_ok (\<lambda>(e, t', x'). allow e t' x' limit window) (\<lambda>(e, t', x'). env_ok e t' x') calls s"
    and "tracks d (Milliseconds window) limit T A (stamps t x s)"
  shows "\<exists>T' S'. tracks d (Milliseconds window) limit T'
    (A + mset (map (\<lambda>call. clock (fst call)) (filter (\<lambda>call. snd call = (t, x))
      (fst (run_allow (\<lambda>(e, t', x'). allow e t' x' limit window) calls s))))) S'"
  using assms
proof (induction calls arbitrary: s A T)
  case Nil
  then show ?case by auto
next
  case (Cons call calls)
  obtain e t' x' where c: "call = (e, t', x')" by (cases call)
  obtain b m s' where call: "allow e t' x' limit window s = ((b, m), s')"
    by (metis prod.exhaust)
  have env: "env_ok e t' x' s" and clk: "clock_ok (clock e)" and late: "T - d \<le> clock e"
    and skew: "skew_ok d (max T (clock e)) (map (\<lambda>call. clock (fst call)) calls)"
    and rest: "run_ok (\<lambda>(e, t', x'). allow e t' x' limit window) (\<lambda>(e, t', x'). env_ok e t' x') calls s'"
    using Cons.prems(5-7) c call by (auto simp: comp_def)
  have inv': "inv s'"
    using allow_inv [OF Cons.prems(1) clk env Cons.prems(3), of limit] call by simp
  define A' where "A' = (if (b \<and> m = None) \<and> t' = t \<and> x' = x then add_mset (clock e) A else A)"
  have "tracks d (Milliseconds window) limit (max T (clock e)) A' (stamps t x s')"
    unfolding A'_def by (rule allow_tracks_any [OF Cons.prems(1) clk env Cons.prems(2-4) late call Cons.prems(8)])
  from Cons.IH [OF inv' Cons.prems(2-4) _ skew rest this] Cons.prems(5)
  obtain T' S' where "tracks d (Milliseconds window) limit T'
      (A' + mset (map (\<lambda>call. clock (fst call)) (filter (\<lambda>call. snd call = (t, x))
        (fst (run_allow (\<lambda>(e, t', x'). allow e t' x' limit window) calls s'))))) S'"
    by auto
  moreover have "A' + mset (map (\<lambda>call. clock (fst call)) (filter (\<lambda>call. snd call = (t, x))
        (fst (run_allow (\<lambda>(e, t', x'). allow e t' x' limit window) calls s')))) =
      A + mset (map (\<lambda>call. clock (fst call)) (filter (\<lambda>call. snd call = (t, x))
        (fst (run_allow (\<lambda>(e, t', x'). allow e t' x' limit window) (call # calls) s))))"
    using call by (auto simp: A'_def c split: prod.splits)
  ultimately show ?case by metis
qed

lemma window_bound_count:
  assumes "inv s" and "int64_range window" and "0 < Milliseconds window" and "0 \<le> d"
    and "\<forall>(e, t', x') \<in> set calls. clock_ok (clock e)"
    and "skew_ok d T (map (\<lambda>call. clock (fst call)) calls)"
    and "run_ok (\<lambda>(e, t', x'). allow e t' x' limit window) (\<lambda>(e, t', x'). env_ok e t' x') calls s"
  shows "length (filter (\<lambda>(e, t', x'). t' = t \<and> x' = x \<and>
        y - (Milliseconds window - d) < clock e \<and> clock e \<le> y)
      (fst (run_allow (\<lambda>(e, t', x'). allow e t' x' limit window) calls s))) \<le> nat limit"
proof -
  let ?adm = "fst (run_allow (\<lambda>(e, t', x'). allow e t' x' limit window) calls s)"
  obtain T' S' where "tracks d (Milliseconds window) limit T'
      ({#} + mset (map (\<lambda>call. clock (fst call)) (filter (\<lambda>call. snd call = (t, x)) ?adm))) S'"
    using window_bound [OF assms tracks_empty, of t x] by blast
  then show ?thesis using tracks_count by simp
qed

end

section \<open>Lemmas\<close>

subsection \<open>In-place compaction\<close>

lemma compact_invariant:
  assumes "j \<le> i" and "i \<le> length arr" and "take j arr = filter (\<lambda>ts. ts > cutoff) (take i old)"
    and "drop i arr = drop i old" and "length arr = length old"
  shows "compact cutoff i j arr = filter (\<lambda>ts. ts > cutoff) old"
  using assms
proof (induction cutoff i j arr rule: compact.induct)
  case (1 cutoff i j arr)
  show ?case
  proof (cases "i < length arr")
    case False
    with "1.prems" have "take i old = old" by simp
    with False "1.prems"(3) show ?thesis by (simp add: compact.simps [of cutoff i j arr])
  next
    case True
    have nth: "arr ! i = old ! i"
      using "1.prems"(4,5) True by (metis Cons_nth_drop_Suc nth_via_drop)
    have tk: "take (Suc i) old = take i old @ [old ! i]"
      using True "1.prems"(5) by (simp add: take_Suc_conv_app_nth)
    have dr: "drop (Suc i) arr = drop (Suc i) old"
      using "1.prems"(4) by (metis drop_Suc tl_drop)
    show ?thesis
    proof (cases "arr ! i > cutoff")
      case kept: True
      have "compact cutoff (Suc i) (Suc j) (arr[j := arr ! i]) = filter (\<lambda>ts. ts > cutoff) old"
      proof (rule "1.IH"(1) [OF True kept])
        show "take (Suc j) (arr[j := arr ! i]) = filter (\<lambda>ts. ts > cutoff) (take (Suc i) old)"
          using "1.prems"(1,3) True kept tk nth by (simp add: take_Suc_conv_app_nth)
        show "drop (Suc i) (arr[j := arr ! i]) = drop (Suc i) old"
          using "1.prems"(1) dr by simp
      qed (use "1.prems" True in auto)
      with True kept show ?thesis by (simp add: compact.simps [of cutoff i j arr])
    next
      case gone: False
      have "compact cutoff (Suc i) j arr = filter (\<lambda>ts. ts > cutoff) old"
        by (rule "1.IH"(2) [OF True gone]) (use "1.prems" True gone tk nth dr in auto)
      with True gone show ?thesis by (simp add: compact.simps [of cutoff i j arr])
    qed
  qed
qed

lemma compact_filter: "compact cutoff 0 0 stamps = filter (\<lambda>ts. ts > cutoff) stamps"
  by (rule compact_invariant) auto

subsection \<open>The in-memory limiter provides the interface\<close>

lemma run_ok_True: "run_ok f (\<lambda>_ _. True) es s"
  by (induction es arbitrary: s) simp_all

lemma cutoff_no_overflow:
  assumes "clock_ok now" and "int64_range window"
  shows "wrap64 (now - Milliseconds window) = now - Milliseconds window"
proof -
  have "\<bar>Milliseconds window\<bar> \<le> 2 ^ 44" by (rule Milliseconds_bound [OF assms(2)])
  then show ?thesis
    using assms(1) by (intro wrap64_id) (auto simp: clock_ok_def int64_range_def abs_le_iff)
qed

lemma MemoryLimiter_Allow_spec:
  assumes "clock_ok now" and "int64_range window"
    and kept: "kept = in_window now (Milliseconds window) (memory_stamps t x l)"
    and b: "b \<longleftrightarrow> int (size kept) < limit"
  shows "fst (MemoryLimiter_Allow now t x limit window l) = (b, None)"
    and "memory_stamps t x (snd (MemoryLimiter_Allow now t x limit window l)) =
      (if b then add_mset now kept else kept)"
proof -
  define st where "st = (case ml_windows l (memory_key t x) of None \<Rightarrow> [] | Some s \<Rightarrow> s)"
  have "mset st = memory_stamps t x l"
    by (simp add: st_def memory_stamps_def split: option.splits)
  define ks where "ks = filter (\<lambda>ts. now - Milliseconds window < ts) st"
  have kept': "kept = mset ks"
    using \<open>mset st = memory_stamps t x l\<close> by (simp add: kept in_window_def ks_def)
  have full: "\<not> b \<longleftrightarrow> limit \<le> int (length ks)"
    by (simp add: b kept' not_less)
  have eq: "MemoryLimiter_Allow now t x limit window l =
      (if \<not> b then ((False, None), l\<lparr>ml_windows := (ml_windows l)(memory_key t x \<mapsto> ks)\<rparr>)
       else ((True, None), l\<lparr>ml_windows := (ml_windows l)(memory_key t x \<mapsto> ks @ [now])\<rparr>))"
    unfolding MemoryLimiter_Allow_def Let_def compact_filter cutoff_no_overflow [OF assms(1,2)]
      st_def [symmetric] ks_def [symmetric] full ..
  show "fst (MemoryLimiter_Allow now t x limit window l) = (b, None)"
    by (simp add: eq)
  show "memory_stamps t x (snd (MemoryLimiter_Allow now t x limit window l)) =
      (if b then add_mset now kept else kept)"
    by (simp add: eq kept' memory_stamps_def)
qed

text \<open>Another tenant or route has its own window.\<close>

lemma MemoryLimiter_Allow_frame:
  assumes "memory_key t' x' \<noteq> memory_key t x"
  shows "memory_stamps t' x' (snd (MemoryLimiter_Allow now t x limit window l)) = memory_stamps t' x' l"
  using assms by (simp add: MemoryLimiter_Allow_def Let_def memory_stamps_def)

interpretation memory_limiter: limiter MemoryLimiter_Allow "\<lambda>now. now" "\<lambda>_ _ _ _. True"
    memory_stamps "\<lambda>_. True"
proof
  fix s e t x window limit b s'
  assume "clock_ok e" and "int64_range window"
    and "MemoryLimiter_Allow e t x limit window s = ((b, None), s')"
  then show "b = (int (size (in_window e (Milliseconds window) (memory_stamps t x s))) < limit) \<and>
       memory_stamps t x s' =
         (let kept = in_window e (Milliseconds window) (memory_stamps t x s)
          in if b then add_mset e kept else kept)"
    using MemoryLimiter_Allow_spec [of e window _ t x s _ limit] by (simp add: Let_def)
next
  fix s e t x window t' x' limit
  assume e: "clock_ok e" "int64_range window"
  show "in_window e (Milliseconds window) (memory_stamps t' x' s)
      \<subseteq># memory_stamps t' x' (snd (MemoryLimiter_Allow e t x limit window s))"
  proof (cases "memory_key t' x' = memory_key t x")
    case True
    then have "memory_stamps t' x' l = memory_stamps t x l" for l by (simp add: memory_stamps_def)
    with MemoryLimiter_Allow_spec(2) [OF e refl refl, where t = t and x = x and l = s and limit = limit] show ?thesis by simp
  next
    case False
    from MemoryLimiter_Allow_frame [OF False] show ?thesis by (simp add: in_window_def)
  qed
qed simp

subsection \<open>The Redis limiter provides the interface\<close>

lemma redis_sorted_setsD:
  assumes "redis_sorted_sets C"
  shows "mset (rc_ZRANGE C k (rc_ZREMRANGEBYSCORE C k lo hi r)) =
        filter_mset (\<lambda>(m, s). \<not> (lo \<le> s \<and> s \<le> hi)) (mset (rc_ZRANGE C k r))"
    and "rc_ZCARD C k r = int (length (rc_ZRANGE C k r))"
    and "m \<notin> fst ` set (rc_ZRANGE C k r) \<Longrightarrow>
        mset (rc_ZRANGE C k (rc_ZADD C k s m r)) = add_mset (m, s) (mset (rc_ZRANGE C k r))"
    and "0 < ms \<Longrightarrow> mset (rc_ZRANGE C k (rc_PEXPIRE C k ms r)) = mset (rc_ZRANGE C k r)"
    and "k' \<noteq> k \<Longrightarrow> rc_ZRANGE C k' (rc_ZREMRANGEBYSCORE C k lo hi r) = rc_ZRANGE C k' r"
    and "k' \<noteq> k \<Longrightarrow> rc_ZRANGE C k' (rc_ZADD C k s m r) = rc_ZRANGE C k' r"
    and "k' \<noteq> k \<Longrightarrow> rc_ZRANGE C k' (rc_PEXPIRE C k ms r) = rc_ZRANGE C k' r"
proof -
  note parts = assms [unfolded redis_sorted_sets_def]
  show "mset (rc_ZRANGE C k (rc_ZREMRANGEBYSCORE C k lo hi r)) =
      filter_mset (\<lambda>(m, s). \<not> (lo \<le> s \<and> s \<le> hi)) (mset (rc_ZRANGE C k r))"
    by (rule parts [THEN conjunct1, rule_format])
  note parts = parts [THEN conjunct2]
  show "rc_ZCARD C k r = int (length (rc_ZRANGE C k r))"
    by (rule parts [THEN conjunct1, rule_format])
  note parts = parts [THEN conjunct2]
  show "m \<notin> fst ` set (rc_ZRANGE C k r) \<Longrightarrow>
      mset (rc_ZRANGE C k (rc_ZADD C k s m r)) = add_mset (m, s) (mset (rc_ZRANGE C k r))"
    by (rule parts [THEN conjunct1, rule_format])
  note parts = parts [THEN conjunct2]
  show "0 < ms \<Longrightarrow> mset (rc_ZRANGE C k (rc_PEXPIRE C k ms r)) = mset (rc_ZRANGE C k r)"
    by (rule parts [THEN conjunct1, rule_format])
  note parts = parts [THEN conjunct2]
  show "k' \<noteq> k \<Longrightarrow> rc_ZRANGE C k' (rc_ZREMRANGEBYSCORE C k lo hi r) = rc_ZRANGE C k' r"
    by (rule parts [THEN conjunct1, rule_format])
  note parts = parts [THEN conjunct2]
  show "k' \<noteq> k \<Longrightarrow> rc_ZRANGE C k' (rc_ZADD C k s m r) = rc_ZRANGE C k' r"
    by (rule parts [THEN conjunct1, rule_format])
  show "k' \<noteq> k \<Longrightarrow> rc_ZRANGE C k' (rc_PEXPIRE C k ms r) = rc_ZRANGE C k' r"
    by (rule parts [THEN conjunct2, rule_format])
qed

text \<open>What the script does to the set of its key, and to no other.\<close>

lemma slidingWindowScript_spec:
  assumes C: "redis_sorted_sets C" and "0 < W"
    and fresh: "member \<notin> fst ` set (rc_ZRANGE C k r)"
    and nonneg: "\<forall>p \<in> set (rc_ZRANGE C k r). 0 \<le> snd p"
    and kept: "kept = filter_mset (\<lambda>p. now - W < snd p) (mset (rc_ZRANGE C k r))"
    and b: "b \<longleftrightarrow> int (size kept) < limit"
    and run: "slidingWindowScript C k now W limit member r = (v, r')"
  shows "v = (if b then 1 else 0)"
    and "mset (rc_ZRANGE C k r') = (if b then add_mset (member, now) kept else kept)"
    and "k' \<noteq> k \<Longrightarrow> rc_ZRANGE C k' r' = rc_ZRANGE C k' r"
proof -
  note D = redis_sorted_setsD [OF C]
  define r1 where "r1 = rc_ZREMRANGEBYSCORE C k 0 (now - W) r"
  have r1: "mset (rc_ZRANGE C k r1) = kept"
    unfolding r1_def D(1) kept
    by (rule filter_mset_cong) (use nonneg in \<open>auto simp: split_beta\<close>)
  have card: "rc_ZCARD C k r1 = int (size kept)"
    using r1 by (metis D(2) size_mset)
  have fresh1: "member \<notin> fst ` set (rc_ZRANGE C k r1)"
    using fresh r1 kept by (metis (no_types, lifting) filter_mset_eq_conv image_iff mset_subset_eqD
        multiset_filter_subset set_mset_mset)
  have eq: "(v, r') = (if b then (1, rc_PEXPIRE C k W (rc_ZADD C k now member r1)) else (0, r1))"
    using run by (cases b) (auto simp: slidingWindowScript_def Let_def r1_def [symmetric] card b)
  show "v = (if b then 1 else 0)" using eq by (auto split: if_splits)
  show "mset (rc_ZRANGE C k r') = (if b then add_mset (member, now) kept else kept)"
    using eq r1 D(4) [OF \<open>0 < W\<close>] D(3) [OF fresh1] by (auto split: if_splits)
  show "rc_ZRANGE C k' r' = rc_ZRANGE C k' r" if "k' \<noteq> k"
    using eq D(5-7) [OF that] by (auto simp: r1_def split: if_splits)
qed

text \<open>The same, in terms of the stored timestamps, for a call of the limiter.\<close>

lemma redis_limiter_Allow_cases:
  assumes inv: "redis_limiter_inv s" and "fresh_member e t x s" and "0 < Milliseconds window"
    and "kept = in_window (fst e) (Milliseconds window) (redis_stamps (fst s) t x (snd s))"
    and "b' \<longleftrightarrow> int (size kept) < limit"
    and call: "redis_limiter_Allow e t x limit window s = ((b, m), s')"
  shows "(m = None \<longrightarrow> b = b') \<and> fst s' = fst s \<and>
    (s' = s \<and> m \<noteq> None \<or>
     redis_stamps (fst s) t x (snd s') = (if b' then add_mset (fst e) kept else kept) \<and>
     (\<forall>k. k \<noteq> Key t x \<longrightarrow> rc_ZRANGE (fst s) k (snd s') = rc_ZRANGE (fst s) k (snd s)))"
proof -
  obtain C r where s: "s = (C, r)" by (cases s)
  obtain now member where e: "e = (now, member)" by (cases e)
  let ?W = "Milliseconds window"
  let ?script = "slidingWindowScript C (Key t x) now ?W limit member"
  let ?P = "filter_mset (\<lambda>p. now - ?W < snd p) (mset (rc_ZRANGE C (Key t x) r))"
  have C: "redis_sorted_sets C" "redis_atomic_eval C"
    using inv by (simp_all add: redis_limiter_inv_def s)
  have nonneg: "\<forall>p \<in> set (rc_ZRANGE C (Key t x) r). 0 \<le> snd p"
    using inv by (auto simp: redis_limiter_inv_def redis_stamps_def s)
  have kept: "kept = image_mset snd ?P"
    using assms(4) by (simp add: in_window_def redis_stamps_def s e filter_mset_image_mset comp_def)
  have fresh: "member \<notin> fst ` set (rc_ZRANGE C (Key t x) r)"
    using assms(2) by (simp add: fresh_member_def s e)
  have b': "b' \<longleftrightarrow> int (size ?P) < limit"
    using assms(5) kept by simp
  obtain v q where run: "?script r = (v, q)" by (cases "?script r")
  note spec = slidingWindowScript_spec [OF C(1) assms(3) fresh nonneg refl b' run]
  have stamps: "redis_stamps C t x q = (if b' then add_mset now kept else kept)"
    using spec(2) by (simp add: redis_stamps_def kept)
  obtain reply r' where ev: "rc_Eval C ?script r = (reply, r')" by (cases "rc_Eval C ?script r")
  show ?thesis
  proof (cases reply)
    case (Inl err)
    then have "r' = r \<or> r' = q"
      using C(2) ev run unfolding redis_atomic_eval_def by fastforce
    moreover have "m = Some err" "s' = (C, r')"
      using call Inl ev
      by (auto simp: redis_limiter_Allow_def RedisLimiter_Allow_def Redis_Eval_def s e)
    ultimately show ?thesis using stamps spec(3) by (auto simp: s e)
  next
    case (Inr u)
    then have "u = v" "r' = q"
      using C(2) ev run unfolding redis_atomic_eval_def by fastforce+
    then have "m = None" "b = b'" "s' = (C, q)"
      using call Inr ev spec(1)
      by (auto simp: redis_limiter_Allow_def RedisLimiter_Allow_def Redis_Eval_def s e split: if_splits)
    then show ?thesis using stamps spec(3) by (auto simp: s e)
  qed
qed

lemma redis_limiter_Allow_inv:
  assumes "redis_limiter_inv s" and "fresh_member e t x s" and "0 < Milliseconds window"
    and "0 \<le> fst e"
  shows "redis_limiter_inv (snd (redis_limiter_Allow e t x limit window s))"
proof -
  obtain b m s' where call: "redis_limiter_Allow e t x limit window s = ((b, m), s')"
    by (metis prod.exhaust)
  let ?kept = "in_window (fst e) (Milliseconds window) (redis_stamps (fst s) t x (snd s))"
  have old: "\<forall>a \<in># redis_stamps (fst s) t' x' (snd s). 0 \<le> a" for t' x'
    using assms(1) by (simp add: redis_limiter_inv_def)
  have kept: "\<forall>a \<in># ?kept. 0 \<le> a"
    using old [of t x] by (auto simp: in_window_def)
  note allow = redis_limiter_Allow_cases [OF assms(1-3) refl refl call]
  have "\<forall>a \<in># redis_stamps (fst s) t' x' (snd s'). 0 \<le> a" for t' x'
  proof (cases "Key t' x' = Key t x")
    case True
    then have "redis_stamps (fst s) t' x' (snd s') = redis_stamps (fst s) t x (snd s')"
      by (simp add: redis_stamps_def)
    with allow kept old [of t x] assms(4) show ?thesis by (auto split: if_splits)
  next
    case False
    with allow have "redis_stamps (fst s) t' x' (snd s') = redis_stamps (fst s) t' x' (snd s)"
      by (auto simp: redis_stamps_def)
    with old [of t' x'] show ?thesis by simp
  qed
  with assms(1) allow call show ?thesis
    by (simp add: redis_limiter_inv_def)
qed

interpretation redis_limiter: limiter redis_limiter_Allow fst fresh_member
    "\<lambda>t x s. redis_stamps (fst s) t x (snd s)" redis_limiter_inv
proof
  fix s :: "'r redis_limiter" and e t x window limit
  assume "redis_limiter_inv s" "clock_ok (fst e)" "fresh_member e t x s" "0 < Milliseconds window"
  then show "redis_limiter_inv (snd (redis_limiter_Allow e t x limit window s))"
    by (intro redis_limiter_Allow_inv) (simp_all add: clock_ok_def)
next
  fix s :: "'r redis_limiter" and e t x window limit b s'
  assume "redis_limiter_inv s" "fresh_member e t x s" "0 < Milliseconds window"
    "redis_limiter_Allow e t x limit window s = ((b, None), s')"
  from redis_limiter_Allow_cases [OF this(1-3) refl refl this(4)]
  show "b = (int (size (in_window (fst e) (Milliseconds window)
              (redis_stamps (fst s) t x (snd s)))) < limit) \<and>
       redis_stamps (fst s') t x (snd s') =
         (let kept = in_window (fst e) (Milliseconds window) (redis_stamps (fst s) t x (snd s))
          in if b then add_mset (fst e) kept else kept)"
    by (simp add: Let_def)
next
  fix s :: "'r redis_limiter" and e t x window limit t' x'
  assume a: "redis_limiter_inv s" "fresh_member e t x s" "0 < Milliseconds window"
  obtain b m s' where call: "redis_limiter_Allow e t x limit window s = ((b, m), s')"
    by (metis prod.exhaust)
  note cases = redis_limiter_Allow_cases [OF a refl refl call]
  show "in_window (fst e) (Milliseconds window) (redis_stamps (fst s) t' x' (snd s))
      \<subseteq># redis_stamps (fst (snd (redis_limiter_Allow e t x limit window s))) t' x'
           (snd (snd (redis_limiter_Allow e t x limit window s)))"
  proof (cases "Key t' x' = Key t x")
    case True
    then have "redis_stamps (fst s) t' x' r = redis_stamps (fst s) t x r" for r
      by (simp add: redis_stamps_def)
    with cases call show ?thesis by (auto simp: in_window_def)
  next
    case False
    with cases have "redis_stamps (fst s) t' x' (snd s') = redis_stamps (fst s) t' x' (snd s)"
      by (auto simp: redis_stamps_def)
    with cases call show ?thesis by (simp add: in_window_def)
  qed
qed

end
