(* ===== verification/Edge.thy ===== *)
theory Edge
  imports Api_Key Policy_Enforce Rate_Limit
begin

text \<open>
  The middlewares every request passes first: the correlation id
  (\<open>internal/gateway/middleware/requestid.go\<close>), the access log (\<open>logging.go\<close>) and
  authentication (\<open>auth.go\<close>). The identifier \<open>uuid.NewString()\<close> returns and the clock readings
  are arguments. Authentication takes the key resolver it is given, or none.
\<close>

section \<open>Definitions\<close>

subsection \<open>requestid.go\<close>

definition HeaderRequestID :: string where "HeaderRequestID = ''X-Request-ID''"

definition request_id :: "string \<Rightarrow> GinCtx \<Rightarrow> string" where
  "request_id uuid c =
     (let rid = GetHeader c HeaderRequestID in if rid = '''' then uuid else rid)"

definition install_request_id :: "Logger \<Rightarrow> string \<Rightarrow> GinCtx \<Rightarrow> GinCtx" where
  "install_request_id base rid c =
     (let c1 = gin_Set RequestIDKey (GStr rid) c;
          c2 = gin_Header HeaderRequestID rid c1;
          reqLogger = slog_With base [(''request_id'', AStr rid)]
      in c2\<lparr>c_Context := logger_WithContext (c_Context c2) reqLogger\<rparr>)"

definition RequestID :: "Logger \<Rightarrow> string \<Rightarrow> 'w handler \<Rightarrow> 'w handler" where
  "RequestID base uuid next c w = next (install_request_id base (request_id uuid c) c) w"

subsection \<open>logging.go\<close>

text \<open>A context value as a log attribute; a key that is not set is nil.\<close>

fun attr_of :: "gin_val option \<Rightarrow> attr" where
  "attr_of None = ANil"
| "attr_of (Some (GStr s)) = AStr s"
| "attr_of (Some (GBool b)) = ABool b"
| "attr_of (Some (GIdentity i)) = AStr (id_UserID i)"

definition access_attrs :: "int \<Rightarrow> GinCtx \<Rightarrow> (string \<times> attr) list" where
  "access_attrs latency c =
     [(''method'', AStr (req_Method (c_Request c))),
      (''route'', AStr (FullPath c)),
      (''path'', AStr (req_Path (c_Request c))),
      (''status'', AInt (c_Status c)),
      (''latency_ms'', AInt (Milliseconds latency)),
      (''policy_decision'', attr_of (c_Keys c CtxDecisionKey)),
      (''policy_rule'', attr_of (c_Keys c CtxRuleKey)),
      (''ratelimit_fallback'', attr_of (c_Keys c ''ratelimit_fallback''))]"

definition RequestLog :: "int \<Rightarrow> 'w emitter \<Rightarrow> 'w handler \<Rightarrow> 'w handler" where
  "RequestLog latency emit next c w =
     (case next c w of
        (c', w') \<Rightarrow>
          (c', emit (logger_FromContext (c_Context c')) LevelInfo ''request''
                 (access_attrs latency c') w'))"

subsection \<open>auth.go\<close>

definition HeaderAPIKey :: string where "HeaderAPIKey = ''X-API-Key''"

definition bearerToken :: "string \<Rightarrow> string option" where
  "bearerToken header =
     (let prefix = ''bearer '' in
      if length header \<le> length prefix \<or> \<not> EqualFold (take (length prefix) header) prefix
      then None
      else (let token = TrimSpace (drop (length prefix) header) in
            if token = '''' then None else Some token))"

definition resolveIdentity ::
  "JwtLib \<Rightarrow> Issuer \<Rightarrow> int \<Rightarrow> (string \<Rightarrow> 'w \<Rightarrow> (auth_error + Identity) \<times> 'w) option \<Rightarrow>
   GinCtx \<Rightarrow> 'w \<Rightarrow> (auth_error + Identity) \<times> 'w" where
  "resolveIdentity J issuer now keys c w =
     (case bearerToken (GetHeader c ''Authorization'') of
        Some token \<Rightarrow> (Validate J issuer now token, w)
      | None \<Rightarrow>
          (let key = GetHeader c HeaderAPIKey in
           if key \<noteq> ''''
           then (case keys of
                   None \<Rightarrow> (Inl ErrKeyNotFound, w)
                 | Some resolve \<Rightarrow> resolve key w)
           else (Inl errNoCredential, w)))"

definition auth_message :: "auth_error \<Rightarrow> string" where
  "auth_message err =
     (case err of
        ErrExpired \<Rightarrow> ''credential expired''
      | ErrKeyExpired \<Rightarrow> ''credential expired''
      | errNoCredential \<Rightarrow> ''missing Authorization or X-API-Key''
      | _ \<Rightarrow> ''invalid credential'')"

definition install_identity :: "Identity \<Rightarrow> GinCtx \<Rightarrow> GinCtx" where
  "install_identity i c =
     (let c1 = gin_Set GinKey (GIdentity i) c;
          ctx = identity_WithContext (c_Context c1) i;
          reqLogger = slog_With (logger_FromContext ctx)
            [(''tenant_id'', AStr (id_TenantID i)), (''actor_id'', AStr (id_UserID i)),
             (''role'', AStr (id_Role i))]
      in c1\<lparr>c_Context := logger_WithContext ctx reqLogger\<rparr>)"

definition Authenticate ::
  "JwtLib \<Rightarrow> Issuer \<Rightarrow> int \<Rightarrow> (string \<Rightarrow> 'w \<Rightarrow> (auth_error + Identity) \<times> 'w) option \<Rightarrow>
   'w handler \<Rightarrow> 'w handler" where
  "Authenticate J issuer now keys next c w =
     (case resolveIdentity J issuer now keys c w of
        (Inl err, w') \<Rightarrow> (Unauthorized (auth_message err) c, w')
      | (Inr i, w') \<Rightarrow> next (install_identity i c) w')"

section \<open>Lemmas\<close>

lemma install_request_id_simps [simp]:
  "c_Request (install_request_id b r c) = c_Request c"
  "c_Keys (install_request_id b r c) = (c_Keys c)(RequestIDKey \<mapsto> GStr r)"
  "c_Status (install_request_id b r c) = c_Status c"
  "c_Written (install_request_id b r c) = c_Written c"
  "c_Header (install_request_id b r c) = (c_Header c)(HeaderRequestID \<mapsto> r)"
  "logger_FromContext (c_Context (install_request_id b r c)) = slog_With b [(''request_id'', AStr r)]"
  "get_string (install_request_id b r c) RequestIDKey = r"
  by (simp_all add: install_request_id_def Let_def get_string_def)

lemma install_identity_simps [simp]:
  "c_Request (install_identity i c) = c_Request c"
  "c_Status (install_identity i c) = c_Status c"
  "c_Header (install_identity i c) = c_Header c"
  "c_Written (install_identity i c) = c_Written c"
  "c_Keys (install_identity i c) = (c_Keys c)(GinKey \<mapsto> GIdentity i)"
  "FromGin (install_identity i c) = Some i"
  "identity_FromContext (c_Context (install_identity i c)) = Inr i"
  "lg_Level (logger_FromContext (c_Context (install_identity i c))) =
     lg_Level (logger_FromContext (c_Context c))"
  by (simp_all add: install_identity_def Let_def FromGin_def)

lemma ctx_key_names_distinct [simp]:
  "RequestIDKey \<noteq> GinKey" "GinKey \<noteq> RequestIDKey" "FallbackKey \<noteq> GinKey" "FallbackKey \<noteq> RequestIDKey"
  by (simp_all add: RequestIDKey_def GinKey_def FallbackKey_def)

lemma Authenticate_refused:
  "resolveIdentity J iss now keys c w = (Inl err, w') \<Longrightarrow>
   Authenticate J iss now keys next c w = (Unauthorized (auth_message err) c, w')"
  by (simp add: Authenticate_def)

lemma Authenticate_accepted:
  "resolveIdentity J iss now keys c w = (Inr i, w') \<Longrightarrow>
   Authenticate J iss now keys next c w = next (install_identity i c) w'"
  by (simp add: Authenticate_def)

text \<open>The token of a well-formed header, and what every accepted header looks like.\<close>

lemma bearerToken_SomeD:
  assumes "bearerToken h = Some tok"
  shows "tok \<noteq> '''' \<and> EqualFold (take 7 h) ''bearer '' \<and> tok = TrimSpace (drop 7 h)"
  using assms by (auto simp: bearerToken_def Let_def eval_nat_numeral split: if_splits)

context key_resolver
begin

text \<open>Whichever credential was presented, the identity has a known role.\<close>

lemma resolveIdentity_valid:
  assumes "resolveIdentity J iss now (map_option resolve keys) c db = (Inr i, db')"
  shows "Valid (id_Role i)"
proof (cases "bearerToken (GetHeader c ''Authorization'')")
  case (Some tok)
  then have "Validate J iss now tok = Inr i"
    using assms by (simp add: resolveIdentity_def)
  then show ?thesis by (auto elim!: Validate_InrD dest: toIdentity_Inr)
next
  case None
  then obtain env where "resolve env (GetHeader c HeaderAPIKey) db = (Inr i, db')"
    using assms by (auto simp: resolveIdentity_def Let_def split: if_splits option.splits)
  then show ?thesis by (rule resolve_valid)
qed

lemma resolveIdentity_inv:
  assumes "inv db"
  shows "inv (snd (resolveIdentity J iss now (map_option resolve keys) c db))"
  using assms resolve_inv by (auto simp: resolveIdentity_def Let_def split: option.splits)

end

end
