(* ===== verification/Idempotency.thy ===== *)
theory Idempotency
  imports Redis_Storage Httpx
begin

text \<open>
  The idempotency middleware of \<open>internal/gateway/middleware/idempotency.go\<close>. It is the
  composition of its accesses to the store: look the key up, run the rest of the chain, store
  the captured response. The locale \<open>response_cache\<close> states what it relies on of the store; the
  step relation at the end interleaves these accesses for several requests.
\<close>

section \<open>Definitions\<close>

definition HeaderIdempotencyKey :: string where "HeaderIdempotencyKey = ''Idempotency-Key''"

record storedResponse =
  sr_Status :: int
  sr_Body :: string
  sr_ContentType :: string

text \<open>
  The encoders, which are not part of the repository: how the framework renders a JSON value
  and the content type it then sets, and \<open>encoding/json\<close> on the struct above.
\<close>

record HttpLib =
  hl_render :: "json \<Rightarrow> string"
  hl_json_type :: string
  hl_Marshal :: "storedResponse \<Rightarrow> string option"
  hl_Unmarshal :: "string \<Rightarrow> storedResponse option"

fun payload_bytes :: "HttpLib \<Rightarrow> payload \<Rightarrow> string" where
  "payload_bytes H (BodyJSON j) = hl_render H j"
| "payload_bytes H (BodyData _ b) = b"

fun payload_type :: "HttpLib \<Rightarrow> payload \<Rightarrow> string" where
  "payload_type H (BodyJSON _) = hl_json_type H"
| "payload_type H (BodyData t _) = t"

text \<open>The bytes on the wire, and the content type: the first writer sets it unless it is set.\<close>

definition response_bytes :: "HttpLib \<Rightarrow> GinCtx \<Rightarrow> string" where
  "response_bytes H c = concat (map (payload_bytes H) (c_Written c))"

definition content_type :: "HttpLib \<Rightarrow> GinCtx \<Rightarrow> string" where
  "content_type H c =
     (case c_Header c ''Content-Type'' of
        Some t \<Rightarrow> t
      | None \<Rightarrow> (case c_Written c of [] \<Rightarrow> '''' | p # _ \<Rightarrow> payload_type H p))"

text \<open>What the \<open>captureWriter\<close> installed at \<open>c\<close> holds once the chain has returned \<open>c'\<close>.\<close>

definition captured :: "HttpLib \<Rightarrow> GinCtx \<Rightarrow> GinCtx \<Rightarrow> string" where
  "captured H c c' = concat (map (payload_bytes H) (drop (length (c_Written c)) (c_Written c')))"

definition idem_suffix :: "GinCtx \<Rightarrow> string" where
  "idem_suffix c = ''idem:'' @ FullPath c @ '':'' @ GetHeader c HeaderIdempotencyKey"

definition replay :: "storedResponse \<Rightarrow> GinCtx \<Rightarrow> GinCtx" where
  "replay sr c =
     gin_Abort (gin_Data (sr_Status sr) (sr_ContentType sr) (sr_Body sr)
       (gin_Header ''Idempotent-Replay'' ''true'' c))"

text \<open>Up to the first \<open>c.Next()\<close>: answer, run without the guarantee, or run and store.\<close>

datatype idem_outcome = Answer GinCtx | Degrade | Execute

definition idem_lookup ::
  "HttpLib \<Rightarrow> (string \<Rightarrow> string \<Rightarrow> 'w \<Rightarrow> cache_error + string) \<Rightarrow> 'w emitter \<Rightarrow>
   GinCtx \<Rightarrow> 'w \<Rightarrow> idem_outcome \<times> 'w" where
  "idem_lookup H rdb_Get emit c w =
     (if GetHeader c HeaderIdempotencyKey = ''''
      then (Answer (Abort 400 CodeIdempotency ''Idempotency-Key header is required for this endpoint'' c), w)
      else case FromGin c of
        None \<Rightarrow> (Answer (Unauthorized ''authentication required'' c), w)
      | Some actor \<Rightarrow>
          (case rdb_Get (id_TenantID actor) (idem_suffix c) w of
             Inr val \<Rightarrow>
               (case hl_Unmarshal H val of
                  Some sr \<Rightarrow> (Answer (replay sr c), w)
                | None \<Rightarrow> (Execute, w))
           | Inl ErrCacheMiss \<Rightarrow> (Execute, w)
           | Inl (CacheErr e) \<Rightarrow>
               (Degrade, emit (logger_FromContext (c_Context c)) LevelWarn
                  ''idempotency store unavailable, proceeding without dedup''
                  [(''error'', AStr e), (''tenant_id'', AStr (id_TenantID actor))] w)))"

text \<open>After it: \<open>c\<close> is the context the middleware was entered with, \<open>c'\<close> the chain's result.\<close>

definition idem_store ::
  "HttpLib \<Rightarrow> (string \<Rightarrow> string \<Rightarrow> string \<Rightarrow> int \<Rightarrow> 'w \<Rightarrow> string option \<times> 'w) \<Rightarrow> int \<Rightarrow> 'w emitter \<Rightarrow>
   GinCtx \<Rightarrow> GinCtx \<Rightarrow> 'w \<Rightarrow> 'w" where
  "idem_store H rdb_Set ttl emit c c' w =
     (case FromGin c of
        None \<Rightarrow> w
      | Some actor \<Rightarrow>
          (let status = c_Status c' in
           if status \<ge> 200 \<and> status < 500
           then (let sr = \<lparr>sr_Status = status, sr_Body = captured H c c',
                           sr_ContentType = content_type H c'\<rparr> in
                 case hl_Marshal H sr of
                   None \<Rightarrow> w
                 | Some b \<Rightarrow>
                     (case rdb_Set (id_TenantID actor) (idem_suffix c) b ttl w of
                        (None, w') \<Rightarrow> w'
                      | (Some e, w') \<Rightarrow>
                          emit (logger_FromContext (c_Context c)) LevelWarn
                            ''failed to persist idempotent response'' [(''error'', AStr e)] w'))
           else w))"

definition Idempotency ::
  "HttpLib \<Rightarrow> (string \<Rightarrow> string \<Rightarrow> 'w \<Rightarrow> cache_error + string) \<Rightarrow>
   (string \<Rightarrow> string \<Rightarrow> string \<Rightarrow> int \<Rightarrow> 'w \<Rightarrow> string option \<times> 'w) \<Rightarrow> int \<Rightarrow> 'w emitter \<Rightarrow>
   'w handler \<Rightarrow> 'w handler" where
  "Idempotency H rdb_Get rdb_Set ttl emit next c w =
     (case idem_lookup H rdb_Get emit c w of
        (Answer c', w') \<Rightarrow> (c', w')
      | (Degrade, w') \<Rightarrow> next c w'
      | (Execute, w') \<Rightarrow>
          (case next c w' of (c', w'') \<Rightarrow> (c', idem_store H rdb_Set ttl emit c c' w'')))"

subsection \<open>What it relies on\<close>

text \<open>\<open>encoding/json\<close> replaces bytes that are not UTF-8; anything else survives the round trip.\<close>

definition json_roundtrip :: "HttpLib \<Rightarrow> bool" where
  "json_roundtrip H \<longleftrightarrow>
     (\<forall>sr. ValidString (sr_Body sr) \<longrightarrow> ValidString (sr_ContentType sr) \<longrightarrow>
        (\<exists>b. hl_Marshal H sr = Some b \<and> hl_Unmarshal H b = Some sr))"

text \<open>A store that answers (hit or miss) rather than failing.\<close>

definition answers :: "cache_error + string \<Rightarrow> bool" where
  "answers reply \<longleftrightarrow> (\<forall>e. reply \<noteq> Inl (CacheErr e))"

subsection \<open>Concurrent requests\<close>

text \<open>
  A request is between two accesses to the store: arrived, past a lookup that missed, past its
  handler, or finished. The middlewares of different requests interleave at these points.
\<close>

datatype idem_thread =
    Arrived GinCtx
  | Missed GinCtx
  | Unguarded GinCtx
  | Ran GinCtx GinCtx
  | Finished GinCtx

fun idem_advance ::
  "HttpLib \<Rightarrow> (string \<Rightarrow> string \<Rightarrow> 'w \<Rightarrow> cache_error + string) \<Rightarrow>
   (string \<Rightarrow> string \<Rightarrow> string \<Rightarrow> int \<Rightarrow> 'w \<Rightarrow> string option \<times> 'w) \<Rightarrow> int \<Rightarrow> 'w emitter \<Rightarrow>
   'w handler \<Rightarrow> idem_thread \<Rightarrow> 'w \<Rightarrow> idem_thread \<times> 'w" where
  "idem_advance H get put ttl emit next (Arrived c) w =
     (case idem_lookup H get emit c w of
        (Answer c', w') \<Rightarrow> (Finished c', w')
      | (Degrade, w') \<Rightarrow> (Unguarded c, w')
      | (Execute, w') \<Rightarrow> (Missed c, w'))"
| "idem_advance H get put ttl emit next (Missed c) w =
     (case next c w of (c', w') \<Rightarrow> (Ran c c', w'))"
| "idem_advance H get put ttl emit next (Unguarded c) w =
     (case next c w of (c', w') \<Rightarrow> (Finished c', w'))"
| "idem_advance H get put ttl emit next (Ran c c') w =
     (Finished c', idem_store H put ttl emit c c' w)"
| "idem_advance H get put ttl emit next (Finished c) w = (Finished c, w)"

text \<open>The requests in flight, by position, and a schedule of which one moves.\<close>

fun idem_schedule ::
  "(idem_thread \<Rightarrow> 'w \<Rightarrow> idem_thread \<times> 'w) \<Rightarrow> nat list \<Rightarrow> idem_thread list \<times> 'w \<Rightarrow>
   idem_thread list \<times> 'w" where
  "idem_schedule adv [] s = s"
| "idem_schedule adv (i # is) (ts, w) =
     (if i < length ts
      then (case adv (ts ! i) w of (t', w') \<Rightarrow> idem_schedule adv is (ts[i := t'], w'))
      else idem_schedule adv is (ts, w))"

section \<open>The interface of the store\<close>

locale response_cache =
  fixes get :: "string \<Rightarrow> string \<Rightarrow> 'w \<Rightarrow> cache_error + string"
    and put :: "string \<Rightarrow> string \<Rightarrow> string \<Rightarrow> int \<Rightarrow> 'w \<Rightarrow> string option \<times> 'w"
    and slot :: "string \<Rightarrow> string \<Rightarrow> string"
    and inv :: "'w \<Rightarrow> bool"
  assumes put_get: "inv w \<Longrightarrow> put t x v ttl w = (None, w') \<Longrightarrow> 0 < ttl \<Longrightarrow>
        slot t' x' = slot t x \<Longrightarrow> answers (get t' x' w') \<Longrightarrow> get t' x' w' = Inr v"
    and put_other: "inv w \<Longrightarrow> put t x v ttl w = (e, w') \<Longrightarrow> slot t' x' \<noteq> slot t x \<Longrightarrow>
        answers (get t' x' w') \<Longrightarrow> get t' x' w' = get t' x' w"
    and put_inv: "inv w \<Longrightarrow> inv (snd (put t x v ttl w))"

section \<open>Lemmas\<close>

lemma replay_simps [simp]:
  "c_Status (replay sr c) = sr_Status sr" "c_Aborted (replay sr c)"
  "c_Header (replay sr c) = (c_Header c)(''Idempotent-Replay'' \<mapsto> ''true'')"
  "c_Written (replay sr c) = c_Written c @ [BodyData (sr_ContentType sr) (sr_Body sr)]"
  by (simp_all add: replay_def)

lemma captured_fresh: "c_Written c = [] \<Longrightarrow> captured H c c' = response_bytes H c'"
  by (simp add: captured_def response_bytes_def)

lemma response_bytes_replay:
  "c_Written c = [] \<Longrightarrow> response_bytes H (replay sr c) = sr_Body sr"
  by (simp add: response_bytes_def)

lemma content_type_replay:
  "c_Written c = [] \<Longrightarrow> c_Header c ''Content-Type'' = None \<Longrightarrow>
   content_type H (replay sr c) = sr_ContentType sr"
  by (simp add: content_type_def)

lemma Idempotency_no_key:
  "GetHeader c HeaderIdempotencyKey = '''' \<Longrightarrow>
   Idempotency H get put ttl emit next c w =
     (Abort 400 CodeIdempotency ''Idempotency-Key header is required for this endpoint'' c, w)"
  by (simp add: Idempotency_def idem_lookup_def)

lemma Idempotency_hit:
  assumes "GetHeader c HeaderIdempotencyKey \<noteq> ''''" and "FromGin c = Some actor"
    and "get (id_TenantID actor) (idem_suffix c) w = Inr v" and "hl_Unmarshal H v = Some sr"
  shows "Idempotency H get put ttl emit next c w = (replay sr c, w)"
  using assms by (simp add: Idempotency_def idem_lookup_def)

lemma Idempotency_miss:
  assumes "GetHeader c HeaderIdempotencyKey \<noteq> ''''" and "FromGin c = Some actor"
    and "get (id_TenantID actor) (idem_suffix c) w = Inl ErrCacheMiss"
  shows "Idempotency H get put ttl emit next c w =
    (case next c w of (c', w') \<Rightarrow> (c', idem_store H put ttl emit c c' w'))"
  using assms by (simp add: Idempotency_def idem_lookup_def)

lemma Idempotency_down:
  assumes "GetHeader c HeaderIdempotencyKey \<noteq> ''''" and "FromGin c = Some actor"
    and "get (id_TenantID actor) (idem_suffix c) w = Inl (CacheErr e)"
  shows "Idempotency H get put ttl emit next c w =
    next c (emit (logger_FromContext (c_Context c)) LevelWarn
       ''idempotency store unavailable, proceeding without dedup''
       [(''error'', AStr e), (''tenant_id'', AStr (id_TenantID actor))] w)"
  using assms by (simp add: Idempotency_def idem_lookup_def)

text \<open>A server error is never stored, so a retry runs again.\<close>

lemma idem_store_5xx: "500 \<le> c_Status c' \<Longrightarrow> idem_store H put ttl emit c c' w = w"
  by (simp add: idem_store_def Let_def split: option.splits)

text \<open>A single request left alone goes through the middleware as written.\<close>

lemma idem_schedule_alone:
  assumes "Idempotency H get put ttl emit next c w = (c', w')"
  shows "idem_schedule (idem_advance H get put ttl emit next) [0, 0, 0] ([Arrived c], w) =
         ([Finished c'], w')"
  using assms by (auto simp: Idempotency_def split: prod.splits idem_outcome.splits)

context response_cache
begin

text \<open>
  The retry: once a response was stored, a request for the same tenant, route and key is
  answered with its status, bytes and content type, and the chain behind is not run: the result
  does not depend on \<open>next'\<close> and the world is unchanged.
\<close>

lemma retry_replays:
  assumes H: "json_roundtrip H" and "inv w1" and ttl: "0 < ttl"
    and key: "GetHeader c HeaderIdempotencyKey \<noteq> ''''" and actor: "FromGin c = Some actor"
    and run: "next c w = (c', w1)" and status: "200 \<le> c_Status c'" "c_Status c' < 500"
    and valid: "ValidString (captured H c c')" "ValidString (content_type H c')"
    and stored: "\<And>v. fst (put (id_TenantID actor) (idem_suffix c) v ttl w1) = None"
    and miss: "get (id_TenantID actor) (idem_suffix c) w = Inl ErrCacheMiss"
    and first: "Idempotency H get put ttl emit next c w = (r1, w2)"
    and retry: "FromGin d = Some actor'" "GetHeader d HeaderIdempotencyKey \<noteq> ''''"
      "slot (id_TenantID actor') (idem_suffix d) = slot (id_TenantID actor) (idem_suffix c)"
    and up: "answers (get (id_TenantID actor') (idem_suffix d) w2)"
  shows "r1 = c' \<and> Idempotency H get put ttl emit next' d w2 =
    (replay \<lparr>sr_Status = c_Status c', sr_Body = captured H c c',
             sr_ContentType = content_type H c'\<rparr> d, w2)"
proof -
  let ?sr = "\<lparr>sr_Status = c_Status c', sr_Body = captured H c c', sr_ContentType = content_type H c'\<rparr>"
  obtain b where b: "hl_Marshal H ?sr = Some b" "hl_Unmarshal H b = Some ?sr"
    using H valid unfolding json_roundtrip_def by (metis storedResponse.select_convs(2,3))
  have *: "r1 = c' \<and> w2 = idem_store H put ttl emit c c' w1"
    using first run Idempotency_miss [OF key actor, of get w H put ttl emit "next"] miss by auto
  obtain w3 where put: "put (id_TenantID actor) (idem_suffix c) b ttl w1 = (None, w3)"
    using stored by (metis prod.exhaust_sel)
  have "w2 = w3"
    using * put actor status b by (simp add: idem_store_def Let_def)
  then have "get (id_TenantID actor') (idem_suffix d) w2 = Inr b"
    using put_get [OF \<open>inv w1\<close> put ttl retry(3)] up by simp
  with * Idempotency_hit [where get = get, OF retry(2,1) this b(2)] show ?thesis by simp
qed

text \<open>Storing a response leaves every other slot alone.\<close>

lemma store_other_slot:
  assumes "inv w" and "FromGin c = Some actor"
    and "slot t x \<noteq> slot (id_TenantID actor) (idem_suffix c)"
    and "\<And>lg l m as w. get t x (emit lg l m as w) = get t x w"
    and "answers (get t x (idem_store H put ttl emit c c' w))"
  shows "get t x (idem_store H put ttl emit c c' w) = get t x w"
  using assms put_other [OF assms(1) _ assms(3)]
  by (auto simp: idem_store_def Let_def split: option.splits prod.splits if_splits)

end

section \<open>Redis provides it\<close>

text \<open>The wrapper as a value: the client and the server behind it.\<close>

definition redis_get :: "string \<Rightarrow> string \<Rightarrow> 'r RedisClient \<times> 'r \<Rightarrow> cache_error + string" where
  "redis_get t x s = Redis_Get (fst s) t x (snd s)"

definition redis_set ::
  "string \<Rightarrow> string \<Rightarrow> string \<Rightarrow> int \<Rightarrow> 'r RedisClient \<times> 'r \<Rightarrow> string option \<times> 'r RedisClient \<times> 'r" where
  "redis_set t x v ttl s = (case Redis_Set (fst s) t x v ttl (snd s) of (e, r) \<Rightarrow> (e, fst s, r))"

lemma Redis_Get_answers: "answers (Redis_Get C t x r) \<longleftrightarrow> (\<forall>e. rc_Get C (Key t x) r \<noteq> RErr e)"
  by (auto simp: answers_def Redis_Get_def split: redis_reply.splits)

interpretation redis_cache: response_cache redis_get redis_set Key "\<lambda>s. redis_reads_back (fst s)"
proof
  fix s :: "'r RedisClient \<times> 'r" and t x v ttl s' t' x'
  assume *: "redis_reads_back (fst s)" "redis_set t x v ttl s = (None, s')" "0 < ttl"
    "Key t' x' = Key t x" "answers (redis_get t' x' s')"
  then have "rc_Set (fst s) (Key t x) v ttl (snd s) = (None, snd s')" "fst s' = fst s"
    by (auto simp: redis_set_def Redis_Set_def split: prod.splits)
  with * have "rc_Get (fst s) (Key t x) (snd s') = RVal v"
    unfolding redis_reads_back_def redis_get_def Redis_Get_answers by metis
  with * \<open>fst s' = fst s\<close> show "redis_get t' x' s' = Inr v"
    by (simp add: redis_get_def Redis_Get_def)
next
  fix s :: "'r RedisClient \<times> 'r" and t x v ttl e s' t' x'
  assume *: "redis_reads_back (fst s)" "redis_set t x v ttl s = (e, s')" "Key t' x' \<noteq> Key t x"
    "answers (redis_get t' x' s')"
  then have put: "rc_Set (fst s) (Key t x) v ttl (snd s) = (e, snd s')" "fst s' = fst s"
    by (auto simp: redis_set_def Redis_Set_def split: prod.splits)
  with * have "rc_Get (fst s) (Key t' x') (snd s') = rc_Get (fst s) (Key t' x') (snd s)"
    unfolding redis_reads_back_def redis_get_def Redis_Get_answers by metis
  with put show "redis_get t' x' s' = redis_get t' x' s"
    by (simp add: redis_get_def Redis_Get_def)
next
  fix s :: "'r RedisClient \<times> 'r" and t x v ttl
  assume "redis_reads_back (fst s)"
  then show "redis_reads_back (fst (snd (redis_set t x v ttl s)))"
    by (simp add: redis_set_def split: prod.splits)
qed

end
