(* ===== verification/Api_Key_Store.thy ===== *)
theory Api_Key_Store
  imports Api_Key
begin

text \<open>
  The Postgres key store of \<open>internal/auth/apikey_postgres.go\<close> over the schema of
  \<open>db/migrations\<close>. The table \<open>api_keys\<close> is a list of rows; each SQL statement in the source is
  translated to the operation on rows it denotes, with the constraints the migration declares
  (primary key, unique hash, tenant reference, uuid and text columns). What the database
  decides (connection failures, \<open>now()\<close>, \<open>gen_random_uuid()\<close>, how it reads uuids and times,
  the order of ties) is an argument.
\<close>

section \<open>Definitions\<close>

subsection \<open>Tables and statements\<close>

record ApiKeyRow =
  row_id :: string
  row_tenant_id :: string
  row_name :: string
  row_key_hash :: string
  row_key_prefix :: string
  row_role :: string
  row_region :: "string option"
  row_supplier_id :: "string option"
  row_created_at :: int
  row_last_used_at :: "int option"
  row_expires_at :: "int option"
  row_revoked_at :: "int option"

record Db =
  db_tenants :: "string list"
  db_api_keys :: "ApiKeyRow list"

datatype pg_violation = BadUuid | BadText | UniqueViolation | ForeignKeyViolation

text \<open>
  Fixed behaviour of the libraries and the server: the digest, how a text is read as a uuid
  (in canonical form), the precision of a timestamp column, an ordering of rows by creation
  time, newest first, and the text of an error.
\<close>

record KeyLib =
  kl_sha256 :: "byte list \<Rightarrow> byte list"
  kl_uuid :: "string \<Rightarrow> string option"
  kl_timestamptz :: "int \<Rightarrow> int"
  kl_order :: "ApiKeyRow list \<Rightarrow> ApiKeyRow list"
  kl_message :: "pg_violation \<Rightarrow> string"

text \<open>A statement may fail before it takes effect, or its confirmation may be lost after.\<close>

datatype fault = NoFault | FailBefore string | FailAfter string

text \<open>What one call meets: faults by statement, the two clocks, a fresh id, entropy.\<close>

record PgEnv =
  pg_fault :: "nat \<Rightarrow> fault"
  pg_now :: int
  pg_clock :: int
  pg_new_id :: string
  pg_rand :: "string + byte list"

definition query :: "fault \<Rightarrow> string + 'a \<Rightarrow> string + 'a" where
  "query f r = (case f of NoFault \<Rightarrow> r | FailBefore m \<Rightarrow> Inl m | FailAfter m \<Rightarrow> Inl m)"

text \<open>A single statement outside a transaction commits by itself.\<close>

definition exec :: "fault \<Rightarrow> string + ('a \<times> Db) \<Rightarrow> Db \<Rightarrow> (string + 'a) \<times> Db" where
  "exec f r db =
     (case f of
        NoFault \<Rightarrow> (case r of Inl m \<Rightarrow> (Inl m, db) | Inr (x, db') \<Rightarrow> (Inr x, db'))
      | FailBefore m \<Rightarrow> (Inl m, db)
      | FailAfter m \<Rightarrow> (Inl m, case r of Inl _ \<Rightarrow> db | Inr (_, db') \<Rightarrow> db'))"

text \<open>A text column takes valid UTF-8 without the zero byte.\<close>

definition text_ok :: "string \<Rightarrow> bool" where
  "text_ok s \<longleftrightarrow> ValidString s \<and> CHR 0x00 \<notin> set s"

definition opt_text_ok :: "string option \<Rightarrow> bool" where
  "opt_text_ok s = (case s of None \<Rightarrow> True | Some t \<Rightarrow> text_ok t)"

definition select_by_hash :: "string \<Rightarrow> Db \<Rightarrow> ApiKeyRow option" where
  "select_by_hash h db = List.find (\<lambda>r. row_key_hash r = h) (db_api_keys db)"

definition update_rows :: "(ApiKeyRow \<Rightarrow> bool) \<Rightarrow> (ApiKeyRow \<Rightarrow> ApiKeyRow) \<Rightarrow> Db \<Rightarrow> Db" where
  "update_rows P f db = db\<lparr>db_api_keys := map (\<lambda>r. if P r then f r else r) (db_api_keys db)\<rparr>"

definition insert_row :: "KeyLib \<Rightarrow> ApiKeyRow \<Rightarrow> Db \<Rightarrow> string + Db" where
  "insert_row K r db =
     (case kl_uuid K (row_tenant_id r) of
        None \<Rightarrow> Inl (kl_message K BadUuid)
      | Some tenant \<Rightarrow>
          (if \<not> (text_ok (row_name r) \<and> text_ok (row_role r) \<and>
                opt_text_ok (row_region r) \<and> opt_text_ok (row_supplier_id r))
           then Inl (kl_message K BadText)
           else if row_id r \<in> set (map row_id (db_api_keys db)) \<or>
                   row_key_hash r \<in> set (map row_key_hash (db_api_keys db))
           then Inl (kl_message K UniqueViolation)
           else if tenant \<notin> set (db_tenants db) then Inl (kl_message K ForeignKeyViolation)
           else Inr (db\<lparr>db_api_keys := db_api_keys db @
                  [r\<lparr>row_tenant_id := tenant,
                     row_expires_at := map_option (kl_timestamptz K) (row_expires_at r)\<rparr>]\<rparr>)))"

subsection \<open>apikey_postgres.go\<close>

definition nullify :: "string \<Rightarrow> string option" where
  "nullify s = (if s = '''' then None else Some s)"

definition deref :: "string option \<Rightarrow> string" where
  "deref s = (case s of None \<Rightarrow> '''' | Some t \<Rightarrow> t)"

definition Resolve ::
  "KeyLib \<Rightarrow> PgEnv \<Rightarrow> string \<Rightarrow> Db \<Rightarrow> (auth_error + Identity) \<times> Db" where
  "Resolve K env presentedKey db =
     (let hash = hashAPIKey (kl_sha256 K) presentedKey in
      case query (pg_fault env 0) (Inr (select_by_hash hash db)) of
        Inl err \<Rightarrow> (Inl (ErrOther (''resolve api key: '' @ err)), db)
      | Inr None \<Rightarrow> (Inl ErrKeyNotFound, db)
      | Inr (Some row) \<Rightarrow>
          (if \<not> constantTimeEqual hash (row_key_hash row) then (Inl ErrKeyNotFound, db)
           else if row_revoked_at row \<noteq> None then (Inl ErrKeyRevoked, db)
           else if (case row_expires_at row of
                      None \<Rightarrow> False
                    | Some expiresAt \<Rightarrow> \<not> pg_clock env < expiresAt) then (Inl ErrKeyExpired, db)
           else if \<not> Valid (row_role row) then (Inl ErrKeyNotFound, db)
           else
             (let db' = snd (exec (pg_fault env 1)
                    (Inr ((), update_rows (\<lambda>r. row_id r = row_id row)
                               (\<lambda>r. r\<lparr>row_last_used_at := Some (pg_now env)\<rparr>) db)) db)
              in (Inr \<lparr>id_TenantID = row_tenant_id row,
                       id_UserID = row_id row,
                       id_Role = row_role row,
                       id_Region = deref (row_region row),
                       id_SupplierID = deref (row_supplier_id row)\<rparr>, db'))))"

definition Create ::
  "KeyLib \<Rightarrow> PgEnv \<Rightarrow> CreateAPIKeySpec \<Rightarrow> Db \<Rightarrow> (auth_error + (APIKey \<times> string)) \<times> Db" where
  "Create K env spec db =
     (if spec_TenantID spec = '''' \<or> \<not> Valid (spec_Role spec)
      then (Inl (ErrInvalidToken ''tenant_id and a valid role are required''), db)
      else case generateAPIKey (kl_sha256 K) (pg_rand env) of
        Inl err \<Rightarrow> (Inl err, db)
      | Inr (plaintext, hash, prefix) \<Rightarrow>
          (case exec (pg_fault env 0)
                 (map_sum id (\<lambda>db'. ((), db')) (insert_row K
                   \<lparr>row_id = pg_new_id env, row_tenant_id = spec_TenantID spec,
                    row_name = spec_Name spec, row_key_hash = hash, row_key_prefix = prefix,
                    row_role = spec_Role spec, row_region = nullify (spec_Region spec),
                    row_supplier_id = nullify (spec_SupplierID spec),
                    row_created_at = pg_now env, row_last_used_at = None,
                    row_expires_at = spec_ExpiresAt spec, row_revoked_at = None\<rparr> db)) db of
             (Inl err, db') \<Rightarrow> (Inl (ErrOther (''insert api key: '' @ err)), db')
           | (Inr _, db') \<Rightarrow>
               (Inr (\<lparr>key_ID = pg_new_id env, key_TenantID = spec_TenantID spec,
                      key_Name = spec_Name spec, key_KeyPrefix = prefix,
                      key_Role = spec_Role spec, key_Region = spec_Region spec,
                      key_SupplierID = spec_SupplierID spec, key_CreatedAt = pg_now env,
                      key_LastUsedAt = None, key_ExpiresAt = spec_ExpiresAt spec,
                      key_RevokedAt = None\<rparr>, plaintext), db')))"

text \<open>The query that finds a key of a tenant: both parameters are read as uuids.\<close>

definition select_owned :: "KeyLib \<Rightarrow> string \<Rightarrow> string \<Rightarrow> Db \<Rightarrow> string + ApiKeyRow option" where
  "select_owned K tenantID keyID db =
     (case (kl_uuid K keyID, kl_uuid K tenantID) of
        (Some i, Some t) \<Rightarrow>
          Inr (List.find (\<lambda>r. row_id r = i \<and> row_tenant_id r = t) (db_api_keys db))
      | _ \<Rightarrow> Inl (kl_message K BadUuid))"

text \<open>
  The transaction of \<open>Rotate\<close>: an early return rolls back, so the table is the one at the
  start unless the commit took effect.
\<close>

definition Rotate ::
  "KeyLib \<Rightarrow> PgEnv \<Rightarrow> string \<Rightarrow> string \<Rightarrow> Db \<Rightarrow> (auth_error + (APIKey \<times> string)) \<times> Db" where
  "Rotate K env tenantID keyID db =
     (case query (pg_fault env 0) (Inr ()) of
        Inl err \<Rightarrow> (Inl (ErrOther (''begin rotate: '' @ err)), db)
      | Inr _ \<Rightarrow>
     (case query (pg_fault env 1) (select_owned K tenantID keyID db) of
        Inl err \<Rightarrow> (Inl (ErrOther (''load key for rotate: '' @ err)), db)
      | Inr None \<Rightarrow> (Inl ErrKeyNotFound, db)
      | Inr (Some row) \<Rightarrow>
     (if row_revoked_at row \<noteq> None then (Inl ErrKeyRevoked, db)
      else
     (case query (pg_fault env 2)
             (Inr (update_rows (\<lambda>r. Some (row_id r) = kl_uuid K keyID)
                     (\<lambda>r. r\<lparr>row_revoked_at := Some (pg_now env)\<rparr>) db)) of
        Inl err \<Rightarrow> (Inl (ErrOther (''revoke old key: '' @ err)), db)
      | Inr db1 \<Rightarrow>
     (case generateAPIKey (kl_sha256 K) (pg_rand env) of
        Inl err \<Rightarrow> (Inl err, db)
      | Inr (plaintext, hash, prefix) \<Rightarrow>
     (case query (pg_fault env 3) (insert_row K
             \<lparr>row_id = pg_new_id env, row_tenant_id = tenantID, row_name = row_name row,
              row_key_hash = hash, row_key_prefix = prefix, row_role = row_role row,
              row_region = row_region row, row_supplier_id = row_supplier_id row,
              row_created_at = pg_now env, row_last_used_at = None,
              row_expires_at = row_expires_at row, row_revoked_at = None\<rparr> db1) of
        Inl err \<Rightarrow> (Inl (ErrOther (''insert rotated key: '' @ err)), db)
      | Inr db2 \<Rightarrow>
     (case exec (pg_fault env 4) (Inr ((), db2)) db of
        (Inl err, db3) \<Rightarrow> (Inl (ErrOther (''commit rotate: '' @ err)), db3)
      | (Inr _, db3) \<Rightarrow>
          (Inr (\<lparr>key_ID = pg_new_id env, key_TenantID = tenantID, key_Name = row_name row,
                 key_KeyPrefix = prefix, key_Role = row_role row,
                 key_Region = deref (row_region row), key_SupplierID = deref (row_supplier_id row),
                 key_CreatedAt = pg_now env, key_LastUsedAt = None,
                 key_ExpiresAt = row_expires_at row, key_RevokedAt = None\<rparr>, plaintext), db3))))))))"

definition revoke_where :: "string \<Rightarrow> string \<Rightarrow> ApiKeyRow \<Rightarrow> bool" where
  "revoke_where i t r \<longleftrightarrow> row_id r = i \<and> row_tenant_id r = t \<and> row_revoked_at r = None"

definition Revoke ::
  "KeyLib \<Rightarrow> PgEnv \<Rightarrow> string \<Rightarrow> string \<Rightarrow> Db \<Rightarrow> auth_error option \<times> Db" where
  "Revoke K env tenantID keyID db =
     (case exec (pg_fault env 0)
             (case (kl_uuid K keyID, kl_uuid K tenantID) of
                (Some i, Some t) \<Rightarrow>
                  Inr (length (filter (revoke_where i t) (db_api_keys db)),
                       update_rows (revoke_where i t)
                         (\<lambda>r. r\<lparr>row_revoked_at := Some (pg_now env)\<rparr>) db)
              | _ \<Rightarrow> Inl (kl_message K BadUuid)) db of
        (Inl err, db') \<Rightarrow> (Some (ErrOther (''revoke api key: '' @ err)), db')
      | (Inr rowsAffected, db') \<Rightarrow>
          (if rowsAffected = 0 then (Some ErrKeyNotFound, db') else (None, db')))"

definition key_of_row :: "string \<Rightarrow> ApiKeyRow \<Rightarrow> APIKey" where
  "key_of_row tenantID r =
     \<lparr>key_ID = row_id r, key_TenantID = tenantID, key_Name = row_name r,
      key_KeyPrefix = row_key_prefix r, key_Role = row_role r, key_Region = deref (row_region r),
      key_SupplierID = deref (row_supplier_id r), key_CreatedAt = row_created_at r,
      key_LastUsedAt = row_last_used_at r, key_ExpiresAt = row_expires_at r,
      key_RevokedAt = row_revoked_at r\<rparr>"

text \<open>
  \<open>List\<close> fails on the query, on the \<open>Scan\<close> of a row, or on \<open>rows.Err()\<close> after the loop (the
  faults 0, 2 and up, and 1).
\<close>

fun scan_rows ::
  "(nat \<Rightarrow> fault) \<Rightarrow> string \<Rightarrow> nat \<Rightarrow> ApiKeyRow list \<Rightarrow> APIKey list \<Rightarrow> auth_error + APIKey list" where
  "scan_rows fault tenantID n [] out = Inr out"
| "scan_rows fault tenantID n (r # rs) out =
     (case query (fault n) (Inr r) of
        Inl err \<Rightarrow> Inl (ErrOther (''scan api key: '' @ err))
      | Inr row \<Rightarrow> scan_rows fault tenantID (Suc n) rs (out @ [key_of_row tenantID row]))"

definition List_keys :: "KeyLib \<Rightarrow> PgEnv \<Rightarrow> string \<Rightarrow> Db \<Rightarrow> auth_error + APIKey list" where
  "List_keys K env tenantID db =
     (case query (pg_fault env 0)
             (case kl_uuid K tenantID of
                None \<Rightarrow> Inl (kl_message K BadUuid)
              | Some t \<Rightarrow> Inr (kl_order K (filter (\<lambda>r. row_tenant_id r = t) (db_api_keys db)))) of
        Inl err \<Rightarrow> Inl (ErrOther (''list api keys: '' @ err))
      | Inr rows \<Rightarrow>
          (case scan_rows (pg_fault env) tenantID 2 rows [] of
             Inl err \<Rightarrow> Inl err
           | Inr out \<Rightarrow>
               (case query (pg_fault env 1) (Inr out) of
                  Inl err \<Rightarrow> Inl (ErrOther err)
                | Inr keys \<Rightarrow> Inr keys)))"

subsection \<open>Invariant and evolution\<close>

definition db_ok :: "Db \<Rightarrow> bool" where
  "db_ok db \<longleftrightarrow> distinct (map row_id (db_api_keys db)) \<and>
     distinct (map row_key_hash (db_api_keys db)) \<and>
     (\<forall>r \<in> set (db_api_keys db). row_tenant_id r \<in> set (db_tenants db) \<and> Valid (row_role r))"

text \<open>
  What the store never changes of a row; a revocation is never lifted or moved.
\<close>

definition row_evolves :: "ApiKeyRow \<Rightarrow> ApiKeyRow \<Rightarrow> bool" where
  "row_evolves r r' \<longleftrightarrow>
     r' = r\<lparr>row_last_used_at := row_last_used_at r', row_revoked_at := row_revoked_at r'\<rparr> \<and>
     (row_revoked_at r \<noteq> None \<longrightarrow> row_revoked_at r' = row_revoked_at r)"

definition evolves :: "Db \<Rightarrow> Db \<Rightarrow> bool" where
  "evolves db db' \<longleftrightarrow> db_tenants db' = db_tenants db \<and>
     (\<exists>f new. db_api_keys db' = map f (db_api_keys db) @ new \<and>
        (\<forall>r \<in> set (db_api_keys db). row_evolves r (f r)))"

definition live :: "ApiKeyRow \<Rightarrow> bool" where
  "live r \<longleftrightarrow> row_revoked_at r = None"

text \<open>The rows of a tenant.\<close>

definition tenant_rows :: "string \<Rightarrow> Db \<Rightarrow> ApiKeyRow list" where
  "tenant_rows t db = filter (\<lambda>r. row_tenant_id r = t) (db_api_keys db)"

text \<open>The life of a key table: any sequence of store calls, in any environment.\<close>

inductive store_step :: "KeyLib \<Rightarrow> Db \<Rightarrow> Db \<Rightarrow> bool" for K where
  step_Resolve: "store_step K db (snd (Resolve K env k db))"
| step_Create: "store_step K db (snd (Create K env spec db))"
| step_Rotate: "store_step K db (snd (Rotate K env t i db))"
| step_Revoke: "store_step K db (snd (Revoke K env t i db))"

inductive store_reach :: "KeyLib \<Rightarrow> Db \<Rightarrow> Db \<Rightarrow> bool" for K where
  reach_refl: "store_reach K db db"
| reach_step: "store_reach K db db' \<Longrightarrow> store_step K db' db'' \<Longrightarrow> store_reach K db db''"

definition initial_db :: "string list \<Rightarrow> Db" where
  "initial_db tenants = \<lparr>db_tenants = tenants, db_api_keys = []\<rparr>"

section \<open>Lemmas\<close>

subsection \<open>Statements\<close>

lemma query_Inr: "query f r = Inr x \<longleftrightarrow> f = NoFault \<and> r = Inr x"
  by (simp add: query_def split: fault.splits)

lemma query_NoFault [simp]: "query NoFault r = r"
  by (simp add: query_def)

lemma exec_NoFault [simp]: "exec NoFault (Inr (x, db')) db = (Inr x, db')"
  by (simp add: exec_def)

lemma exec_snd: "snd (exec f r db) = db \<or> (\<exists>x. r = Inr (x, snd (exec f r db)))"
  by (auto simp: exec_def split: fault.splits sum.splits prod.splits)

lemma exec_Inr: "exec f r db = (Inr x, db') \<Longrightarrow> f = NoFault \<and> r = Inr (x, db')"
  by (auto simp: exec_def split: fault.splits sum.splits prod.splits)

lemma insert_row_Inr:
  assumes "insert_row K r db = Inr db'"
  obtains t where "kl_uuid K (row_tenant_id r) = Some t" and "t \<in> set (db_tenants db)"
    and "row_id r \<notin> set (map row_id (db_api_keys db))"
    and "row_key_hash r \<notin> set (map row_key_hash (db_api_keys db))"
    and "db' = db\<lparr>db_api_keys := db_api_keys db @
           [r\<lparr>row_tenant_id := t, row_expires_at := map_option (kl_timestamptz K) (row_expires_at r)\<rparr>]\<rparr>"
  using assms by (auto simp: insert_row_def split: option.splits if_splits)

lemma update_rows_simps [simp]:
  "db_tenants (update_rows P f db) = db_tenants db"
  "db_api_keys (update_rows P f db) = map (\<lambda>r. if P r then f r else r) (db_api_keys db)"
  by (simp_all add: update_rows_def)

lemma select_by_hash_SomeD:
  "select_by_hash h db = Some r \<Longrightarrow> r \<in> set (db_api_keys db) \<and> row_key_hash r = h"
  by (auto simp: select_by_hash_def dest: find_Some_conv)

lemma select_owned_SomeD:
  "select_owned K t i db = Inr (Some r) \<Longrightarrow>
   r \<in> set (db_api_keys db) \<and> kl_uuid K i = Some (row_id r) \<and> kl_uuid K t = Some (row_tenant_id r)"
  by (auto simp: select_owned_def split: option.splits dest: find_Some_conv)

lemma distinct_find_unique:
  "distinct (map f xs) \<Longrightarrow> x \<in> set xs \<Longrightarrow> List.find (\<lambda>r. f r = f x) xs = Some x"
proof (induction xs)
  case Nil
  then show ?case by simp
next
  case (Cons a xs)
  then show ?case
    by (cases "f a = f x") (auto simp: rev_image_eqI)
qed

lemma select_by_hash_unique:
  "db_ok db \<Longrightarrow> r \<in> set (db_api_keys db) \<Longrightarrow> select_by_hash (row_key_hash r) db = Some r"
  unfolding select_by_hash_def db_ok_def by (rule distinct_find_unique) auto

lemma db_ok_id_unique:
  "db_ok db \<Longrightarrow> r \<in> set (db_api_keys db) \<Longrightarrow> s \<in> set (db_api_keys db) \<Longrightarrow> row_id r = row_id s \<Longrightarrow> r = s"
  by (auto simp: db_ok_def distinct_map dest: inj_onD)

subsection \<open>What each call does to the table\<close>

lemma Resolve_db:
  "snd (Resolve K env k db) = db \<or>
   (\<exists>i. snd (Resolve K env k db) =
      update_rows (\<lambda>r. row_id r = i) (\<lambda>r. r\<lparr>row_last_used_at := Some (pg_now env)\<rparr>) db)"
proof (cases "query (pg_fault env 0) (Inr (select_by_hash (hashAPIKey (kl_sha256 K) k) db))")
  case (Inl e)
  then show ?thesis by (simp add: Resolve_def Let_def)
next
  case (Inr o_row)
  show ?thesis
  proof (cases o_row)
    case None
    with Inr show ?thesis by (simp add: Resolve_def Let_def)
  next
    case (Some row)
    let ?u = "update_rows (\<lambda>r. row_id r = row_id row)
                (\<lambda>r. r\<lparr>row_last_used_at := Some (pg_now env)\<rparr>) db"
    have "snd (exec (pg_fault env 1) (Inr ((), ?u)) db) = db \<or>
          snd (exec (pg_fault env 1) (Inr ((), ?u)) db) = ?u"
      using exec_snd [of "pg_fault env 1" "Inr ((), ?u)" db] by auto
    with Inr Some show ?thesis
      by (auto simp: Resolve_def Let_def)
  qed
qed

lemma Resolve_InrD:
  assumes "Resolve K env k db = (Inr i, db')"
  obtains row where "select_by_hash (hashAPIKey (kl_sha256 K) k) db = Some row"
    and "row_revoked_at row = None"
    and "\<forall>x. row_expires_at row = Some x \<longrightarrow> pg_clock env < x"
    and "Valid (row_role row)" and "pg_fault env 0 = NoFault"
    and "i = \<lparr>id_TenantID = row_tenant_id row, id_UserID = row_id row, id_Role = row_role row,
           id_Region = deref (row_region row), id_SupplierID = deref (row_supplier_id row)\<rparr>"
  using assms
  by (auto simp: Resolve_def Let_def query_Inr split: sum.splits option.splits if_splits)

lemma Create_db:
  "snd (Create K env spec db) = db \<or>
   (\<exists>r. insert_row K r db = Inr (snd (Create K env spec db)) \<and>
      row_tenant_id r = spec_TenantID spec \<and> Valid (row_role r) \<and> row_revoked_at r = None)"
proof (cases "spec_TenantID spec = '''' \<or> \<not> Valid (spec_Role spec)")
  case True
  then show ?thesis by (simp add: Create_def)
next
  case ok: False
  show ?thesis
  proof (cases "generateAPIKey (kl_sha256 K) (pg_rand env)")
    case (Inl e)
    with ok show ?thesis by (simp add: Create_def)
  next
    case (Inr m)
    obtain plain hash prefix where m: "m = (plain, hash, prefix)" by (cases m)
    let ?r = "\<lparr>row_id = pg_new_id env, row_tenant_id = spec_TenantID spec,
                    row_name = spec_Name spec, row_key_hash = hash, row_key_prefix = prefix,
                    row_role = spec_Role spec, row_region = nullify (spec_Region spec),
                    row_supplier_id = nullify (spec_SupplierID spec),
                    row_created_at = pg_now env, row_last_used_at = None,
                    row_expires_at = spec_ExpiresAt spec, row_revoked_at = None\<rparr>"
    let ?x = "exec (pg_fault env 0) (map_sum id (\<lambda>db'. ((), db')) (insert_row K ?r db)) db"
    have "snd (Create K env spec db) = snd ?x"
      using ok Inr m by (simp add: Create_def split: prod.splits sum.splits)
    moreover have "snd ?x = db \<or> insert_row K ?r db = Inr (snd ?x)"
      using exec_snd [of "pg_fault env 0" "map_sum id (\<lambda>db'. ((), db')) (insert_row K ?r db)" db]
      by (cases "insert_row K ?r db") auto
    moreover have "row_tenant_id ?r = spec_TenantID spec \<and> Valid (row_role ?r) \<and> row_revoked_at ?r = None"
      using ok by simp
    ultimately show ?thesis by (metis (no_types, lifting))
  qed
qed

text \<open>The table \<open>Rotate\<close> works on after revoking the old key.\<close>

abbreviation revoke_by_id :: "KeyLib \<Rightarrow> PgEnv \<Rightarrow> string \<Rightarrow> Db \<Rightarrow> Db" where
  "revoke_by_id K env i \<equiv> update_rows (\<lambda>r. Some (row_id r) = kl_uuid K i)
     (\<lambda>r. r\<lparr>row_revoked_at := Some (pg_now env)\<rparr>)"

lemma Rotate_db:
  "snd (Rotate K env t i db) = db \<or>
   (\<exists>row r. select_owned K t i db = Inr (Some row) \<and> row_revoked_at row = None \<and>
      insert_row K r (revoke_by_id K env i db) = Inr (snd (Rotate K env t i db)) \<and>
      row_tenant_id r = t \<and> row_role r = row_role row \<and> row_revoked_at r = None)"
  by (auto simp: Rotate_def query_Inr exec_def
      split: sum.splits option.splits if_splits prod.splits fault.splits)

lemma Revoke_db:
  "snd (Revoke K env t i db) = db \<or>
   (\<exists>i' t'. kl_uuid K i = Some i' \<and> kl_uuid K t = Some t' \<and>
      snd (Revoke K env t i db) =
        update_rows (revoke_where i' t') (\<lambda>r. r\<lparr>row_revoked_at := Some (pg_now env)\<rparr>) db)"
  by (auto simp: Revoke_def exec_def
      split: sum.splits option.splits if_splits prod.splits fault.splits)

subsection \<open>Evolution\<close>

lemma row_evolves_refl [simp]: "row_evolves r r"
  by (simp add: row_evolves_def)

lemma row_evolves_trans: "row_evolves a b \<Longrightarrow> row_evolves b c \<Longrightarrow> row_evolves a c"
  by (cases a, cases b, cases c) (auto simp: row_evolves_def)

lemma row_evolves_used [simp]: "row_evolves r (r\<lparr>row_last_used_at := u\<rparr>)"
  by (cases r) (simp add: row_evolves_def)

lemma row_evolves_revoke: "row_revoked_at r = None \<Longrightarrow> row_evolves r (r\<lparr>row_revoked_at := v\<rparr>)"
  by (cases r) (simp add: row_evolves_def)

lemma row_evolves_fields:
  assumes "row_evolves r r'"
  shows "row_id r' = row_id r" "row_tenant_id r' = row_tenant_id r" "row_key_hash r' = row_key_hash r"
    "row_role r' = row_role r" "row_expires_at r' = row_expires_at r"
    "row_region r' = row_region r" "row_supplier_id r' = row_supplier_id r"
    "row_revoked_at r \<noteq> None \<Longrightarrow> row_revoked_at r' = row_revoked_at r"
  using assms by (cases r, cases r', auto simp: row_evolves_def)+

lemma evolves_refl [simp]: "evolves db db"
  unfolding evolves_def by (intro conjI exI [where x = id] exI [where x = "[]"]) simp_all

lemma evolves_trans:
  assumes "evolves a b" and "evolves b c"
  shows "evolves a c"
proof -
  from assms(1) obtain f new where
    f: "db_api_keys b = map f (db_api_keys a) @ new" "\<forall>r \<in> set (db_api_keys a). row_evolves r (f r)"
    unfolding evolves_def by blast
  from assms(2) obtain g new' where
    g: "db_api_keys c = map g (db_api_keys b) @ new'" "\<forall>r \<in> set (db_api_keys b). row_evolves r (g r)"
    unfolding evolves_def by blast
  have t: "db_tenants c = db_tenants a"
    using assms by (simp add: evolves_def)
  have "db_api_keys c = map (g \<circ> f) (db_api_keys a) @ (map g new @ new')"
    using f(1) g(1) by simp
  moreover have "\<forall>r \<in> set (db_api_keys a). row_evolves r ((g \<circ> f) r)"
    using f g(2) by (auto intro: row_evolves_trans)
  ultimately show ?thesis
    using t unfolding evolves_def by blast
qed

lemma evolves_update:
  assumes "\<And>r. r \<in> set (db_api_keys db) \<Longrightarrow> P r \<Longrightarrow> row_evolves r (f r)"
  shows "evolves db (update_rows P f db)"
  unfolding evolves_def
  by (intro conjI exI [where x = "\<lambda>r. if P r then f r else r"] exI [where x = "[]"])
     (use assms in auto)

lemma evolves_insert: "insert_row K r db = Inr db' \<Longrightarrow> evolves db db'"
  unfolding evolves_def
  by (erule insert_row_Inr) (auto intro!: exI [where x = id])

lemma evolves_member:
  assumes "evolves db db'" and "r \<in> set (db_api_keys db)"
  obtains r' where "r' \<in> set (db_api_keys db')" and "row_evolves r r'"
proof -
  from assms(1) obtain f new where "db_api_keys db' = map f (db_api_keys db) @ new"
    and "\<forall>r \<in> set (db_api_keys db). row_evolves r (f r)"
    unfolding evolves_def by blast
  with assms(2) that [of "f r"] show ?thesis by simp
qed

text \<open>An update that leaves the identifying columns alone keeps the invariant.\<close>

lemma db_ok_update:
  assumes ok: "db_ok db"
    and f: "\<And>r. r \<in> set (db_api_keys db) \<Longrightarrow> P r \<Longrightarrow> row_evolves r (f r)"
  shows "db_ok (update_rows P f db)"
proof -
  have proj: "map g (map (\<lambda>r. if P r then f r else r) (db_api_keys db)) = map g (db_api_keys db)"
    if "\<And>r r'. row_evolves r r' \<Longrightarrow> g r' = g r" for g :: "ApiKeyRow \<Rightarrow> string"
    using f that by auto
  have "distinct (map row_id (db_api_keys (update_rows P f db)))"
    using ok proj [of row_id, OF row_evolves_fields(1)] by (simp only: db_ok_def update_rows_simps)
  moreover have "distinct (map row_key_hash (db_api_keys (update_rows P f db)))"
    using ok proj [of row_key_hash, OF row_evolves_fields(3)]
    by (simp only: db_ok_def update_rows_simps)
  moreover have "\<forall>r \<in> set (db_api_keys (update_rows P f db)).
      row_tenant_id r \<in> set (db_tenants (update_rows P f db)) \<and> Valid (row_role r)"
    using ok row_evolves_fields(2,4) [OF f] by (auto simp: db_ok_def)
  ultimately show ?thesis by (simp only: db_ok_def)
qed

lemma db_ok_insert:
  assumes "db_ok db" and "insert_row K r db = Inr db'" and "Valid (row_role r)"
  shows "db_ok db'"
  using assms(2) by (rule insert_row_Inr) (use assms(1,3) in \<open>auto simp: db_ok_def\<close>)

text \<open>The row a rotation revokes is the one it selected, by the primary key.\<close>

lemma revoke_by_id_evolves:
  assumes "db_ok db" and "select_owned K t i db = Inr (Some row)" and "row_revoked_at row = None"
    and "r \<in> set (db_api_keys db)" and "Some (row_id r) = kl_uuid K i"
  shows "row_evolves r (r\<lparr>row_revoked_at := v\<rparr>)"
proof -
  have "r = row"
    using assms select_owned_SomeD [OF assms(2)] by (auto intro: db_ok_id_unique)
  with assms(3) show ?thesis by (simp add: row_evolves_revoke)
qed

lemma store_step_ok:
  assumes "store_step K db db'" and "db_ok db"
  shows "db_ok db' \<and> evolves db db'"
  using assms(1)
proof (cases rule: store_step.cases)
  case (step_Resolve env k)
  then show ?thesis
    using Resolve_db [of K env k db] assms(2) by (auto intro!: db_ok_update evolves_update)
next
  case (step_Create env spec)
  then show ?thesis
    using Create_db [of K env spec db] assms(2) by (auto intro: db_ok_insert evolves_insert)
next
  case (step_Rotate env t i)
  consider "db' = db" |
    row r where "select_owned K t i db = Inr (Some row)" "row_revoked_at row = None"
      "insert_row K r (revoke_by_id K env i db) = Inr db'" "row_role r = row_role row"
    using Rotate_db [of K env t i db] step_Rotate by auto
  then show ?thesis
  proof cases
    case 1
    then show ?thesis using assms(2) by simp
  next
    case 2
    have "db_ok (revoke_by_id K env i db) \<and> evolves db (revoke_by_id K env i db)"
      using revoke_by_id_evolves [OF assms(2) 2(1,2)] assms(2)
      by (auto intro: db_ok_update evolves_update)
    moreover have "Valid (row_role r)"
      using 2(4) select_owned_SomeD [OF 2(1)] assms(2) by (auto simp: db_ok_def)
    ultimately show ?thesis
      using 2(3) by (auto intro: db_ok_insert evolves_insert evolves_trans)
  qed
next
  case (step_Revoke env t i)
  then show ?thesis
    using Revoke_db [of K env t i db] assms(2)
    by (auto intro!: db_ok_update evolves_update row_evolves_revoke simp: revoke_where_def)
qed

lemma store_reach_ok:
  assumes "store_reach K db db'" and "db_ok db"
  shows "db_ok db' \<and> evolves db db'"
  using assms
proof (induction rule: store_reach.induct)
  case (reach_refl db)
  then show ?case by simp
next
  case (reach_step db db' db'')
  then show ?case using store_step_ok evolves_trans by blast
qed

lemma initial_db_ok [simp]: "db_ok (initial_db ts)"
  by (simp add: db_ok_def initial_db_def)

subsection \<open>Resolution\<close>

text \<open>Resolution is a function of the row that carries the hash of the presented key.\<close>

lemma Resolve_row:
  assumes "db_ok db" and "r \<in> set (db_api_keys db)" and "row_key_hash r = hashAPIKey (kl_sha256 K) k"
    and "pg_fault env 0 = NoFault"
  shows "fst (Resolve K env k db) =
    (if row_revoked_at r \<noteq> None then Inl ErrKeyRevoked
     else if (\<exists>x. row_expires_at r = Some x \<and> x \<le> pg_clock env) then Inl ErrKeyExpired
     else Inr \<lparr>id_TenantID = row_tenant_id r, id_UserID = row_id r, id_Role = row_role r,
               id_Region = deref (row_region r), id_SupplierID = deref (row_supplier_id r)\<rparr>)"
proof -
  have "select_by_hash (hashAPIKey (kl_sha256 K) k) db = Some r"
    using select_by_hash_unique [OF assms(1,2)] assms(3) by simp
  moreover have "Valid (row_role r)"
    using assms(1,2) by (simp add: db_ok_def)
  ultimately show ?thesis
    using assms(3,4) by (auto simp: Resolve_def Let_def not_less split: option.splits)
qed

lemma Resolve_no_row:
  assumes "hashAPIKey (kl_sha256 K) k \<notin> set (map row_key_hash (db_api_keys db))"
  shows "\<not> is_ok (fst (Resolve K env k db))"
proof -
  have "select_by_hash (hashAPIKey (kl_sha256 K) k) db = None"
    using assms by (auto simp: select_by_hash_def find_None_iff rev_image_eqI)
  then show ?thesis
    by (cases "pg_fault env 0") (simp_all add: Resolve_def Let_def query_def)
qed

lemma Resolve_revoked:
  assumes "db_ok db" and "r \<in> set (db_api_keys db)" and "row_key_hash r = hashAPIKey (kl_sha256 K) k"
    and "row_revoked_at r \<noteq> None"
  shows "\<not> is_ok (fst (Resolve K env k db))"
proof (cases "pg_fault env 0 = NoFault")
  case True
  then show ?thesis using Resolve_row [OF assms(1-3)] assms(4) by simp
next
  case False
  then show ?thesis
    by (cases "pg_fault env 0") (simp_all add: Resolve_def Let_def query_def)
qed

text \<open>A successful revocation revokes the row it names, and that is never undone.\<close>

lemma Revoke_NoneD:
  assumes "Revoke K env tenant i db = (None, db')"
  obtains i' t x where "kl_uuid K i = Some i'" "kl_uuid K tenant = Some t"
    "x \<in> set (db_api_keys db)" "revoke_where i' t x"
    "db' = update_rows (revoke_where i' t) (\<lambda>r. r\<lparr>row_revoked_at := Some (pg_now env)\<rparr>) db"
  using assms
  by (auto simp: Revoke_def exec_def filter_empty_conv
      split: sum.splits option.splits if_splits prod.splits fault.splits)

lemma Revoke_revokes:
  assumes "db_ok db" and "Revoke K env tenant i db = (None, db')"
    and "r \<in> set (db_api_keys db)" and "kl_uuid K i = Some (row_id r)"
  shows "r\<lparr>row_revoked_at := Some (pg_now env)\<rparr> \<in> set (db_api_keys db')"
  using assms(2)
proof (rule Revoke_NoneD)
  fix i' t x
  assume *: "kl_uuid K i = Some i'" "x \<in> set (db_api_keys db)" "revoke_where i' t x"
    "db' = update_rows (revoke_where i' t) (\<lambda>r. r\<lparr>row_revoked_at := Some (pg_now env)\<rparr>) db"
  then have "x = r"
    using assms(1,3,4) by (auto simp: revoke_where_def intro: db_ok_id_unique)
  with * show ?thesis by force
qed

lemma revoked_stays:
  assumes "db_ok db" and "r \<in> set (db_api_keys db)" and "row_revoked_at r \<noteq> None"
    and "row_key_hash r = hashAPIKey (kl_sha256 K) k" and "store_reach K db db'"
  shows "\<not> is_ok (fst (Resolve K env k db'))"
proof -
  have ok: "db_ok db'" "evolves db db'" using store_reach_ok [OF assms(5,1)] by simp_all
  from ok(2) assms(2) obtain r' where "r' \<in> set (db_api_keys db')" "row_evolves r r'"
    by (rule evolves_member)
  then show ?thesis
    using Resolve_revoked [OF ok(1), of r' K k env] assms(3,4) row_evolves_fields [of r r'] by simp
qed

subsection \<open>Creation and rotation\<close>

lemma Create_InrD:
  assumes "Create K env spec db = (Inr (key, plain), db')"
  obtains t buf r where
    "pg_rand env = Inr buf" and "plain = APIKeyDisplayPrefix @ EncodeToString buf"
    and "kl_uuid K (spec_TenantID spec) = Some t" and "t \<in> set (db_tenants db)"
    and "Valid (spec_Role spec)"
    and "db_api_keys db' = db_api_keys db @ [r]" and "db_tenants db' = db_tenants db"
    and "r = \<lparr>row_id = pg_new_id env, row_tenant_id = t, row_name = spec_Name spec,
           row_key_hash = hashAPIKey (kl_sha256 K) plain, row_key_prefix = displayPrefix plain,
           row_role = spec_Role spec, row_region = nullify (spec_Region spec),
           row_supplier_id = nullify (spec_SupplierID spec), row_created_at = pg_now env,
           row_last_used_at = None,
           row_expires_at = map_option (kl_timestamptz K) (spec_ExpiresAt spec),
           row_revoked_at = None\<rparr>"
    and "key_ID key = pg_new_id env"
    and "snd (Create K env spec db) = db'" and "key_KeyPrefix key = displayPrefix plain"
proof -
  from assms obtain hash prefix where ok: "Valid (spec_Role spec)"
    and gen: "generateAPIKey (kl_sha256 K) (pg_rand env) = Inr (plain, hash, prefix)"
    by (auto simp: Create_def split: if_splits sum.splits prod.splits)
  let ?r = "\<lparr>row_id = pg_new_id env, row_tenant_id = spec_TenantID spec,
              row_name = spec_Name spec, row_key_hash = hash, row_key_prefix = prefix,
              row_role = spec_Role spec, row_region = nullify (spec_Region spec),
              row_supplier_id = nullify (spec_SupplierID spec),
              row_created_at = pg_now env, row_last_used_at = None,
              row_expires_at = spec_ExpiresAt spec, row_revoked_at = None\<rparr>"
  from assms gen have "exec (pg_fault env 0) (map_sum id (\<lambda>db'. ((), db')) (insert_row K ?r db)) db
      = (Inr (), db')" and key: "key_ID key = pg_new_id env" "key_KeyPrefix key = prefix"
    by (auto simp: Create_def split: if_splits sum.splits prod.splits)
  then have "insert_row K ?r db = Inr db'"
    using exec_Inr by (cases "insert_row K ?r db") fastforce+
  then show ?thesis
  proof (rule insert_row_Inr)
    fix t
    assume t: "kl_uuid K (row_tenant_id ?r) = Some t" "t \<in> set (db_tenants db)"
      and db': "db' = db\<lparr>db_api_keys := db_api_keys db @
           [?r\<lparr>row_tenant_id := t,
               row_expires_at := map_option (kl_timestamptz K) (row_expires_at ?r)\<rparr>]\<rparr>"
    from generateAPIKey_Inr [OF gen] obtain buf where
      "pg_rand env = Inr buf" "plain = APIKeyDisplayPrefix @ EncodeToString buf"
      "hash = hashAPIKey (kl_sha256 K) plain" "prefix = displayPrefix plain"
      by blast
    with that [of buf t] t db' ok key assms show ?thesis by simp
  qed
qed

lemma Rotate_InrD:
  assumes "Rotate K env tenant i db = (Inr (key, plain), db')"
  obtains t buf row r where
    "select_owned K tenant i db = Inr (Some row)" and "row_revoked_at row = None"
    and "pg_rand env = Inr buf" and "plain = APIKeyDisplayPrefix @ EncodeToString buf"
    and "kl_uuid K tenant = Some t"
    and "insert_row K (r\<lparr>row_tenant_id := tenant, row_expires_at := row_expires_at row\<rparr>)
           (revoke_by_id K env i db) = Inr db'"
    and "db_api_keys db' = db_api_keys (revoke_by_id K env i db) @ [r]"
    and "r = \<lparr>row_id = pg_new_id env, row_tenant_id = t, row_name = row_name row,
           row_key_hash = hashAPIKey (kl_sha256 K) plain, row_key_prefix = displayPrefix plain,
           row_role = row_role row, row_region = row_region row,
           row_supplier_id = row_supplier_id row, row_created_at = pg_now env,
           row_last_used_at = None,
           row_expires_at = map_option (kl_timestamptz K) (row_expires_at row),
           row_revoked_at = None\<rparr>"
    and "snd (Rotate K env tenant i db) = db'"
proof -
  from assms obtain row hash prefix where
    row: "select_owned K tenant i db = Inr (Some row)" "row_revoked_at row = None"
    and gen: "generateAPIKey (kl_sha256 K) (pg_rand env) = Inr (plain, hash, prefix)"
    and ins: "insert_row K
             \<lparr>row_id = pg_new_id env, row_tenant_id = tenant, row_name = row_name row,
              row_key_hash = hash, row_key_prefix = prefix, row_role = row_role row,
              row_region = row_region row, row_supplier_id = row_supplier_id row,
              row_created_at = pg_now env, row_last_used_at = None,
              row_expires_at = row_expires_at row, row_revoked_at = None\<rparr>
             (revoke_by_id K env i db) = Inr db'"
    by (auto simp: Rotate_def query_Inr exec_def
        split: sum.splits option.splits if_splits prod.splits fault.splits)
  from generateAPIKey_Inr [OF gen] obtain buf where
    buf: "pg_rand env = Inr buf" "plain = APIKeyDisplayPrefix @ EncodeToString buf"
    and hash: "hash = hashAPIKey (kl_sha256 K) plain" "prefix = displayPrefix plain"
    by blast
  from ins show ?thesis
    by (rule insert_row_Inr) (rule that [OF row buf], use ins hash assms in simp_all)
qed

text \<open>The table after a rotation of the row \<open>r\<close>.\<close>

lemma Rotate_rows:
  assumes "db_ok db" and "Rotate K env tenant i db = (Inr (key, plain), db')"
    and "r \<in> set (db_api_keys db)" and "kl_uuid K i = Some (row_id r)"
  obtains n where "db_ok db'" and "live r"
    and "db_api_keys db' = map (\<lambda>x. if row_id x = row_id r
           then x\<lparr>row_revoked_at := Some (pg_now env)\<rparr> else x) (db_api_keys db) @ [n]"
    and "n = r\<lparr>row_id := pg_new_id env, row_key_hash := hashAPIKey (kl_sha256 K) plain,
           row_key_prefix := displayPrefix plain, row_created_at := pg_now env,
           row_last_used_at := None,
           row_expires_at := map_option (kl_timestamptz K) (row_expires_at r)\<rparr>"
  using assms(2)
proof (rule Rotate_InrD)
  fix t buf row n
  assume *: "select_owned K tenant i db = Inr (Some row)" "row_revoked_at row = None"
    "kl_uuid K tenant = Some t" "db_api_keys db' = db_api_keys (revoke_by_id K env i db) @ [n]"
    "n = \<lparr>row_id = pg_new_id env, row_tenant_id = t, row_name = row_name row,
         row_key_hash = hashAPIKey (kl_sha256 K) plain, row_key_prefix = displayPrefix plain,
         row_role = row_role row, row_region = row_region row,
         row_supplier_id = row_supplier_id row, row_created_at = pg_now env,
         row_last_used_at = None,
         row_expires_at = map_option (kl_timestamptz K) (row_expires_at row),
         row_revoked_at = None\<rparr>"
  have "db_ok db'"
    using store_step_ok [OF step_Rotate [of K db env tenant i]] assms(1,2) by simp
  moreover have "row = r"
    using select_owned_SomeD [OF *(1)] assms(1,3,4) by (auto intro: db_ok_id_unique)
  moreover from this have "live r" "t = row_tenant_id r"
    using select_owned_SomeD [OF *(1)] *(2,3) by (auto simp: live_def)
  ultimately show thesis
    using that [of n] *(4,5) assms(4) by (cases r) (simp add: live_def eq_commute)
qed

text \<open>Exactly one key of the table changes state when a key is rotated.\<close>

lemma filter_live_revoke:
  assumes "distinct (map row_id xs)" and "r \<in> set xs" and "live r"
  shows "Suc (length (filter live
    (map (\<lambda>x. if row_id x = row_id r then x\<lparr>row_revoked_at := Some v\<rparr> else x) xs))) =
    length (filter live xs)"
  using assms
proof (induction xs)
  case Nil
  then show ?case by simp
next
  case (Cons a xs)
  show ?case
  proof (cases "row_id a = row_id r")
    case True
    then have "map (\<lambda>x. if row_id x = row_id r then x\<lparr>row_revoked_at := Some v\<rparr> else x) xs = xs"
      using Cons.prems by (intro map_idI) (auto simp: rev_image_eqI)
    moreover have "a = r"
      using Cons.prems True by (auto simp: rev_image_eqI)
    ultimately show ?thesis using Cons.prems by (simp add: live_def)
  next
    case False
    then show ?thesis using Cons by (auto simp: live_def)
  qed
qed

subsection \<open>Tenants\<close>

lemma tenant_rows_update:
  assumes "\<And>r. r \<in> set (db_api_keys db) \<Longrightarrow> P r \<Longrightarrow> row_tenant_id r \<noteq> t \<and> row_tenant_id (f r) \<noteq> t"
  shows "tenant_rows t (update_rows P f db) = tenant_rows t db"
proof -
  have "filter (\<lambda>r. row_tenant_id r = t) (map (\<lambda>r. if P r then f r else r) xs) =
        filter (\<lambda>r. row_tenant_id r = t) xs"
    if "\<And>r. r \<in> set xs \<Longrightarrow> P r \<Longrightarrow> row_tenant_id r \<noteq> t \<and> row_tenant_id (f r) \<noteq> t" for xs
    using that by (induction xs) auto
  with assms show ?thesis by (simp add: tenant_rows_def)
qed

lemma tenant_rows_insert:
  assumes "insert_row K r db = Inr db'" and "kl_uuid K (row_tenant_id r) \<noteq> Some t"
  shows "tenant_rows t db' = tenant_rows t db"
  using assms(1) by (rule insert_row_Inr) (use assms(2) in \<open>auto simp: tenant_rows_def\<close>)

lemma Create_scoped:
  assumes "kl_uuid K (spec_TenantID spec) \<noteq> Some t"
  shows "tenant_rows t (snd (Create K env spec db)) = tenant_rows t db"
  using Create_db [of K env spec db] assms by (auto intro: tenant_rows_insert)

lemma Rotate_scoped:
  assumes "db_ok db" and "kl_uuid K tenant \<noteq> Some t"
  shows "tenant_rows t (snd (Rotate K env tenant i db)) = tenant_rows t db"
proof -
  consider "snd (Rotate K env tenant i db) = db" |
    row r where "select_owned K tenant i db = Inr (Some row)"
      "insert_row K r (revoke_by_id K env i db) = Inr (snd (Rotate K env tenant i db))"
      "row_tenant_id r = tenant"
    using Rotate_db [of K env tenant i db] by auto
  then show ?thesis
  proof cases
    case 2
    have "r' = row" if "r' \<in> set (db_api_keys db)" "Some (row_id r') = kl_uuid K i" for r'
      using that select_owned_SomeD [OF 2(1)] assms(1) by (auto intro: db_ok_id_unique)
    then have "tenant_rows t (revoke_by_id K env i db) = tenant_rows t db"
      using select_owned_SomeD [OF 2(1)] assms(2) by (intro tenant_rows_update) auto
    moreover have "tenant_rows t (snd (Rotate K env tenant i db)) = tenant_rows t (revoke_by_id K env i db)"
      using 2(2,3) assms(2) by (auto intro: tenant_rows_insert)
    ultimately show ?thesis by simp
  qed simp
qed

lemma Revoke_scoped:
  assumes "kl_uuid K tenant \<noteq> Some t"
  shows "tenant_rows t (snd (Revoke K env tenant i db)) = tenant_rows t db"
  using Revoke_db [of K env tenant i db] assms
  by (auto simp: revoke_where_def intro!: tenant_rows_update)

subsection \<open>The store provides the interface\<close>

lemma Resolve_valid: "Resolve K env k db = (Inr i, db') \<Longrightarrow> Valid (id_Role i)"
  by (erule Resolve_InrD) simp

lemmas store_ops_ok =
  store_step_ok [OF step_Resolve, THEN conjunct1] store_step_ok [OF step_Create, THEN conjunct1]
  store_step_ok [OF step_Rotate, THEN conjunct1] store_step_ok [OF step_Revoke, THEN conjunct1]

interpretation pg_store: key_store "Resolve K" db_ok "Create K" "Rotate K" "Revoke K"
    "\<lambda>t db. tenant_rows t db" "kl_uuid K"
  for K :: KeyLib
  by unfold_locales
     (auto intro: Resolve_valid store_ops_ok Create_scoped Rotate_scoped Revoke_scoped)

end
