(* ===== verification/Auth_Handlers.thy ===== *)
theory Auth_Handlers
  imports Api_Key_Store Httpx
begin

text \<open>
  The HTTP endpoints of the auth package: token issuance and refresh
  (\<open>internal/auth/handler.go\<close>) and partner-key management
  (\<open>internal/auth/apikey_handler.go\<close>). Decoding a JSON body is an argument: the request struct,
  or nothing when \<open>ShouldBindJSON\<close> fails. The key handlers take the operations of the store
  they are built with.
\<close>

section \<open>Definitions\<close>

subsection \<open>handler.go\<close>

record tokenRequest =
  tr_TenantID :: string
  tr_UserID :: string
  tr_Role :: string
  tr_Region :: string
  tr_SupplierID :: string

definition token_pair_json :: "TokenPair \<Rightarrow> json" where
  "token_pair_json p = JObject
     [(''access_token'', JString (tp_AccessToken p)),
      (''refresh_token'', JString (tp_RefreshToken p)),
      (''token_type'', JString (tp_TokenType p)),
      (''expires_at'', JTime (tp_ExpiresAt p))]"

definition role_message :: string where
  "role_message = ''role must be one of: admin, supplier, warehouse_manager, analyst''"

definition issueToken ::
  "JwtLib \<Rightarrow> Issuer \<Rightarrow> (string \<Rightarrow> tokenRequest option) \<Rightarrow> string \<Rightarrow> int \<Rightarrow> 'w handler" where
  "issueToken J iss bind uuid now c w =
     (case bind (req_Body (c_Request c)) of
        None \<Rightarrow> (BadRequest ''invalid JSON body'' c, w)
      | Some req \<Rightarrow>
          (if tr_TenantID req = '''' then (BadRequest ''tenant_id is required'' c, w)
           else if \<not> Valid (tr_Role req) then (BadRequest role_message c, w)
           else
             (let userID = (if tr_UserID req = '''' then uuid else tr_UserID req) in
              case Issue J iss now
                     \<lparr>id_TenantID = tr_TenantID req, id_UserID = userID, id_Role = tr_Role req,
                      id_Region = tr_Region req, id_SupplierID = tr_SupplierID req\<rparr> of
                Inl err \<Rightarrow> (BadRequest (Error err) c, w)
              | Inr pair \<Rightarrow> (gin_JSON 200 (token_pair_json pair) c, w))))"

definition refresh ::
  "JwtLib \<Rightarrow> Issuer \<Rightarrow> (string \<Rightarrow> string option) \<Rightarrow> int \<Rightarrow> int \<Rightarrow> 'w handler" where
  "refresh J iss bind parse_now issue_now c w =
     (case bind (req_Body (c_Request c)) of
        None \<Rightarrow> (BadRequest ''refresh_token is required'' c, w)
      | Some refreshToken \<Rightarrow>
          (if refreshToken = '''' then (BadRequest ''refresh_token is required'' c, w)
           else case Refresh J iss parse_now issue_now refreshToken of
                  Inl ErrExpired \<Rightarrow> (Unauthorized ''refresh token expired'' c, w)
                | Inl ErrWrongTokenUse \<Rightarrow> (Unauthorized ''not a refresh token'' c, w)
                | Inl _ \<Rightarrow> (Unauthorized ''invalid refresh token'' c, w)
                | Inr pair \<Rightarrow> (gin_JSON 200 (token_pair_json pair) c, w)))"

text \<open>The routes of the handler: method, pattern, endpoint.\<close>

definition auth_Register :: "'h \<Rightarrow> 'h \<Rightarrow> (string \<times> string \<times> 'h) list" where
  "auth_Register h_issueToken h_refresh =
     [(''POST'', ''/v1/auth/token'', h_issueToken), (''POST'', ''/v1/auth/refresh'', h_refresh)]"

subsection \<open>apikey_handler.go\<close>

record createKeyRequest =
  ck_Name :: string
  ck_Role :: string
  ck_Region :: string
  ck_SupplierID :: string
  ck_ExpiresAt :: "int option"

definition toKeyResponse :: "APIKey \<Rightarrow> string \<Rightarrow> json" where
  "toKeyResponse k plaintext = JObject
     ([(''id'', JString (key_ID k)),
       (''name'', JString (key_Name k)),
       (''key_prefix'', JString (key_KeyPrefix k)),
       (''role'', JString (key_Role k))]
      @ omitempty ''region'' (key_Region k)
      @ omitempty ''supplier_id'' (key_SupplierID k)
      @ [(''created_at'', JTime (key_CreatedAt k))]
      @ omitnil ''last_used_at'' (key_LastUsedAt k)
      @ omitnil ''expires_at'' (key_ExpiresAt k)
      @ omitnil ''revoked_at'' (key_RevokedAt k)
      @ omitempty ''api_key'' plaintext)"

definition writeStoreError :: "auth_error \<Rightarrow> GinCtx \<Rightarrow> GinCtx" where
  "writeStoreError err c =
     (case err of
        ErrKeyNotFound \<Rightarrow> Abort 404 ''not_found'' ''api key not found'' c
      | ErrKeyRevoked \<Rightarrow> Abort 409 CodeConflict ''api key already revoked'' c
      | _ \<Rightarrow> Internal ''api key operation failed'' c)"

definition APIKeyHandler_Create ::
  "(string \<Rightarrow> createKeyRequest option) \<Rightarrow>
   (CreateAPIKeySpec \<Rightarrow> 'w \<Rightarrow> (auth_error + (APIKey \<times> string)) \<times> 'w) \<Rightarrow> 'w handler" where
  "APIKeyHandler_Create bind store_Create c w =
     (case FromGin c of
        None \<Rightarrow> (Unauthorized ''authentication required'' c, w)
      | Some actor \<Rightarrow>
          (case bind (req_Body (c_Request c)) of
             None \<Rightarrow> (BadRequest ''invalid JSON body'' c, w)
           | Some req \<Rightarrow>
               (if \<not> Valid (ck_Role req) then (BadRequest role_message c, w)
                else case store_Create
                       \<lparr>spec_TenantID = id_TenantID actor, spec_Name = ck_Name req,
                        spec_Role = ck_Role req, spec_Region = ck_Region req,
                        spec_SupplierID = ck_SupplierID req, spec_ExpiresAt = ck_ExpiresAt req\<rparr> w of
                  (Inl err, w') \<Rightarrow> (BadRequest (Error err) c, w')
                | (Inr (key, plaintext), w') \<Rightarrow> (gin_JSON 201 (toKeyResponse key plaintext) c, w'))))"

definition APIKeyHandler_List ::
  "(string \<Rightarrow> 'w \<Rightarrow> auth_error + APIKey list) \<Rightarrow> 'w handler" where
  "APIKeyHandler_List store_List c w =
     (case FromGin c of
        None \<Rightarrow> (Unauthorized ''authentication required'' c, w)
      | Some actor \<Rightarrow>
          (case store_List (id_TenantID actor) w of
             Inl err \<Rightarrow> (Internal ''failed to list api keys'' c, w)
           | Inr keys \<Rightarrow>
               (gin_JSON 200 (JObject [(''keys'', JArray (map (\<lambda>k. toKeyResponse k '''') keys))]) c, w)))"

definition APIKeyHandler_Rotate ::
  "(string \<Rightarrow> string \<Rightarrow> 'w \<Rightarrow> (auth_error + (APIKey \<times> string)) \<times> 'w) \<Rightarrow> 'w handler" where
  "APIKeyHandler_Rotate store_Rotate c w =
     (case FromGin c of
        None \<Rightarrow> (Unauthorized ''authentication required'' c, w)
      | Some actor \<Rightarrow>
          (case store_Rotate (id_TenantID actor) (Param c ''id'') w of
             (Inl err, w') \<Rightarrow> (writeStoreError err c, w')
           | (Inr (key, plaintext), w') \<Rightarrow> (gin_JSON 201 (toKeyResponse key plaintext) c, w')))"

definition APIKeyHandler_Revoke ::
  "(string \<Rightarrow> string \<Rightarrow> 'w \<Rightarrow> auth_error option \<times> 'w) \<Rightarrow> 'w handler" where
  "APIKeyHandler_Revoke store_Revoke c w =
     (case FromGin c of
        None \<Rightarrow> (Unauthorized ''authentication required'' c, w)
      | Some actor \<Rightarrow>
          (case store_Revoke (id_TenantID actor) (Param c ''id'') w of
             (Some err, w') \<Rightarrow> (writeStoreError err c, w')
           | (None, w') \<Rightarrow> (gin_Status 204 c, w')))"

section \<open>Lemmas\<close>

text \<open>
  Over any store that keeps the interface's contract, a management request of one tenant
  leaves the keys of every other tenant as they were, whatever its body and path say.
\<close>

context key_store
begin

lemma handler_Create_scoped:
  assumes "inv db" and "FromGin c = Some actor" and "tenant_of (id_TenantID actor) \<noteq> Some t"
  shows "keys_of t (snd (APIKeyHandler_Create bind (create env) c db)) = keys_of t db"
proof (cases "bind (req_Body (c_Request c))")
  case None
  with assms(2) show ?thesis by (simp add: APIKeyHandler_Create_def)
next
  case (Some req)
  let ?spec = "\<lparr>spec_TenantID = id_TenantID actor, spec_Name = ck_Name req,
     spec_Role = ck_Role req, spec_Region = ck_Region req,
     spec_SupplierID = ck_SupplierID req, spec_ExpiresAt = ck_ExpiresAt req\<rparr>"
  have "keys_of t (snd (create env ?spec db)) = keys_of t db"
    using assms(1,3) by (intro create_scoped) simp_all
  with Some assms(2) show ?thesis
    by (auto simp: APIKeyHandler_Create_def split: prod.splits sum.splits)
qed

lemma handler_Rotate_scoped:
  assumes "inv db" and "FromGin c = Some actor" and "tenant_of (id_TenantID actor) \<noteq> Some t"
  shows "keys_of t (snd (APIKeyHandler_Rotate (rotate env) c db)) = keys_of t db"
  using rotate_scoped [OF assms(1,3), of env "Param c ''id''"] assms(2)
  by (auto simp: APIKeyHandler_Rotate_def split: prod.splits sum.splits)

lemma handler_Revoke_scoped:
  assumes "inv db" and "FromGin c = Some actor" and "tenant_of (id_TenantID actor) \<noteq> Some t"
  shows "keys_of t (snd (APIKeyHandler_Revoke (revoke env) c db)) = keys_of t db"
  using revoke_scoped [OF assms(1,3), of env "Param c ''id''"] assms(2)
  by (auto simp: APIKeyHandler_Revoke_def split: prod.splits option.splits)

end

lemma writeStoreError_status:
  "c_Status (writeStoreError err c) =
     (case err of ErrKeyNotFound \<Rightarrow> 404 | ErrKeyRevoked \<Rightarrow> 409 | _ \<Rightarrow> 500)"
  by (simp add: writeStoreError_def split: auth_error.splits)

text \<open>A key listing never carries the field of the secret.\<close>

lemma omit_keys [simp]:
  "k' \<noteq> k \<Longrightarrow> (k', v) \<notin> set (omitempty k s)" "k' \<noteq> k \<Longrightarrow> (k', v) \<notin> set (omitnil k t)"
  by (auto simp: omitempty_def omitnil_def split: option.splits)

lemma toKeyResponse_no_secret:
  "\<exists>fields. toKeyResponse k '''' = JObject fields \<and> ''api_key'' \<notin> fst ` set fields"
  by (auto simp: toKeyResponse_def omitempty_def omitnil_def split: option.splits)

end
