(* ===== verification/Key_Accounts.thy ===== *)
theory Key_Accounts
  imports Auth_Handlers
begin

text \<open>
  Bookkeeping of the key table of \<open>internal/auth/apikey_postgres.go\<close> per tenant: how many keys
  each operation of the store can add or revoke, and for whom. The gateway uses it to account
  for every key by a record of the audit trail.
\<close>

section \<open>Definitions\<close>

text \<open>The key table up to the last-used stamps, which authentication writes, and a tenant's part.\<close>

definition key_view :: "Db \<Rightarrow> string list \<times> ApiKeyRow list" where
  "key_view db = (db_tenants db, map (\<lambda>r. r\<lparr>row_last_used_at := None\<rparr>) (db_api_keys db))"

definition tenant_view :: "string \<Rightarrow> Db \<Rightarrow> ApiKeyRow list" where
  "tenant_view t db = filter (\<lambda>r. row_tenant_id r = t) (snd (key_view db))"

definition revoked_rows :: "string \<Rightarrow> Db \<Rightarrow> ApiKeyRow list" where
  "revoked_rows t db = filter (\<lambda>r. \<not> live r) (tenant_rows t db)"

text \<open>A change that keeps a well-formed table well formed and only evolves its rows.\<close>

definition grows :: "Db \<Rightarrow> Db \<Rightarrow> bool" where
  "grows db db' \<longleftrightarrow> (db_ok db \<longrightarrow> db_ok db' \<and> evolves db db')"

text \<open>
  A change of the table on behalf of a tenant: it keeps the table well formed, adds at most one
  key and revokes at most one, only where it may, and only of that tenant.
\<close>

definition keys_by :: "KeyLib \<Rightarrow> string \<Rightarrow> bool \<Rightarrow> bool \<Rightarrow> Db \<Rightarrow> Db \<Rightarrow> bool" where
  "keys_by K tenant adds revokes db db' \<longleftrightarrow> grows db db' \<and> (db_ok db \<longrightarrow>
     (\<forall>t. (kl_uuid K tenant \<noteq> Some t \<longrightarrow> tenant_view t db' = tenant_view t db) \<and>
        length (tenant_view t db') \<le> length (tenant_view t db) + (if adds then 1 else 0) \<and>
        length (filter (\<lambda>r. \<not> live r) (tenant_view t db')) \<le>
          length (filter (\<lambda>r. \<not> live r) (tenant_view t db)) + (if revokes then 1 else 0)))"

section \<open>Lemmas\<close>

lemma grows_refl [simp]: "grows db db"
  by (simp add: grows_def)

lemma grows_trans: "grows a b \<Longrightarrow> grows b c \<Longrightarrow> grows a c"
  by (auto simp: grows_def intro: evolves_trans)

lemma grows_db_ok: "grows db db' \<Longrightarrow> db_ok db \<Longrightarrow> db_ok db'"
  by (simp add: grows_def)

lemma grows_step: "store_step K db db' \<Longrightarrow> grows db db'"
  by (simp add: grows_def store_step_ok)

lemma keys_by_refl [simp]: "keys_by K tenant adds revokes db db"
  by (simp add: keys_by_def)

lemma tenant_view_rows: "tenant_view t db = map (\<lambda>r. r\<lparr>row_last_used_at := None\<rparr>) (tenant_rows t db)"
  by (simp add: tenant_view_def key_view_def tenant_rows_def filter_map comp_def)

lemma tenant_view_lengths:
  "length (tenant_view t db) = length (tenant_rows t db)"
  "length (filter (\<lambda>r. \<not> live r) (tenant_view t db)) = length (revoked_rows t db)"
  by (simp_all add: tenant_view_rows revoked_rows_def filter_map comp_def live_def)

text \<open>It is enough to look at the rows themselves.\<close>

lemma keys_byI:
  assumes "grows db db'"
    and "\<And>t. db_ok db \<Longrightarrow> kl_uuid K tenant \<noteq> Some t \<Longrightarrow> tenant_rows t db' = tenant_rows t db"
    and "\<And>t. db_ok db \<Longrightarrow>
      length (tenant_rows t db') \<le> length (tenant_rows t db) + (if adds then 1 else 0) \<and>
      length (revoked_rows t db') \<le> length (revoked_rows t db) + (if revokes then 1 else 0)"
  shows "keys_by K tenant adds revokes db db'"
  using assms unfolding keys_by_def tenant_view_lengths by (simp add: tenant_view_rows)

lemma keys_by_view:
  "keys_by K tenant adds revokes db db1 \<Longrightarrow> key_view db0 = key_view db \<Longrightarrow> key_view db' = key_view db1 \<Longrightarrow>
   grows db0 db \<Longrightarrow> grows db1 db' \<Longrightarrow> keys_by K tenant adds revokes db0 db'"
  by (auto simp: keys_by_def tenant_view_def intro: grows_trans grows_db_ok)

text \<open>An update by primary key moves at most one row into a selection.\<close>

lemma length_filter_update:
  assumes "distinct (map row_id xs)" and "\<And>r. P r \<Longrightarrow> row_id r = i"
  shows "length (filter Q (map (\<lambda>r. if P r then f r else r) xs)) \<le> length (filter Q xs) + 1"
  using assms(1)
proof (induction xs)
  case Nil
  then show ?case by simp
next
  case (Cons r xs)
  show ?case
  proof (cases "P r")
    case True
    then have "map (\<lambda>r. if P r then f r else r) xs = xs"
      using Cons.prems assms(2) by (intro map_idI) (auto simp: rev_image_eqI)
    then show ?thesis by simp
  next
    case False
    with Cons show ?thesis by simp
  qed
qed

lemma revoked_rows_eq: "revoked_rows t db = filter (\<lambda>r. row_tenant_id r = t \<and> \<not> live r) (db_api_keys db)"
  by (simp add: revoked_rows_def tenant_rows_def)

lemma keys_by_insert:
  assumes "insert_row K r db = Inr db'" and "row_revoked_at r = None"
  shows "length (tenant_rows t db') \<le> length (tenant_rows t db) + 1"
    and "revoked_rows t db' = revoked_rows t db"
  using assms(1)
  by (rule insert_row_Inr; use assms(2) in \<open>simp add: tenant_rows_def revoked_rows_def live_def\<close>)+

lemma tenant_rows_keep:
  assumes "\<And>r. row_tenant_id (f r) = row_tenant_id r"
  shows "length (tenant_rows t (update_rows P f db)) = length (tenant_rows t db)"
proof -
  have "length (filter (\<lambda>r. row_tenant_id r = t) (map (\<lambda>r. if P r then f r else r) xs)) =
      length (filter (\<lambda>r. row_tenant_id r = t) xs)" for xs
    using assms by (induction xs) auto
  then show ?thesis by (simp add: tenant_rows_def)
qed

lemma revoked_rows_update:
  assumes "db_ok db" and "\<And>r. P r \<Longrightarrow> row_id r = i"
  shows "length (revoked_rows t (update_rows P f db)) \<le> length (revoked_rows t db) + 1"
  using length_filter_update [of "db_api_keys db" P i] assms by (simp add: revoked_rows_eq db_ok_def)

lemma keys_by_Create: "keys_by K (spec_TenantID spec) True False db (snd (Create K env spec db))"
proof (cases "snd (Create K env spec db) = db")
  case False
  then obtain r where ins: "insert_row K r db = Inr (snd (Create K env spec db))" "row_revoked_at r = None"
    using Create_db [of K env spec db] by blast
  from keys_by_insert [OF ins] Create_scoped show ?thesis
    by (intro keys_byI) (simp_all add: grows_step [OF step_Create])
qed simp

lemma keys_by_Rotate: "keys_by K tenant True True db (snd (Rotate K env tenant i db))"
proof (cases "snd (Rotate K env tenant i db) = db")
  case False
  then obtain r where ins: "insert_row K r (revoke_by_id K env i db) = Inr (snd (Rotate K env tenant i db))"
      "row_revoked_at r = None"
    using Rotate_db [of K env tenant i db] by blast
  have one: "Some (row_id r) = kl_uuid K i \<Longrightarrow> row_id r = the (kl_uuid K i)" for r
    by (metis option.sel)
  from revoked_rows_update [where P = "\<lambda>r. Some (row_id r) = kl_uuid K i", OF _ one]
  have "db_ok db \<Longrightarrow> length (revoked_rows t (revoke_by_id K env i db)) \<le> length (revoked_rows t db) + 1" for t
    by blast
  moreover have "length (tenant_rows t (revoke_by_id K env i db)) = length (tenant_rows t db)" for t
    by (rule tenant_rows_keep) simp
  ultimately show ?thesis
    using keys_by_insert [OF ins] Rotate_scoped [of db K tenant] by (intro keys_byI) (simp_all add: grows_step [OF step_Rotate])
qed simp

lemma keys_by_Revoke: "keys_by K tenant False True db (snd (Revoke K env tenant i db))"
proof (cases "snd (Revoke K env tenant i db) = db")
  case False
  then obtain i' t' where db': "snd (Revoke K env tenant i db) =
      update_rows (revoke_where i' t') (\<lambda>r. r\<lparr>row_revoked_at := Some (pg_now env)\<rparr>) db"
    using Revoke_db [of K env tenant i db] by blast
  have "length (tenant_rows t (snd (Revoke K env tenant i db))) = length (tenant_rows t db)" for t
    unfolding db' by (rule tenant_rows_keep) simp
  moreover have "db_ok db \<Longrightarrow>
      length (revoked_rows t (snd (Revoke K env tenant i db))) \<le> length (revoked_rows t db) + 1" for t
    unfolding db' by (rule revoked_rows_update [of _ _ i']) (auto simp: revoke_where_def)
  ultimately show ?thesis
    using Revoke_scoped [of K tenant] by (intro keys_byI) (simp_all add: grows_step [OF step_Revoke])
qed simp

end
