(* ===== verification/Config.thy ===== *)
theory Config
  imports Go_Strings
begin

text \<open>
  Configuration of \<open>shared/config/config.go\<close>: the \<open>.env\<close> reader, the typed getters and
  \<open>Load\<close>, over the process environment as a map. \<open>strconv.Atoi\<close> and \<open>time.ParseDuration\<close> are
  translated from their documented algorithms; the floating-point product that
  \<open>ParseDuration\<close> uses for a fractional part is an argument \<open>frac\<close> (digits after the point,
  their number, unit), so the results hold whatever it rounds to.
\<close>

section \<open>Definitions\<close>

subsection \<open>Numbers\<close>

definition is_digit :: "char \<Rightarrow> bool" where
  "is_digit c \<longleftrightarrow> in_range 48 57 c"

definition digit :: "char \<Rightarrow> int" where
  "digit c = int (of_char c) - 48"

fun digits_value :: "int \<Rightarrow> string \<Rightarrow> int" where
  "digits_value acc [] = acc"
| "digits_value acc (c # cs) = digits_value (acc * 10 + digit c) cs"

definition Atoi :: "string \<Rightarrow> int option" where
  "Atoi s =
     (let neg = (s \<noteq> [] \<and> hd s = CHR ''-'');
          ds = (if s \<noteq> [] \<and> (hd s = CHR ''-'' \<or> hd s = CHR ''+'') then tl s else s);
          n = (if neg then - digits_value 0 ds else digits_value 0 ds)
      in if ds \<noteq> [] \<and> list_all is_digit ds \<and> int64_range n then Some n else None)"

text \<open>\<open>leadingInt\<close>: a decimal prefix, refused once it exceeds \<open>2 ^ 63\<close>.\<close>

fun leadingInt :: "int \<Rightarrow> string \<Rightarrow> (int \<times> string) option" where
  "leadingInt x [] = Some (x, [])"
| "leadingInt x (c # cs) =
     (if \<not> is_digit c then Some (x, c # cs)
      else if x > 2 ^ 63 div 10 then None
      else if x * 10 + digit c > 2 ^ 63 then None
      else leadingInt (x * 10 + digit c) cs)"

text \<open>\<open>leadingFraction\<close>: digits past an overflow are consumed and ignored; the scale is \<open>10 ^ k\<close>.\<close>

fun leadingFraction :: "int \<Rightarrow> nat \<Rightarrow> bool \<Rightarrow> string \<Rightarrow> int \<times> nat \<times> string" where
  "leadingFraction x k overflow [] = (x, k, [])"
| "leadingFraction x k overflow (c # cs) =
     (if \<not> is_digit c then (x, k, c # cs)
      else if overflow then leadingFraction x k True cs
      else if x > (2 ^ 63 - 1) div 10 \<or> x * 10 + digit c > 2 ^ 63
        then leadingFraction x k True cs
      else leadingFraction (x * 10 + digit c) (Suc k) False cs)"

definition unitMap :: "(string \<times> int) list" where
  "unitMap =
     [(''ns'', Nanosecond), (''us'', Microsecond),
      ([CHR 0xC2, CHR 0xB5, CHR ''s''], Microsecond), ([CHR 0xCE, CHR 0xBC, CHR ''s''], Microsecond),
      (''ms'', Millisecond), (''s'', Second), (''m'', Minute), (''h'', Hour)]"

definition unit_char :: "char \<Rightarrow> bool" where
  "unit_char c \<longleftrightarrow> \<not> (c = CHR ''.'' \<or> is_digit c)"

lemma leadingInt_length: "leadingInt x s = Some (v, r) \<Longrightarrow> length r \<le> length s"
  by (induction x s rule: leadingInt.induct) (auto split: if_splits)

lemma leadingFraction_length: "leadingFraction x k b s = (f, k', r) \<Longrightarrow> length r \<le> length s"
  by (induction x k b s rule: leadingFraction.induct) (auto split: if_splits)

text \<open>The number before a unit: the integer, the fraction and the rest, or a syntax error.\<close>

definition duration_number :: "string \<Rightarrow> (int \<times> int \<times> nat \<times> string) option" where
  "duration_number s =
     (if s = [] \<or> \<not> (hd s = CHR ''.'' \<or> is_digit (hd s)) then None
      else case leadingInt 0 s of
        None \<Rightarrow> None
      | Some (v, s1) \<Rightarrow>
          (let pre = (length s1 \<noteq> length s);
               (f, k, s2) = (if s1 \<noteq> [] \<and> hd s1 = CHR ''.''
                             then leadingFraction 0 0 False (tl s1) else (0, 0, s1));
               post = (s1 \<noteq> [] \<and> hd s1 = CHR ''.'' \<and> length s2 \<noteq> length (tl s1))
           in if \<not> pre \<and> \<not> post then None else Some (v, f, k, s2)))"

lemma duration_number_length:
  assumes "duration_number s = Some (v, f, k, r)"
  shows "length r \<le> length s"
proof -
  obtain s1 where s1: "leadingInt 0 s = Some (v, s1)"
    and r: "(f, k, r) = (if s1 \<noteq> [] \<and> hd s1 = CHR ''.''
                         then leadingFraction 0 0 False (tl s1) else (0, 0, s1))"
    using assms by (auto simp: duration_number_def Let_def split: if_splits option.splits prod.splits)
  have "length r \<le> length s1"
  proof (cases "s1 \<noteq> [] \<and> hd s1 = CHR ''.''")
    case True
    then have "length r \<le> length (tl s1)" using r leadingFraction_length by metis
    then show ?thesis by simp
  next
    case False
    then show ?thesis using r by auto
  qed
  with leadingInt_length [OF s1] show ?thesis by linarith
qed

text \<open>The loop over number-unit pairs, with the sum so far; the sums are of type \<open>uint64\<close>.\<close>

function duration_loop :: "(int \<Rightarrow> nat \<Rightarrow> int \<Rightarrow> int) \<Rightarrow> int \<Rightarrow> string \<Rightarrow> int option" where
  "duration_loop frac d s =
     (if s = [] then Some d
      else case duration_number s of
        None \<Rightarrow> None
      | Some (v, f, k, s1) \<Rightarrow>
          (let u = takeWhile unit_char s1; s2 = dropWhile unit_char s1 in
           if u = [] then None
           else case map_of unitMap u of
             None \<Rightarrow> None
           | Some unit \<Rightarrow>
               (if v > 2 ^ 63 div unit then None
                else (let v' = (if f > 0 then (v * unit + frac f k unit) mod 2 ^ 64 else v * unit);
                          d' = (d + v') mod 2 ^ 64 in
                      if f > 0 \<and> v' > 2 ^ 63 then None
                      else if d' > 2 ^ 63 then None
                      else duration_loop frac d' s2))))"
  by pat_completeness auto
termination
proof (relation "measure (\<lambda>(frac, d, s). length s)")
  fix frac d s p v q f r k s1 u s2 unit v' d'
  assume *: "s \<noteq> []" "duration_number s = Some p" "(v, q) = p" "(f, r) = q" "(k, s1) = r"
    "u = takeWhile unit_char s1" "s2 = dropWhile unit_char s1" "u \<noteq> []"
  then have "length s1 \<le> length s" by (auto intro: duration_number_length)
  moreover have "length u + length s2 = length s1"
    using * by (metis length_append takeWhile_dropWhile_id)
  moreover have "0 < length u" using \<open>u \<noteq> []\<close> by (rule length_greater_0_conv [THEN iffD2])
  ultimately have "length s2 < length s" by linarith
  then show "((frac, d', s2), frac, d, s) \<in> measure (\<lambda>(frac, d, s). length s)"
    by simp
qed simp

declare duration_loop.simps [simp del]

definition ParseDuration :: "(int \<Rightarrow> nat \<Rightarrow> int \<Rightarrow> int) \<Rightarrow> string \<Rightarrow> int option" where
  "ParseDuration frac s =
     (let neg = (s \<noteq> [] \<and> hd s = CHR ''-'');
          s1 = (if s \<noteq> [] \<and> (hd s = CHR ''-'' \<or> hd s = CHR ''+'') then tl s else s)
      in if s1 = ''0'' then Some 0
         else if s1 = [] then None
         else case duration_loop frac 0 s1 of
                None \<Rightarrow> None
              | Some d \<Rightarrow> (if neg then Some (wrap64 (- d)) else if d > 2 ^ 63 - 1 then None else Some d))"

subsection \<open>The process environment\<close>

type_synonym env = "string \<rightharpoonup> string"

definition Getenv :: "env \<Rightarrow> string \<Rightarrow> string" where
  "Getenv e k = (case e k of None \<Rightarrow> '''' | Some v \<Rightarrow> v)"

text \<open>\<open>os.Setenv\<close> refuses an empty name and NUL bytes; the caller ignores the error.\<close>

definition Setenv :: "string \<Rightarrow> string \<Rightarrow> env \<Rightarrow> env" where
  "Setenv k v e =
     (if k = '''' \<or> CHR ''='' \<in> set k \<or> CHR 0x00 \<in> set k \<or> CHR 0x00 \<in> set v then e else e(k \<mapsto> v))"

subsection \<open>loadDotEnv\<close>

text \<open>
  \<open>bufio.ScanLines\<close>: lines end at a newline, a carriage return before it is dropped, and the
  scan stops at a line that does not fit the scanner's 64 KiB buffer.
\<close>

definition drop_cr :: "string \<Rightarrow> string" where
  "drop_cr l = (if l \<noteq> [] \<and> last l = CHR 0x0D then butlast l else l)"

definition MaxScanTokenSize :: nat where "MaxScanTokenSize = 65536"

function scan_lines :: "string \<Rightarrow> string list" where
  "scan_lines s =
     (if s = [] then []
      else (let l = takeWhile (\<lambda>c. c \<noteq> CHR 0x0A) s; rest = dropWhile (\<lambda>c. c \<noteq> CHR 0x0A) s in
            if MaxScanTokenSize \<le> length l then []
            else drop_cr l # scan_lines (tl rest)))"
  by pat_completeness auto
termination
proof (relation "measure length")
  fix s l rest :: string
  assume "s \<noteq> []" "rest = dropWhile (\<lambda>c. c \<noteq> CHR 0x0A) s"
  then have "length rest \<le> length s" by (simp add: length_dropWhile_le)
  with \<open>s \<noteq> []\<close> show "(tl rest, s) \<in> measure length" by (cases rest) auto
qed simp

declare scan_lines.simps [simp del]

definition unquote_value :: "string \<Rightarrow> string" where
  "unquote_value value =
     (if value \<noteq> [] \<and> (hd value = CHR 0x22 \<or> hd value = CHR 0x27)
      then (case IndexByte (tl value) (hd value) of
              Some i \<Rightarrow> take i (tl value)
            | None \<Rightarrow> tl value)
      else (case IndexAny value [CHR '' '', CHR 0x09] of
              Some i \<Rightarrow> (if CHR ''#'' \<in> set (drop i value) then TrimSpace (take i value) else value)
            | None \<Rightarrow> value))"

text \<open>One line: the binding it asks for, if any.\<close>

definition dotenv_line :: "string \<Rightarrow> (string \<times> string) option" where
  "dotenv_line text =
     (let line = TrimSpace text in
      if line = '''' \<or> HasPrefix line ''#'' then None
      else case Cut line (CHR ''='') of
             None \<Rightarrow> None
           | Some (key, value) \<Rightarrow> Some (TrimSpace key, unquote_value (TrimSpace value)))"

definition dotenv_bind :: "string \<times> string \<Rightarrow> env \<Rightarrow> env" where
  "dotenv_bind kv e = (if e (fst kv) = None then Setenv (fst kv) (snd kv) e else e)"

text \<open>\<open>file\<close> is the content of \<open>.env\<close>, or nothing when it cannot be opened.\<close>

definition loadDotEnv :: "string option \<Rightarrow> env \<Rightarrow> env" where
  "loadDotEnv file e =
     (case file of
        None \<Rightarrow> e
      | Some content \<Rightarrow> fold dotenv_bind (List.map_filter dotenv_line (scan_lines content)) e)"

subsection \<open>Getters\<close>

definition requireEnv :: "env \<Rightarrow> string \<Rightarrow> string + string" where
  "requireEnv e key =
     (let v = Getenv e key in
      if v = '''' then Inl (''required environment variable '' @ Quote key @ '' is not set'') else Inr v)"

definition getEnvOrDefault :: "env \<Rightarrow> string \<Rightarrow> string \<Rightarrow> string" where
  "getEnvOrDefault e key fallback = (let v = Getenv e key in if v \<noteq> '''' then v else fallback)"

definition getDurationOrDefault :: "(int \<Rightarrow> nat \<Rightarrow> int \<Rightarrow> int) \<Rightarrow> env \<Rightarrow> string \<Rightarrow> int \<Rightarrow> int" where
  "getDurationOrDefault frac e key fallback =
     (let v = Getenv e key in
      if v = '''' then fallback
      else case ParseDuration frac v of None \<Rightarrow> fallback | Some d \<Rightarrow> d)"

definition getIntOrDefault :: "env \<Rightarrow> string \<Rightarrow> int \<Rightarrow> int" where
  "getIntOrDefault e key fallback =
     (let v = Getenv e key in
      if v = '''' then fallback else case Atoi v of None \<Rightarrow> fallback | Some i \<Rightarrow> i)"

subsection \<open>Load\<close>

record ServerConfig =
  sv_Addr :: string
  sv_ShutdownTimeout :: int

record PostgresConfig =
  po_DSN :: string

record RedisConfig =
  rd_Addr :: string
  rd_Password :: string

record AuthConfig =
  ac_JWTSecret :: string
  ac_AccessTokenTTL :: int
  ac_RefreshTokenTTL :: int

record PolicyConfig =
  pc_CacheRefreshInterval :: int
  pc_EvalTimeoutMs :: int

record GatewayConfig =
  gc_RateLimitRequests :: int
  gc_RateLimitWindow :: int
  gc_IdempotencyTTL :: int

record Config =
  cfg_Server :: ServerConfig
  cfg_Postgres :: PostgresConfig
  cfg_Redis :: RedisConfig
  cfg_Auth :: AuthConfig
  cfg_Policy :: PolicyConfig
  cfg_Gateway :: GatewayConfig
  cfg_LogLevel :: string

definition Load :: "(int \<Rightarrow> nat \<Rightarrow> int \<Rightarrow> int) \<Rightarrow> string option \<Rightarrow> env \<Rightarrow> string + Config" where
  "Load frac dotenv e0 =
     (let e = loadDotEnv dotenv e0 in
      case requireEnv e ''POSTGRES_DSN'' of
        Inl err \<Rightarrow> Inl err
      | Inr dsn \<Rightarrow>
     (case requireEnv e ''JWT_SECRET'' of
        Inl err \<Rightarrow> Inl err
      | Inr jwtSecret \<Rightarrow>
          Inr \<lparr>cfg_Server = \<lparr>sv_Addr = getEnvOrDefault e ''SERVER_ADDR'' '':8080'',
                 sv_ShutdownTimeout = getDurationOrDefault frac e ''SERVER_SHUTDOWN_TIMEOUT'' (10 * Second)\<rparr>,
               cfg_Postgres = \<lparr>po_DSN = dsn\<rparr>,
               cfg_Redis = \<lparr>rd_Addr = getEnvOrDefault e ''REDIS_ADDR'' ''localhost:6379'',
                 rd_Password = Getenv e ''REDIS_PASSWORD''\<rparr>,
               cfg_Auth = \<lparr>ac_JWTSecret = jwtSecret,
                 ac_AccessTokenTTL = getDurationOrDefault frac e ''ACCESS_TOKEN_TTL'' (15 * Minute),
                 ac_RefreshTokenTTL = getDurationOrDefault frac e ''REFRESH_TOKEN_TTL'' (7 * 24 * Hour)\<rparr>,
               cfg_Policy = \<lparr>
                 pc_CacheRefreshInterval = getDurationOrDefault frac e ''POLICY_CACHE_REFRESH'' (60 * Second),
                 pc_EvalTimeoutMs = getIntOrDefault e ''POLICY_EVAL_TIMEOUT_MS'' 5\<rparr>,
               cfg_Gateway = \<lparr>gc_RateLimitRequests = getIntOrDefault e ''RATE_LIMIT_REQUESTS'' 100,
                 gc_RateLimitWindow = getDurationOrDefault frac e ''RATE_LIMIT_WINDOW'' Minute,
                 gc_IdempotencyTTL = getDurationOrDefault frac e ''IDEMPOTENCY_TTL'' (24 * Hour)\<rparr>,
               cfg_LogLevel = getEnvOrDefault e ''LOG_LEVEL'' ''info''\<rparr>))"

subsection \<open>Specification\<close>

text \<open>A binding \<open>os.Setenv\<close> accepts.\<close>

definition settable :: "string \<times> string \<Rightarrow> bool" where
  "settable kv \<longleftrightarrow> fst kv \<noteq> '''' \<and> CHR ''='' \<notin> set (fst kv) \<and> CHR 0x00 \<notin> set (fst kv) \<and>
     CHR 0x00 \<notin> set (snd kv)"

text \<open>The file as a list of bindings.\<close>

definition dotenv_bindings :: "string option \<Rightarrow> (string \<times> string) list" where
  "dotenv_bindings file =
     (case file of
        None \<Rightarrow> []
      | Some content \<Rightarrow> filter settable (List.map_filter dotenv_line (scan_lines content)))"

section \<open>Lemmas\<close>

subsection \<open>The environment\<close>

lemma dotenv_bind_apply:
  "dotenv_bind kv e k = (if e k = None \<and> settable kv \<and> fst kv = k then Some (snd kv) else e k)"
  by (auto simp: dotenv_bind_def Setenv_def settable_def)

lemma fold_dotenv_bind:
  "fold dotenv_bind kvs e k =
     (case e k of Some v \<Rightarrow> Some v | None \<Rightarrow> map_of (filter settable kvs) k)"
proof (induction kvs arbitrary: e)
  case Nil
  then show ?case by (simp split: option.splits)
next
  case (Cons kv kvs)
  then show ?case by (cases kv) (auto simp: dotenv_bind_apply split: option.splits)
qed

lemma loadDotEnv_apply:
  "loadDotEnv file e k = (case e k of Some v \<Rightarrow> Some v | None \<Rightarrow> map_of (dotenv_bindings file) k)"
  by (simp add: loadDotEnv_def dotenv_bindings_def fold_dotenv_bind split: option.splits)

subsection \<open>Trimming\<close>

text \<open>Trimming stops at a byte that is part of no word to trim.\<close>

lemma strip_left_barrier:
  assumes "\<forall>w \<in> set ws. q \<notin> set w"
  shows "\<exists>p. strip_left ws (rest @ q # xs) = p @ q # xs \<and> length p \<le> length rest"
proof (induction "length rest" arbitrary: rest rule: less_induct)
  case less
  show ?case
  proof (cases "leading ws (rest @ q # xs)")
    case None
    then show ?thesis by (auto simp: strip_left_None)
  next
    case (Some w)
    then have w: "w \<in> set ws" "w \<noteq> []" "HasPrefix (rest @ q # xs) w"
      by (auto simp: leading_def dest: find_Some_conv)
    then have "q \<notin> set w" using assms by blast
    have "length w \<le> length rest"
    proof (rule ccontr)
      assume "\<not> length w \<le> length rest"
      then have "take (length w) (rest @ q # xs) = rest @ q # take (length w - length rest - 1) xs"
        by (simp add: take_Cons')
      with w(3) have "q \<in> set w" by (metis HasPrefix_def in_set_conv_decomp)
      with \<open>q \<notin> set w\<close> show False by simp
    qed
    then have "drop (length w) (rest @ q # xs) = drop (length w) rest @ q # xs" by simp
    moreover have "length (drop (length w) rest) < length rest"
      using \<open>length w \<le> length rest\<close> w(2) by (cases w) auto
    ultimately show ?thesis
      using less [of "drop (length w) rest"] Some
      by (subst strip_left.simps) (auto intro: order_trans less_imp_le)
  qed
qed

text \<open>The first and last byte of a string are outside every white-space encoding.\<close>

definition inked :: "char \<Rightarrow> bool" where
  "inked c \<longleftrightarrow> (\<forall>w \<in> set space_runes. c \<notin> set w)"

lemma TrimSpace_inked:
  assumes "xs \<noteq> []" and "inked (hd xs)" and "inked (last xs)"
  shows "\<exists>r. TrimSpace (xs @ rest) = xs @ r \<and> length r \<le> length rest"
proof -
  have "leading space_runes (xs @ rest) = None"
    using assms(1,2)
    by (cases xs)
       (auto simp: leading_def find_None_iff inked_def HasPrefix_def take_Cons' neq_Nil_conv split: if_splits)
  then have left: "TrimLeft_space (xs @ rest) = xs @ rest"
    by (simp add: TrimLeft_space_def strip_left_None)
  have split: "rev (xs @ rest) = rev rest @ last xs # rev (butlast xs)"
    using assms(1) by (metis append_butlast_last_id rev.simps(2) rev_append rev_rev_ident rev_singleton_conv
        append_Cons append_Nil)
  have "\<forall>w \<in> set (map rev space_runes). last xs \<notin> set w"
    using assms(3) by (auto simp: inked_def)
  from strip_left_barrier [OF this, of "rev rest" "rev (butlast xs)"]
  obtain p where p: "strip_left (map rev space_runes) (rev (xs @ rest)) = p @ last xs # rev (butlast xs)"
    and "length p \<le> length rest" unfolding split by auto
  have "TrimSpace (xs @ rest) = rev (p @ last xs # rev (butlast xs))"
    by (simp only: TrimSpace_def left TrimRight_space_def p)
  also have "\<dots> = xs @ rev p" using assms(1) by simp
  finally show ?thesis using \<open>length p \<le> length rest\<close> by auto
qed

lemma TrimSpace_id: "xs \<noteq> [] \<Longrightarrow> inked (hd xs) \<Longrightarrow> inked (last xs) \<Longrightarrow> TrimSpace xs = xs"
  using TrimSpace_inked [of xs "[]"] by auto

subsection \<open>Lines\<close>

lemma inked_ascii [simp]:
  "inked (CHR 0x22)" "inked (CHR 0x27)" "inked (CHR ''='')"
  by (simp_all add: inked_def space_runes_def)

text \<open>A quoted value is kept as it stands, whatever follows the closing quote.\<close>

lemma dotenv_line_quoted:
  assumes key: "key \<noteq> []" "inked (hd key)" "inked (last key)" "hd key \<noteq> CHR ''#''" "CHR ''='' \<notin> set key"
    and q: "q = CHR 0x22 \<or> q = CHR 0x27" and "q \<notin> set body"
  shows "dotenv_line (key @ CHR ''='' # q # body @ q # rest) = Some (key, body)"
proof -
  have [simp]: "inked q" using q by auto
  obtain r1 where r1: "TrimSpace (key @ CHR ''='' # q # body @ q # rest) =
      key @ CHR ''='' # q # body @ q # r1"
    using TrimSpace_inked [of "key @ CHR ''='' # q # body @ [q]" rest] key by auto
  obtain r2 where r2: "TrimSpace (q # body @ q # r1) = q # body @ q # r2"
    using TrimSpace_inked [of "q # body @ [q]" r1] by auto
  have "Cut (key @ CHR ''='' # q # body @ q # r1) (CHR ''='') = Some (key, q # body @ q # r1)"
    using key(5) by (simp add: Cut_first)
  moreover have "unquote_value (q # body @ q # r2) = body"
    using q \<open>q \<notin> set body\<close> by (auto simp: unquote_value_def IndexByte_first)
  moreover have "\<not> HasPrefix (key @ CHR ''='' # q # body @ q # r1) ''#''"
    using key(1,4) by (cases key) (auto simp: HasPrefix_def)
  ultimately show ?thesis
    using key by (simp add: dotenv_line_def Let_def r1 r2 TrimSpace_id)
qed

text \<open>An unquoted value with no blank in it is kept; one with a later comment is cut at its first blank.\<close>

lemma unquote_value_plain:
  assumes "value = [] \<or> hd value \<noteq> CHR 0x22 \<and> hd value \<noteq> CHR 0x27"
    and "CHR '' '' \<notin> set value" and "CHR 0x09 \<notin> set value"
  shows "unquote_value value = value"
proof -
  have "IndexAny value [CHR '' '', CHR 0x09] = None"
    unfolding IndexAny_def index_where_None using assms(2,3) by auto
  with assms(1) show ?thesis by (auto simp: unquote_value_def)
qed

lemma unquote_value_comment:
  assumes "word \<noteq> []" "inked (hd word)" "inked (last word)"
    and "hd word \<noteq> CHR 0x22" "hd word \<noteq> CHR 0x27"
    and "CHR '' '' \<notin> set word" "CHR 0x09 \<notin> set word"
    and "b = CHR '' '' \<or> b = CHR 0x09" and "CHR ''#'' \<in> set rest"
  shows "unquote_value (word @ b # rest) = word"
proof -
  have "index_where (\<lambda>x. x \<in> set [CHR '' '', CHR 0x09]) (word @ b # rest) = Some (length word)"
    by (subst index_where_append) (use assms(6-8) in auto)
  then have "IndexAny (word @ b # rest) [CHR '' '', CHR 0x09] = Some (length word)"
    by (simp add: IndexAny_def)
  then show ?thesis
    using assms(1-5,9) by (simp add: unquote_value_def TrimSpace_id)
qed

subsection \<open>Durations\<close>

lemma digit_nonneg: "is_digit c \<Longrightarrow> 0 \<le> digit c"
  by (simp add: is_digit_def digit_def in_range_def)

lemma digits_value_mono:
  "0 \<le> x \<Longrightarrow> list_all is_digit ds \<Longrightarrow> x \<le> digits_value x ds"
proof (induction ds arbitrary: x)
  case Nil
  then show ?case by simp
next
  case (Cons c ds)
  have "0 \<le> digit c" using Cons.prems by (simp add: digit_nonneg)
  then have "x \<le> x * 10 + digit c" "0 \<le> x * 10 + digit c" using Cons.prems(1) by linarith+
  with Cons.IH [of "x * 10 + digit c"] Cons.prems(2) show ?case by simp
qed

lemma leadingInt_digits:
  assumes "list_all is_digit ds" and "0 \<le> x" and "digits_value x ds \<le> 2 ^ 63"
    and "rest = [] \<or> \<not> is_digit (hd rest)"
  shows "leadingInt x (ds @ rest) = Some (digits_value x ds, rest)"
  using assms
proof (induction ds arbitrary: x)
  case Nil
  then show ?case by (cases rest) auto
next
  case (Cons c ds)
  have d: "0 \<le> digit c" using Cons.prems(1) by (simp add: digit_nonneg)
  then have "x * 10 + digit c \<le> digits_value x (c # ds)"
    using Cons.prems(1,2) digits_value_mono [of "x * 10 + digit c" ds] by simp
  with Cons.prems(3) have le: "x * 10 + digit c \<le> 2 ^ 63" by linarith
  then have "x \<le> 2 ^ 63 div 10" using d by linarith
  with Cons le d show ?case by simp
qed

lemma unit_not_digit:
  assumes "map_of unitMap u = Some unit"
  shows "0 < unit \<and> u \<noteq> [] \<and> list_all unit_char u"
  using assms
  by (auto simp: unitMap_def duration_units unit_char_def is_digit_def in_range_def split: if_splits)

lemma duration_loop_integral:
  assumes "ds \<noteq> []" "list_all is_digit ds" "map_of unitMap u = Some unit"
    and "digits_value 0 ds * unit < 2 ^ 63"
  shows "duration_loop frac 0 (ds @ u) = Some (digits_value 0 ds * unit)"
proof -
  let ?v = "digits_value 0 ds"
  note u = unit_not_digit [OF assms(3)]
  have "hd u \<noteq> CHR ''.'' \<and> \<not> is_digit (hd u)" "0 \<le> ?v"
    using u digits_value_mono [of 0 ds] assms(2) by (cases u, auto simp: unit_char_def)
  moreover have "?v \<le> ?v * unit"
    using \<open>0 \<le> ?v\<close> u by (simp add: mult_le_cancel_left1)
  ultimately have "leadingInt 0 (ds @ u) = Some (?v, u)"
    using assms by (intro leadingInt_digits) auto
  moreover have "is_digit (hd (ds @ u))" using assms(1,2) by (cases ds) auto
  ultimately have num: "duration_number (ds @ u) = Some (?v, 0, 0, u)"
    using \<open>hd u \<noteq> CHR ''.'' \<and> \<not> is_digit (hd u)\<close> assms(1)
    by (simp add: duration_number_def)
  have "?v * unit div unit \<le> 2 ^ 63 div unit"
    using assms(4) u by (intro zdiv_mono1) auto
  then have le: "\<not> ?v > 2 ^ 63 div unit" using u by simp
  have "0 \<le> ?v * unit" using \<open>0 \<le> ?v\<close> u by simp
  moreover have tw: "takeWhile unit_char u = u" "dropWhile unit_char u = []"
    using u by (auto simp: list_all_iff)
  moreover have nil: "duration_loop frac d [] = Some d" for d
    by (subst duration_loop.simps) simp
  ultimately show ?thesis
    using u le assms(1,3,4) by (subst duration_loop.simps) (simp add: num tw nil)
qed

text \<open>A whole number of a unit parses to that many nanoseconds, negated under a minus sign.\<close>

lemma ParseDuration_integral:
  assumes "ds \<noteq> []" "list_all is_digit ds" "map_of unitMap u = Some unit"
    and "digits_value 0 ds * unit < 2 ^ 63"
  shows "ParseDuration frac (ds @ u) = Some (digits_value 0 ds * unit)"
    and "ParseDuration frac (CHR ''-'' # ds @ u) = Some (- (digits_value 0 ds * unit))"
proof -
  let ?d = "digits_value 0 ds * unit"
  note u = unit_not_digit [OF assms(3)]
  have hd: "hd (ds @ u) \<noteq> CHR ''-''" "hd (ds @ u) \<noteq> CHR ''+''"
    using assms(1,2) by (cases ds; auto simp: is_digit_def in_range_def)+
  have "ds @ u \<noteq> ''0''"
    using assms(1,2) u by (cases ds; cases u) (auto simp: unit_char_def is_digit_def in_range_def)
  moreover have "0 \<le> ?d"
    using digits_value_mono [of 0 ds] assms(2) u by simp
  then have "wrap64 (- ?d) = - ?d"
    using assms(4) by (intro wrap64_id) (simp add: int64_range_def)
  ultimately show "ParseDuration frac (ds @ u) = Some ?d"
    and "ParseDuration frac (CHR ''-'' # ds @ u) = Some (- ?d)"
    using hd assms(1,4) duration_loop_integral [OF assms] by (auto simp: ParseDuration_def Let_def)
qed

text \<open>Whatever the input, the result is an \<open>int64\<close>.\<close>

lemma duration_loop_step:
  assumes "s \<noteq> []" and "duration_loop frac d s = Some x"
  obtains d' s1 where "0 \<le> d'" "d' \<le> 2 ^ 63" "length s1 \<le> length s"
    "takeWhile unit_char s1 \<noteq> []" "duration_loop frac d' (dropWhile unit_char s1) = Some x"
proof -
  from assms obtain v f k s1 where num: "duration_number s = Some (v, f, k, s1)"
    by (subst (asm) duration_loop.simps) (auto split: option.splits)
  from assms num obtain unit where u: "takeWhile unit_char s1 \<noteq> []"
      "map_of unitMap (takeWhile unit_char s1) = Some unit"
    by (subst (asm) duration_loop.simps) (auto simp: Let_def split: option.splits if_splits)
  define v' where "v' = (if f > 0 then (v * unit + frac f k unit) mod 2 ^ 64 else v * unit)"
  have "(d + v') mod 2 ^ 64 \<le> 2 ^ 63 \<and>
      duration_loop frac ((d + v') mod 2 ^ 64) (dropWhile unit_char s1) = Some x"
    using assms num u
    by (subst (asm) duration_loop.simps) (simp add: Let_def v'_def split: if_splits)
  then show ?thesis
    using that [of "(d + v') mod 2 ^ 64" s1] u(1) duration_number_length [OF num] by simp
qed

lemma duration_loop_range:
  "duration_loop frac d s = Some x \<Longrightarrow> 0 \<le> d \<Longrightarrow> d \<le> 2 ^ 63 \<Longrightarrow> 0 \<le> x \<and> x \<le> 2 ^ 63"
proof (induction s arbitrary: d rule: measure_induct_rule [of length])
  case (less s)
  show ?case
  proof (cases "s = []")
    case True
    with less.prems show ?thesis by (subst (asm) duration_loop.simps) simp
  next
    case False
    from False less.prems(1) show ?thesis
    proof (rule duration_loop_step)
      fix d' s1
      assume *: "0 \<le> d'" "d' \<le> 2 ^ 63" "length s1 \<le> length s" "takeWhile unit_char s1 \<noteq> []"
        "duration_loop frac d' (dropWhile unit_char s1) = Some x"
      have "length (takeWhile unit_char s1) + length (dropWhile unit_char s1) = length s1"
        by (metis length_append takeWhile_dropWhile_id)
      moreover have "0 < length (takeWhile unit_char s1)"
        using *(4) by (rule length_greater_0_conv [THEN iffD2])
      ultimately have "length (dropWhile unit_char s1) < length s"
        using *(3) by linarith
      from less.IH [OF this *(5,1,2)] show ?thesis .
    qed
  qed
qed

lemma ParseDuration_range:
  assumes "ParseDuration frac s = Some d"
  shows "int64_range d"
proof -
  have small: "duration_loop frac 0 t = Some x \<Longrightarrow> x \<le> 2 ^ 63 - 1 \<Longrightarrow> int64_range x" for t x
    using duration_loop_range [of frac 0 t x] by (auto simp: int64_range_def)
  have zero: "int64_range 0" by (simp add: int64_range_def)
  show ?thesis
    using assms
    by (auto simp: ParseDuration_def Let_def zero split: if_splits option.splits intro: small)
qed

lemma Atoi_range: "Atoi s = Some i \<Longrightarrow> int64_range i"
  by (auto simp: Atoi_def Let_def split: if_splits)

subsection \<open>Load\<close>

lemma getDurationOrDefault_range:
  "int64_range fallback \<Longrightarrow> int64_range (getDurationOrDefault frac e key fallback)"
  by (auto simp: getDurationOrDefault_def Let_def split: option.splits intro: ParseDuration_range)

lemma getIntOrDefault_range: "int64_range fallback \<Longrightarrow> int64_range (getIntOrDefault e key fallback)"
  by (auto simp: getIntOrDefault_def Let_def split: option.splits intro: Atoi_range)

lemma Load_InrD:
  assumes "Load frac file e0 = Inr cfg"
  shows "ac_JWTSecret (cfg_Auth cfg) \<noteq> ''''" "po_DSN (cfg_Postgres cfg) \<noteq> ''''"
    "int64_range (pc_EvalTimeoutMs (cfg_Policy cfg))"
    "int64_range (gc_RateLimitWindow (cfg_Gateway cfg))"
    "int64_range (gc_IdempotencyTTL (cfg_Gateway cfg))"
    "int64_range (gc_RateLimitRequests (cfg_Gateway cfg))"
    "int64_range (ac_AccessTokenTTL (cfg_Auth cfg))"
    "int64_range (ac_RefreshTokenTTL (cfg_Auth cfg))"
  using assms
  by (auto simp: Load_def Let_def requireEnv_def split: if_splits
      intro!: getIntOrDefault_range getDurationOrDefault_range)
     (auto simp: int64_range_def duration_units)

lemma Load_ok_iff:
  "is_ok (Load frac file e0) \<longleftrightarrow>
     Getenv (loadDotEnv file e0) ''POSTGRES_DSN'' \<noteq> '''' \<and> Getenv (loadDotEnv file e0) ''JWT_SECRET'' \<noteq> ''''"
  by (simp add: Load_def Let_def requireEnv_def)

end
