(* ===== verification/Gateway.thy ===== *)
theory Gateway
  imports Edge Idempotency Key_Accounts Config
begin

text \<open>
  The gateway of \<open>internal/gateway/router.go\<close> and \<open>stub.go\<close>: the world its handlers act on, the
  placeholder module, and the routes with the middleware pipeline composed as the router wires
  it. Each component's operations are lifted to the world and shown to keep their contracts
  there, so that the lemmas of the component locales apply to the whole gateway.

  A request reaches the gateway with the route the framework's router matched (\<open>FullPath\<close> and
  path parameters). Everything else a request meets (clock readings, fresh identifiers, faults
  of the database, the outcome of the policy engine's select) is its environment.
\<close>

section \<open>Definitions\<close>

subsection \<open>World, environment and collaborators\<close>

record 'r World =
  w_Redis :: "'r RedisClient \<times> 'r"
  w_Mem :: MemoryLimiter
  w_Db :: Db
  w_Log :: "log_line list"
  w_Calls :: "64 word"

record Env =
  ev_uuid :: string
  ev_latency :: int
  ev_auth_now :: int
  ev_resolve :: PgEnv
  ev_limit :: "int \<times> string"
  ev_mem_now :: int
  ev_select :: select_case
  ev_audit_now :: int
  ev_store :: PgEnv
  ev_user_uuid :: string
  ev_parse_now :: int
  ev_issue_now :: int

text \<open>
  The libraries: tokens, database, encoders, \<open>strconv.ParseFloat\<close> (nothing on an error) and
  the JSON decoding of the three request bodies (nothing when \<open>ShouldBindJSON\<close> fails).
\<close>

record Libs =
  l_Jwt :: JwtLib
  l_Key :: KeyLib
  l_Http :: HttpLib
  l_ParseFloat :: "string \<Rightarrow> float64 option"
  l_bind_token :: "string \<Rightarrow> tokenRequest option"
  l_bind_refresh :: "string \<Rightarrow> string option"
  l_bind_key :: "string \<Rightarrow> createKeyRequest option"

text \<open>\<open>Redis\<close> and \<open>Stub\<close> are part of the world; \<open>d_APIKeys\<close> tells whether there is a key store.\<close>

record Deps =
  d_Config :: Config
  d_Logger :: Logger
  d_Issuer :: Issuer
  d_Engine :: Engine
  d_Auditor :: LogAuditor
  d_APIKeys :: bool

subsection \<open>Component operations on the world\<close>

definition w_emit :: "'r World emitter" where
  "w_emit lg lvl msg as w = w\<lparr>w_Log := slog_Log lg lvl msg as (w_Log w)\<rparr>"

definition w_Write :: "LogAuditor \<Rightarrow> int \<Rightarrow> AuditRecord \<Rightarrow> 'r World \<Rightarrow> string option \<times> 'r World" where
  "w_Write a now r w =
     (case LogAuditor_Write a now r (w_Log w) of (e, lines) \<Rightarrow> (e, w\<lparr>w_Log := lines\<rparr>))"

definition w_redis_Allow ::
  "int \<times> string \<Rightarrow> string \<Rightarrow> string \<Rightarrow> int \<Rightarrow> int \<Rightarrow> 'r World \<Rightarrow> (bool \<times> string option) \<times> 'r World" where
  "w_redis_Allow e t x limit window w =
     (case redis_limiter_Allow e t x limit window (w_Redis w) of (v, s) \<Rightarrow> (v, w\<lparr>w_Redis := s\<rparr>))"

definition w_memory_Allow ::
  "int \<Rightarrow> string \<Rightarrow> string \<Rightarrow> int \<Rightarrow> int \<Rightarrow> 'r World \<Rightarrow> (bool \<times> string option) \<times> 'r World" where
  "w_memory_Allow now t x limit window w =
     (case MemoryLimiter_Allow now t x limit window (w_Mem w) of (v, m) \<Rightarrow> (v, w\<lparr>w_Mem := m\<rparr>))"

definition w_Get :: "string \<Rightarrow> string \<Rightarrow> 'r World \<Rightarrow> cache_error + string" where
  "w_Get t x w = redis_get t x (w_Redis w)"

definition w_Set :: "string \<Rightarrow> string \<Rightarrow> string \<Rightarrow> int \<Rightarrow> 'r World \<Rightarrow> string option \<times> 'r World" where
  "w_Set t x v ttl w = (case redis_set t x v ttl (w_Redis w) of (e, s) \<Rightarrow> (e, w\<lparr>w_Redis := s\<rparr>))"

definition on_db :: "(Db \<Rightarrow> 'a \<times> Db) \<Rightarrow> 'r World \<Rightarrow> 'a \<times> 'r World" where
  "on_db f w = (case f (w_Db w) of (x, db) \<Rightarrow> (x, w\<lparr>w_Db := db\<rparr>))"

subsection \<open>stub.go\<close>

definition stub_handle :: "'r World handler" where
  "stub_handle c w =
     (let n = w_Calls w + 1;
          i = (case FromGin c of Some i \<Rightarrow> i | None \<Rightarrow> zero_Identity);
          status = (if req_Method (c_Request c) = ''POST'' then 201 else 200)
      in (gin_JSON status (JObject
            [(''ok'', JBool True), (''handler'', JString (FullPath c)),
             (''tenant_id'', JString (id_TenantID i)), (''actor_id'', JString (id_UserID i)),
             (''role'', JString (id_Role i)), (''call_seq'', JInt (sint n))]) c,
          w\<lparr>w_Calls := n\<rparr>))"

definition queryResourceExtractor :: "(string \<Rightarrow> float64 option) \<Rightarrow> GinCtx \<Rightarrow> Identity \<Rightarrow> Resource" where
  "queryResourceExtractor ParseFloat c actor =
     (let r = zero_Resource\<lparr>res_ID := Query c ''id'', res_TenantID := Query c ''tenant_id'',
                 res_Region := Query c ''region'', res_OwnerSupplierID := Query c ''supplier_id''\<rparr>;
          v = Query c ''value_usd''
      in if v \<noteq> ''''
         then (case ParseFloat v of None \<Rightarrow> r | Some f \<Rightarrow> r\<lparr>res_ValueUSD := f\<rparr>)
         else r)"

subsection \<open>router.go\<close>

definition handleHealth :: "'r World handler" where
  "handleHealth c w =
     (let redisOK = (Redis_Ping (fst (w_Redis w)) (snd (w_Redis w)) = None) in
      (gin_JSON 200 (JObject [(''status'', JString ''ok''), (''redis'', JBool redisOK)]) c, w))"

definition gw_Enforce :: "Libs \<Rightarrow> Deps \<Rightarrow> Env \<Rightarrow> Action \<Rightarrow> string \<Rightarrow> 'r World handler \<Rightarrow> 'r World handler" where
  "gw_Enforce L D ev action resourceType =
     Enforce (d_Engine D) (w_Write (d_Auditor D) (ev_audit_now ev)) action resourceType
       (Some (queryResourceExtractor (l_ParseFloat L))) (ev_select ev)"

definition gw_Idempotency :: "Libs \<Rightarrow> Deps \<Rightarrow> 'r World handler \<Rightarrow> 'r World handler" where
  "gw_Idempotency L D =
     Idempotency (l_Http L) w_Get w_Set (gc_IdempotencyTTL (cfg_Gateway (d_Config D))) w_emit"

text \<open>A route: method, pattern and the chain of the route itself.\<close>

type_synonym 'r route = "string \<times> string \<times> 'r World handler"

definition registerStubRoutes :: "Libs \<Rightarrow> Deps \<Rightarrow> Env \<Rightarrow> 'r route list" where
  "registerStubRoutes L D ev =
     [(''POST'', ''/v1/orders'',
         gw_Idempotency L D (gw_Enforce L D ev ActionCreate ''order'' stub_handle)),
      (''GET'', ''/v1/orders/:id'', gw_Enforce L D ev ActionRead ''order'' stub_handle),
      (''PUT'', ''/v1/orders/:id'', gw_Enforce L D ev ActionUpdate ''order'' stub_handle),
      (''GET'', ''/v1/inventory'', gw_Enforce L D ev ActionRead ''inventory'' stub_handle),
      (''PUT'', ''/v1/inventory'', gw_Enforce L D ev ActionUpdate ''inventory'' stub_handle),
      (''GET'', ''/v1/shipments/:id'', gw_Enforce L D ev ActionRead ''shipment'' stub_handle)]"

definition registerAPIKeyRoutes :: "Libs \<Rightarrow> Deps \<Rightarrow> Env \<Rightarrow> 'r route list" where
  "registerAPIKeyRoutes L D ev =
     (if \<not> d_APIKeys D then []
      else
       [(''POST'', ''/v1/api-keys'', gw_Enforce L D ev ActionCreate ''api_key''
          (APIKeyHandler_Create (l_bind_key L) (\<lambda>spec. on_db (Create (l_Key L) (ev_store ev) spec)))),
        (''GET'', ''/v1/api-keys'', gw_Enforce L D ev ActionRead ''api_key''
          (APIKeyHandler_List (\<lambda>t w. List_keys (l_Key L) (ev_store ev) t (w_Db w)))),
        (''POST'', ''/v1/api-keys/:id/rotate'', gw_Enforce L D ev ActionUpdate ''api_key''
          (APIKeyHandler_Rotate (\<lambda>t i. on_db (Rotate (l_Key L) (ev_store ev) t i)))),
        (''DELETE'', ''/v1/api-keys/:id'', gw_Enforce L D ev ActionDelete ''api_key''
          (APIKeyHandler_Revoke (\<lambda>t i. on_db (Revoke (l_Key L) (ev_store ev) t i))))])"

text \<open>The group \<open>/v1\<close>: a credential, then the rate limit.\<close>

definition resolver :: "Libs \<Rightarrow> Deps \<Rightarrow> Env \<Rightarrow> (string \<Rightarrow> 'r World \<Rightarrow> (auth_error + Identity) \<times> 'r World) option" where
  "resolver L D ev =
     (if d_APIKeys D then Some (\<lambda>k. on_db (Resolve (l_Key L) (ev_resolve ev) k)) else None)"

definition v1 :: "Libs \<Rightarrow> Deps \<Rightarrow> Env \<Rightarrow> 'r World handler \<Rightarrow> 'r World handler" where
  "v1 L D ev next =
     Authenticate (l_Jwt L) (d_Issuer D) (ev_auth_now ev) (resolver L D ev)
       (RateLimit (w_redis_Allow (ev_limit ev)) (w_memory_Allow (ev_mem_now ev))
          (gc_RateLimitRequests (cfg_Gateway (d_Config D)))
          (gc_RateLimitWindow (cfg_Gateway (d_Config D))) w_emit next)"

definition public_routes :: "Libs \<Rightarrow> Deps \<Rightarrow> Env \<Rightarrow> 'r route list" where
  "public_routes L D ev =
     (''GET'', ''/health'', handleHealth) #
     auth_Register
       (issueToken (l_Jwt L) (d_Issuer D) (l_bind_token L) (ev_user_uuid ev) (ev_issue_now ev))
       (refresh (l_Jwt L) (d_Issuer D) (l_bind_refresh L) (ev_parse_now ev) (ev_issue_now ev))"

definition protected_routes :: "Libs \<Rightarrow> Deps \<Rightarrow> Env \<Rightarrow> 'r route list" where
  "protected_routes L D ev = registerStubRoutes L D ev @ registerAPIKeyRoutes L D ev"

definition NewRouter :: "Libs \<Rightarrow> Deps \<Rightarrow> Env \<Rightarrow> 'r route list" where
  "NewRouter L D ev =
     public_routes L D ev @
     map (\<lambda>(m, p, h). (m, p, v1 L D ev h)) (protected_routes L D ev)"

text \<open>
  Serving a request: the global middlewares run for every request, also when no route matched,
  which the framework answers with 404 and a plain text.
\<close>

definition pipeline :: "Deps \<Rightarrow> Env \<Rightarrow> 'r World handler \<Rightarrow> 'r World handler" where
  "pipeline D ev h = RequestID (d_Logger D) (ev_uuid ev) (RequestLog (ev_latency ev) w_emit h)"

definition matched :: "Libs \<Rightarrow> Deps \<Rightarrow> Env \<Rightarrow> Request \<Rightarrow> 'r World handler" where
  "matched L D ev r =
     (case List.find (\<lambda>(m, p, h). m = req_Method r \<and> p = req_FullPath r) (NewRouter L D ev) of
        Some (_, _, h) \<Rightarrow> h
      | None \<Rightarrow> (\<lambda>c w. (gin_NotFound c, w)))"

definition ServeHTTP :: "Libs \<Rightarrow> Deps \<Rightarrow> Env \<Rightarrow> Request \<Rightarrow> 'r World \<Rightarrow> GinCtx \<times> 'r World" where
  "ServeHTTP L D ev r w = pipeline D ev (matched L D ev r) (fresh_ctx r) w"

definition initial_world :: "'r RedisClient \<times> 'r \<Rightarrow> string list \<Rightarrow> 'r World" where
  "initial_world rdb tenants =
     \<lparr>w_Redis = rdb, w_Mem = NewMemoryLimiter, w_Db = initial_db tenants, w_Log = [], w_Calls = 0\<rparr>"

subsection \<open>Specification\<close>

text \<open>The action and resource type that guard each protected route.\<close>

definition route_policy :: "(string \<times> string \<times> Action \<times> string) list" where
  "route_policy =
     [(''POST'', ''/v1/orders'', ActionCreate, ''order''),
      (''GET'', ''/v1/orders/:id'', ActionRead, ''order''),
      (''PUT'', ''/v1/orders/:id'', ActionUpdate, ''order''),
      (''GET'', ''/v1/inventory'', ActionRead, ''inventory''),
      (''PUT'', ''/v1/inventory'', ActionUpdate, ''inventory''),
      (''GET'', ''/v1/shipments/:id'', ActionRead, ''shipment''),
      (''POST'', ''/v1/api-keys'', ActionCreate, ''api_key''),
      (''GET'', ''/v1/api-keys'', ActionRead, ''api_key''),
      (''POST'', ''/v1/api-keys/:id/rotate'', ActionUpdate, ''api_key''),
      (''DELETE'', ''/v1/api-keys/:id'', ActionDelete, ''api_key'')]"

text \<open>The requests that some route matches.\<close>

definition public_paths :: "(string \<times> string) list" where
  "public_paths = [(''GET'', ''/health''), (''POST'', ''/v1/auth/token''), (''POST'', ''/v1/auth/refresh'')]"

definition routed :: "Deps \<Rightarrow> Request \<Rightarrow> bool" where
  "routed D r \<longleftrightarrow> (req_Method r, req_FullPath r) \<in> set public_paths \<or>
     (\<exists>(m, p, a, t) \<in> set route_policy. m = req_Method r \<and> p = req_FullPath r \<and> (t = ''api_key'' \<longrightarrow> d_APIKeys D))"

text \<open>
  What the infrastructure around a handler may do to the world: it runs no handler, changes no
  key and writes no audit record.
\<close>

definition quiet :: "'r World \<Rightarrow> 'r World \<Rightarrow> bool" where
  "quiet w w' \<longleftrightarrow> w_Calls w' = w_Calls w \<and> key_view (w_Db w') = key_view (w_Db w) \<and>
     audit_trail (w_Log w') = audit_trail (w_Log w) \<and> grows (w_Db w) (w_Db w')"

text \<open>A log that grew by lines other than those of the access log.\<close>

definition log_grows :: "'r World \<Rightarrow> 'r World \<Rightarrow> bool" where
  "log_grows w w' \<longleftrightarrow> (\<exists>ls. w_Log w' = w_Log w @ ls \<and> (\<forall>l \<in> set ls. ln_Msg l \<noteq> ''request''))"

text \<open>A context that still carries what the request came with and who sent it.\<close>

definition carries :: "GinCtx \<Rightarrow> GinCtx \<Rightarrow> bool" where
  "carries c c' \<longleftrightarrow> c_Request c' = c_Request c \<and> FromGin c' = FromGin c \<and>
     get_string c' RequestIDKey = get_string c RequestIDKey \<and> c_Written c' = c_Written c \<and>
     c_Header c' = c_Header c \<and> c_Context c' = c_Context c"

text \<open>The context a request enters the routes with, and the credential it presents.\<close>

definition entry_ctx :: "Deps \<Rightarrow> Env \<Rightarrow> Request \<Rightarrow> GinCtx" where
  "entry_ctx D ev r =
     install_request_id (d_Logger D) (request_id (ev_uuid ev) (fresh_ctx r)) (fresh_ctx r)"

definition presented :: "Libs \<Rightarrow> Deps \<Rightarrow> Env \<Rightarrow> Request \<Rightarrow> 'r World \<Rightarrow> auth_error + Identity" where
  "presented L D ev r w =
     fst (resolveIdentity (l_Jwt L) (d_Issuer D) (ev_auth_now ev) (resolver L D ev) (entry_ctx D ev r) w)"

text \<open>The question a protected route asks the policy engine, and the record it writes.\<close>

definition route_input :: "Libs \<Rightarrow> Action \<Rightarrow> string \<Rightarrow> Request \<Rightarrow> Identity \<Rightarrow> Input" where
  "route_input L action resourceType r i =
     enforce_input action resourceType (Some (queryResourceExtractor (l_ParseFloat L))) (fresh_ctx r) i"

definition route_decision :: "Libs \<Rightarrow> Deps \<Rightarrow> Env \<Rightarrow> Action \<Rightarrow> string \<Rightarrow> Request \<Rightarrow> Identity \<Rightarrow> Decision" where
  "route_decision L D ev action resourceType r i =
     Evaluate (d_Engine D) (ev_select ev) (route_input L action resourceType r i)"

definition route_record :: "Libs \<Rightarrow> Deps \<Rightarrow> Env \<Rightarrow> Action \<Rightarrow> string \<Rightarrow> Request \<Rightarrow> Identity \<Rightarrow> AuditRecord" where
  "route_record L D ev action resourceType r i =
     stamp (ev_audit_now ev)
       (enforce_record action resourceType (in_Resource (route_input L action resourceType r i))
          (route_decision L D ev action resourceType r i) (entry_ctx D ev r) i)"

section \<open>The component contracts on the world\<close>

lemma snd_w_Write: "snd (w_Write a now r w) = w\<lparr>w_Log := snd (LogAuditor_Write a now r (w_Log w))\<rparr>"
  by (simp add: w_Write_def split: prod.splits)

interpretation world_auditor: auditor w_Write audit_enabled "\<lambda>w. audit_trail (w_Log w)"
  by unfold_locales
     (simp_all add: w_Write_def log_auditor.Write_ok log_auditor.Write_trail split: prod.splits,
      (metis fst_conv log_auditor.Write_ok), (metis snd_conv log_auditor.Write_trail))

lemma on_db_simps [simp]:
  "snd (on_db f w) = w\<lparr>w_Db := snd (f (w_Db w))\<rparr>" "fst (on_db f w) = fst (f (w_Db w))"
  by (simp_all add: on_db_def split: prod.splits)

lemma on_db_eq: "on_db f w = (x, w') \<Longrightarrow> f (w_Db w) = (x, w_Db w')"
  by (auto simp: on_db_def split: prod.splits)

interpretation world_keys: key_store "\<lambda>env k. on_db (Resolve K env k)" "\<lambda>w. db_ok (w_Db w)"
    "\<lambda>env spec. on_db (Create K env spec)" "\<lambda>env t i. on_db (Rotate K env t i)"
    "\<lambda>env t i. on_db (Revoke K env t i)" "\<lambda>t w. tenant_rows t (w_Db w)" "kl_uuid K"
  for K :: KeyLib
  by unfold_locales
     (auto intro: pg_store.resolve_inv pg_store.create_inv pg_store.rotate_inv pg_store.revoke_inv
        pg_store.create_scoped pg_store.rotate_scoped pg_store.revoke_scoped
        dest!: on_db_eq intro: pg_store.resolve_valid [rotated])

interpretation world_cache: response_cache w_Get w_Set Key
    "\<lambda>w. redis_reads_back (fst (w_Redis w))"
proof
  fix w :: "'r World" and t x v ttl w' t' x'
  assume "redis_reads_back (fst (w_Redis w))" "w_Set t x v ttl w = (None, w')" "0 < ttl"
    "Key t' x' = Key t x" "answers (w_Get t' x' w')"
  then show "w_Get t' x' w' = Inr v"
    using redis_cache.put_get [of "w_Redis w" t x v ttl "w_Redis w'" t' x']
    by (auto simp: w_Get_def w_Set_def split: prod.splits)
next
  fix w :: "'r World" and t x v ttl e w' t' x'
  assume "redis_reads_back (fst (w_Redis w))" "w_Set t x v ttl w = (e, w')"
    "Key t' x' \<noteq> Key t x" "answers (w_Get t' x' w')"
  then show "w_Get t' x' w' = w_Get t' x' w"
    using redis_cache.put_other [of "w_Redis w" t x v ttl e "w_Redis w'" t' x']
    by (auto simp: w_Get_def w_Set_def split: prod.splits)
next
  fix w :: "'r World" and t x v ttl
  assume "redis_reads_back (fst (w_Redis w))"
  then show "redis_reads_back (fst (w_Redis (snd (w_Set t x v ttl w))))"
    using redis_cache.put_inv [of "w_Redis w" t x v ttl] by (auto simp: w_Set_def split: prod.splits)
qed

section \<open>Lemmas\<close>

subsection \<open>What the infrastructure does\<close>

lemma quiet_refl [simp]: "quiet w w"
  by (simp add: quiet_def)

lemma quiet_trans [trans]: "quiet a b \<Longrightarrow> quiet b c \<Longrightarrow> quiet a c"
  by (auto simp: quiet_def intro: grows_trans)

lemma carries_refl [simp]: "carries c c"
  by (simp add: carries_def)

lemma quiet_emit: "msg \<noteq> ''audit'' \<Longrightarrow> quiet w (w_emit lg lvl msg as w)"
  by (simp add: quiet_def w_emit_def audit_trail_other_line)

lemma quiet_redis [simp]: "quiet w (w\<lparr>w_Redis := s\<rparr>)" "quiet w (w\<lparr>w_Mem := m\<rparr>)"
  by (simp_all add: quiet_def)

lemma quiet_redis_Allow: "quiet w (snd (w_redis_Allow e t x limit window w))"
  by (simp add: w_redis_Allow_def split: prod.splits)

lemma quiet_memory_Allow: "quiet w (snd (w_memory_Allow now t x limit window w))"
  by (simp add: w_memory_Allow_def split: prod.splits)

lemma quiet_Set: "quiet w (snd (w_Set t x v ttl w))"
  by (simp add: w_Set_def split: prod.splits)

lemma key_view_Resolve: "key_view (snd (Resolve K env k db)) = key_view db"
  using Resolve_db [of K env k db] by (auto simp: key_view_def)

lemma quiet_Resolve: "quiet w (snd (on_db (Resolve K env k) w))"
  using grows_step [OF step_Resolve] by (simp add: quiet_def key_view_Resolve)

lemma quiet_resolveIdentity: "quiet w (snd (resolveIdentity J iss now (resolver L D ev) c w))"
  using quiet_Resolve [of w]
  by (auto simp: resolveIdentity_def resolver_def Let_def split: option.splits)

lemma redis_resolveIdentity: "w_Redis (snd (resolveIdentity J iss now (resolver L D ev) c w)) = w_Redis w"
  by (auto simp: resolveIdentity_def resolver_def Let_def split: option.splits)

lemma quiet_idem_store: "quiet w (idem_store H w_Set ttl w_emit c c' w)"
proof -
  have "quiet w (w_emit lg lvl ''failed to persist idempotent response'' as (snd (w_Set t x v ttl w)))"
    for lg lvl as t x v
    by (rule quiet_trans [OF quiet_Set quiet_emit]) simp
  then show ?thesis
    using quiet_Set [of w] by (auto simp: idem_store_def Let_def split: option.splits prod.splits) (metis snd_conv)+
qed

subsection \<open>What it does to the log\<close>

lemma log_grows_refl [simp]: "log_grows w w"
  by (simp add: log_grows_def)

lemma log_grows_trans: "log_grows a b \<Longrightarrow> log_grows b c \<Longrightarrow> log_grows a c"
  by (auto simp: log_grows_def)

lemma log_grows_emit: "msg \<noteq> ''request'' \<Longrightarrow> log_grows w (w_emit lg lvl msg as w)"
  by (auto simp: log_grows_def w_emit_def slog_Log_def)

lemma log_grows_same: "w_Log w' = w_Log w \<Longrightarrow> log_grows w w'"
  by (simp add: log_grows_def)

lemma log_frames:
  "w_Log (snd (w_redis_Allow e t x limit window w)) = w_Log w"
  "w_Log (snd (w_memory_Allow now t x limit window w)) = w_Log w"
  "w_Log (snd (w_Set t x v ttl w)) = w_Log w"
  "w_Log (snd (on_db f w)) = w_Log w"
  by (simp_all add: w_redis_Allow_def w_memory_Allow_def w_Set_def split: prod.splits)

lemma log_grows_Write: "log_grows w (snd (w_Write a now rec w))"
  by (auto simp: log_grows_def snd_w_Write LogAuditor_Write_def slog_Log_def)

subsection \<open>The phases of a request\<close>

text \<open>
  Each middleware either answers by itself or continues, and which of the two does not depend
  on the rest of the chain.
\<close>

lemma RateLimit_phase:
  assumes "FromGin c = Some i"
  obtains (refused) c1 w1 where "quiet w w1" "carries c c1" "log_grows w w1"
      "\<And>next. RateLimit (w_redis_Allow e) (w_memory_Allow now) limit window w_emit next c w =
         (Abort 429 CodeRateLimited ''rate limit exceeded'' c1, w1)"
      "w_Redis w1 = snd (redis_limiter_Allow e (id_TenantID i) (''ratelimit:'' @ FullPath c) limit window (w_Redis w))"
  | (admitted) c1 w1 where "quiet w w1" "carries c c1" "log_grows w w1"
      "\<And>next. RateLimit (w_redis_Allow e) (w_memory_Allow now) limit window w_emit next c w = next c1 w1"
      "w_Redis w1 = snd (redis_limiter_Allow e (id_TenantID i) (''ratelimit:'' @ FullPath c) limit window (w_Redis w))"
proof -
  let ?t = "id_TenantID i" and ?x = "''ratelimit:'' @ FullPath c"
  let ?msg = "''rate limiter falling back to in-memory''"
  let ?R = "\<lambda>next. RateLimit (w_redis_Allow e) (w_memory_Allow now) limit window w_emit next c w"
  obtain ok err w1 where r: "w_redis_Allow e ?t ?x limit window w = ((ok, err), w1)"
    by (metis prod.exhaust)
  then have q1: "quiet w w1" and g1: "log_grows w w1"
    by (metis quiet_redis_Allow snd_conv, metis log_frames(1) log_grows_same snd_conv)
  have s1: "w_Redis w1 = snd (redis_limiter_Allow e ?t ?x limit window (w_Redis w))"
    using r by (auto simp: w_redis_Allow_def split: prod.splits)
  show thesis
  proof (cases err)
    case None
    with assms r have "?R next = (if ok then next c w1
        else (Abort 429 CodeRateLimited ''rate limit exceeded'' c, w1))" for "next"
      by (simp add: RateLimit_def)
    with q1 g1 s1 refused [of w1 c] admitted [of w1 c] show thesis by (cases ok) auto
  next
    case (Some m)
    let ?as = "[(''error'', AStr m), (''tenant_id'', AStr ?t), (''route'', AStr (FullPath c))]"
    define w2 where "w2 = w_emit (logger_FromContext (c_Context c)) LevelWarn ?msg ?as w1"
    obtain ok2 err2 w3 where f: "w_memory_Allow now ?t ?x limit window w2 = ((ok2, err2), w3)"
      by (metis prod.exhaust)
    define c2 where "c2 = gin_Set FallbackKey (GBool True) c"
    have "quiet w1 w2" by (simp add: w2_def quiet_emit)
    moreover have "quiet w2 w3" using f by (metis quiet_memory_Allow snd_conv)
    ultimately have q: "quiet w w3" using q1 by (blast intro: quiet_trans)
    have "log_grows w1 w2" by (simp add: w2_def log_grows_emit)
    moreover have "log_grows w2 w3" using f by (metis log_frames(2) log_grows_same snd_conv)
    ultimately have g: "log_grows w w3" using g1 by (blast intro: log_grows_trans)
    have cs: "carries c c2" by (simp add: carries_def c2_def)
    have "?R next = (if ok2 then next c2 w3
        else (Abort 429 CodeRateLimited ''rate limit exceeded'' c2, w3))" for "next"
      using assms r Some f by (simp add: RateLimit_def w2_def [symmetric] c2_def [symmetric])
    moreover have "w_Redis w3 = w_Redis w1"
      using f by (auto simp: w2_def w_emit_def w_memory_Allow_def split: prod.splits)
    ultimately show thesis
      using q g cs s1 refused [of w3 c2] admitted [of w3 c2] by (cases ok2) auto
  qed
qed

text \<open>The limiter's access to Redis on behalf of an identity.\<close>

definition rate_limited :: "Deps \<Rightarrow> Env \<Rightarrow> Request \<Rightarrow> Identity \<Rightarrow> 'r redis_limiter \<Rightarrow> 'r redis_limiter" where
  "rate_limited D ev r i s =
     snd (redis_limiter_Allow (ev_limit ev) (id_TenantID i) (''ratelimit:'' @ req_FullPath r)
       (gc_RateLimitRequests (cfg_Gateway (d_Config D))) (gc_RateLimitWindow (cfg_Gateway (d_Config D))) s)"

text \<open>The group \<open>/v1\<close>: refused with 401 or 429, or continued with a verified identity.\<close>

lemma v1_phase:
  fixes w :: "'r World"
  assumes "c = entry_ctx D ev r"
  obtains (refused) c1 w1 where "quiet w w1" "c_Status c1 = 401 \<or> c_Status c1 = 429"
      "is_ok (presented L D ev r w) \<longleftrightarrow> c_Status c1 = 429"
      "\<And>next. v1 L D ev next c w = (c1, w1)"
      "w_Redis w1 = (case presented L D ev r w of Inl err \<Rightarrow> w_Redis w | Inr i \<Rightarrow> rate_limited D ev r i (w_Redis w))"
  | (admitted) i c1 w1 where "quiet w w1" "presented L D ev r w = Inr i" "Valid (id_Role i)"
      "FromGin c1 = Some i" "c_Request c1 = r" "get_string c1 RequestIDKey = get_string c RequestIDKey"
      "c_Written c1 = []" "\<And>next. v1 L D ev next c w = next c1 w1"
      "w_Redis w1 = rate_limited D ev r i (w_Redis w)" "c_Header c1 ''Content-Type'' = None"
proof -
  let ?resolve = "resolveIdentity (l_Jwt L) (d_Issuer D) (ev_auth_now ev) (resolver L D ev) c w"
  obtain reply w0 where res: "?resolve = (reply, w0)" by (cases ?resolve)
  have q0: "quiet w w0" using quiet_resolveIdentity res by (metis snd_conv)
  have s0: "w_Redis w0 = w_Redis w" using redis_resolveIdentity res by (metis snd_conv)
  have pres: "presented L D ev r w = reply" using res assms by (simp add: presented_def)
  show thesis
  proof (cases reply)
    case (Inl err)
    with res have "v1 L D ev next c w = (Unauthorized (auth_message err) c, w0)" for "next"
      by (simp add: v1_def Authenticate_refused)
    with q0 s0 pres Inl refused show thesis by auto
  next
    case (Inr i)
    define c0 where "c0 = install_identity i c"
    have v1: "v1 L D ev next c w = RateLimit (w_redis_Allow (ev_limit ev)) (w_memory_Allow (ev_mem_now ev))
          (gc_RateLimitRequests (cfg_Gateway (d_Config D)))
          (gc_RateLimitWindow (cfg_Gateway (d_Config D))) w_emit next c0 w0" for "next"
      using res Inr by (simp add: v1_def Authenticate_accepted c0_def)
    have c0: "FromGin c0 = Some i" "c_Request c0 = r" "c_Written c0 = []"
        "get_string c0 RequestIDKey = get_string c RequestIDKey" "c_Header c0 ''Content-Type'' = None"
      by (simp_all add: c0_def assms entry_ctx_def fresh_ctx_def get_string_def HeaderRequestID_def)
    have "resolver L D ev = map_option (\<lambda>env k. on_db (Resolve (l_Key L) env k))
        (if d_APIKeys D then Some (ev_resolve ev) else None)"
      by (simp add: resolver_def)
    with res Inr have valid: "Valid (id_Role i)"
      by (metis world_keys.resolveIdentity_valid)
    from c0(1) show thesis
    proof (cases rule: RateLimit_phase [of c0 i w0 "ev_limit ev" "ev_mem_now ev"
          "gc_RateLimitRequests (cfg_Gateway (d_Config D))"
          "gc_RateLimitWindow (cfg_Gateway (d_Config D))"])
      case (refused c1 w1)
      with q0 s0 v1 pres Inr c0(2) that(1) show thesis
        by (auto simp: rate_limited_def intro: quiet_trans)
    next
      case (admitted c1 w1)
      then show thesis
        using that(2) [of w1 i c1] q0 s0 v1 c0 pres Inr valid
        by (auto simp: carries_def rate_limited_def intro: quiet_trans)
    qed
  qed
qed

text \<open>Where the audit record of a decision was written, and nothing else done.\<close>

definition audited :: "Deps \<Rightarrow> AuditRecord \<Rightarrow> 'r World \<Rightarrow> 'r World \<Rightarrow> bool" where
  "audited D rec w w' \<longleftrightarrow> w_Calls w' = w_Calls w \<and> key_view (w_Db w') = key_view (w_Db w) \<and>
     grows (w_Db w) (w_Db w') \<and>
     audit_trail (w_Log w') = audit_trail (w_Log w) @ (if audit_enabled (d_Auditor D) then [rec] else [])"

lemma quiet_audited: "quiet a b \<Longrightarrow> audited D rec b c \<Longrightarrow> audited D rec a c"
  by (auto simp: quiet_def audited_def intro: grows_trans)

lemma audited_quiet: "audited D rec a b \<Longrightarrow> quiet b c \<Longrightarrow> audited D rec a c"
  by (auto simp: quiet_def audited_def intro: grows_trans)

lemma extractor_request:
  "c_Request c = c_Request c' \<Longrightarrow> queryResourceExtractor P c i = queryResourceExtractor P c' i"
  by (simp add: queryResourceExtractor_def Query_def)

lemma enforce_resource_request:
  "c_Request c = c_Request c' \<Longrightarrow>
   enforce_resource t (Some (queryResourceExtractor P)) c i =
   enforce_resource t (Some (queryResourceExtractor P)) c' i"
  by (simp add: enforce_resource_def extractor_request [of c c'])

lemma enforce_input_request:
  "c_Request c = r \<Longrightarrow>
   enforce_input a t (Some (queryResourceExtractor (l_ParseFloat L))) c i = route_input L a t r i"
  unfolding route_input_def enforce_input_def
  by (simp add: enforce_resource_request [of c "fresh_ctx r"] fresh_ctx_def)

text \<open>What the guard of a route decides, and the record it writes.\<close>

lemma enforce_route:
  assumes "c_Request c = r" and "get_string c RequestIDKey = get_string (entry_ctx D ev r) RequestIDKey"
    and "input = enforce_input a t (Some (queryResourceExtractor (l_ParseFloat L))) c i"
  shows "Evaluate (d_Engine D) (ev_select ev) input = route_decision L D ev a t r i"
    and "audited D (route_record L D ev a t r i) w (snd (w_Write (d_Auditor D) (ev_audit_now ev)
      (enforce_record a t (in_Resource input) (route_decision L D ev a t r i) c i) w))"
proof -
  have input: "input = route_input L a t r i"
    unfolding assms(3) enforce_input_request [OF assms(1)] ..
  then show "Evaluate (d_Engine D) (ev_select ev) input = route_decision L D ev a t r i"
    by (simp add: route_decision_def)
  have "stamp (ev_audit_now ev) (enforce_record a t (in_Resource input) (route_decision L D ev a t r i) c i) =
      route_record L D ev a t r i"
    unfolding route_record_def enforce_record_def input assms(2) ..
  then show "audited D (route_record L D ev a t r i) w (snd (w_Write (d_Auditor D) (ev_audit_now ev)
      (enforce_record a t (in_Resource input) (route_decision L D ev a t r i) c i) w))"
    by (simp add: audited_def snd_w_Write LogAuditor_Write_trail)
qed

text \<open>The guard of a route: the decision is recorded, then the handler runs or 403 is written.\<close>

lemma gw_Enforce_phase:
  assumes "FromGin c = Some i" "c_Request c = r"
    and "get_string c RequestIDKey = get_string (entry_ctx D ev r) RequestIDKey"
  obtains c2 w2 where "FromGin c2 = Some i" "c_Request c2 = r" "c_Written c2 = c_Written c"
    "audited D (route_record L D ev a t r i) w w2"
    "\<And>k. gw_Enforce L D ev a t k c w =
       (if dec_Allow (route_decision L D ev a t r i) then k c2 w2
        else (Abort 403 CodeForbidden
               (''denied by policy: '' @ dec_Reason (route_decision L D ev a t r i)) c2, w2))"
proof -
  let ?d = "route_decision L D ev a t r i"
  note guard = enforce_route [OF assms(2,3) refl, where a = a and t = t and L = L and i = i]
  let ?w2 = "snd (w_Write (d_Auditor D) (ev_audit_now ev) (enforce_record a t
      (enforce_resource t (Some (queryResourceExtractor (l_ParseFloat L))) c i) ?d c i) w)"
  have "audited D (route_record L D ev a t r i) w ?w2" using guard(2) by simp
  moreover have "gw_Enforce L D ev a t k c w =
       (if dec_Allow ?d then k (expose_decision ?d c) ?w2
        else (Abort 403 CodeForbidden (''denied by policy: '' @ dec_Reason ?d) (expose_decision ?d c), ?w2))" for k
    using assms(1) guard(1) by (simp add: gw_Enforce_def Enforce_allowed Enforce_denied)
  ultimately show thesis
    using that [of "expose_decision ?d c" ?w2] assms by simp
qed

text \<open>The idempotency middleware: it answers, or runs the rest with quiet work around it.\<close>

lemma gw_Idempotency_phase:
  obtains (answered) c1 w1 where "quiet w w1" "\<And>next. gw_Idempotency L D next c w = (c1, w1)"
  | (runs) w1 where "quiet w w1"
      "\<And>next. fst (gw_Idempotency L D next c w) = fst (next c w1)"
      "\<And>next. quiet (snd (next c w1)) (snd (gw_Idempotency L D next c w))"
proof -
  let ?look = "idem_lookup (l_Http L) w_Get w_emit c w"
  obtain out w1 where look: "?look = (out, w1)" by (cases ?look)
  then have q: "quiet w w1"
    by (auto simp: idem_lookup_def split: if_splits option.splits sum.splits cache_error.splits
        intro!: quiet_emit)
  show thesis
  proof (cases out)
    case (Answer c1)
    with look q answered show thesis by (simp add: gw_Idempotency_def Idempotency_def)
  next
    case Degrade
    with look q runs show thesis by (simp add: gw_Idempotency_def Idempotency_def)
  next
    case Execute
    with look q runs show thesis
      by (simp add: gw_Idempotency_def Idempotency_def quiet_idem_store split: prod.splits)
  qed
qed

subsection \<open>Whole requests\<close>

lemma ServeHTTP_eq:
  "ServeHTTP L D ev r w =
     (case matched L D ev r (entry_ctx D ev r) w of
        (c', w') \<Rightarrow> (c', w_emit (logger_FromContext (c_Context c')) LevelInfo ''request''
                           (access_attrs (ev_latency ev) c') w'))"
  by (simp add: ServeHTTP_def pipeline_def RequestID_def RequestLog_def entry_ctx_def)

text \<open>What a route's own handler does to the world behind its guard.\<close>

definition adds_key :: "Action \<Rightarrow> bool" where
  "adds_key a \<longleftrightarrow> a = ActionCreate \<or> a = ActionUpdate"

definition revokes_key :: "Action \<Rightarrow> bool" where
  "revokes_key a \<longleftrightarrow> a = ActionUpdate \<or> a = ActionDelete"

definition key_change :: "KeyLib \<Rightarrow> Action \<Rightarrow> GinCtx \<Rightarrow> 'r World \<Rightarrow> 'r World \<Rightarrow> bool" where
  "key_change K a c w w' \<longleftrightarrow> w_Log w' = w_Log w \<and> w_Calls w' = w_Calls w \<and> w_Redis w' = w_Redis w \<and>
     (a = ActionRead \<longrightarrow> w_Db w' = w_Db w) \<and>
     (\<forall>i. FromGin c = Some i \<longrightarrow>
        keys_by K (id_TenantID i) (adds_key a) (revokes_key a) (w_Db w) (w_Db w'))"

definition modest :: "KeyLib \<Rightarrow> Action \<Rightarrow> string \<Rightarrow> 'r World handler \<Rightarrow> bool" where
  "modest K a t k \<longleftrightarrow> (\<forall>c w.
     if t = ''api_key'' then key_change K a c w (snd (k c w))
     else w_Log (snd (k c w)) = w_Log w \<and> w_Calls (snd (k c w)) = w_Calls w + 1 \<and>
       w_Db (snd (k c w)) = w_Db w \<and> w_Redis (snd (k c w)) = w_Redis w)"

lemma modest_redis: "modest K a t k \<Longrightarrow> w_Redis (snd (k c w)) = w_Redis w"
  by (auto simp: modest_def key_change_def split: if_splits)

lemma modest_stub: "t \<noteq> ''api_key'' \<Longrightarrow> modest K a t stub_handle"
  by (simp add: modest_def stub_handle_def Let_def)

text \<open>The key handlers change the world by one call of the store for the caller's tenant, or not at all.\<close>

lemma handler_rules:
  "P w \<Longrightarrow> (\<And>spec i. FromGin c = Some i \<Longrightarrow> spec_TenantID spec = id_TenantID i \<Longrightarrow> P (snd (st spec w))) \<Longrightarrow>
   P (snd (APIKeyHandler_Create b st c w))"
  "P w \<Longrightarrow> P (snd (APIKeyHandler_List G c w))"
  "P w \<Longrightarrow> (\<And>x i. FromGin c = Some i \<Longrightarrow> P (snd (st' (id_TenantID i) x w))) \<Longrightarrow>
   P (snd (APIKeyHandler_Rotate st' c w))"
  "P w \<Longrightarrow> (\<And>x i. FromGin c = Some i \<Longrightarrow> P (snd (st'' (id_TenantID i) x w))) \<Longrightarrow>
   P (snd (APIKeyHandler_Revoke st'' c w))"
  by (simp_all add: APIKeyHandler_Create_def APIKeyHandler_List_def APIKeyHandler_Rotate_def
      APIKeyHandler_Revoke_def case_prod_beta split: option.splits sum.splits)

lemma key_change_refl: "key_change K a c w w"
  by (simp add: key_change_def)

lemma key_change_on_db:
  assumes "FromGin c = Some i" and "a \<noteq> ActionRead"
    and "keys_by K (id_TenantID i) (adds_key a) (revokes_key a) (w_Db w) (snd (f (w_Db w)))"
  shows "key_change K a c w (snd (on_db f w))"
  using assms by (simp add: key_change_def)

lemma modest_Create:
  "modest K ActionCreate ''api_key'' (APIKeyHandler_Create b (\<lambda>spec. on_db (Create K env spec)) :: 'r World handler)"
proof -
  have "key_change K ActionCreate c w (snd (APIKeyHandler_Create b (\<lambda>spec. on_db (Create K env spec)) c w))" for c and w :: "'r World"
  proof (rule handler_rules(1) [where P = "key_change K ActionCreate c w", OF key_change_refl])
    fix spec :: CreateAPIKeySpec and i
    assume "FromGin c = Some i" "spec_TenantID spec = id_TenantID i"
    then show "key_change K ActionCreate c w (snd (on_db (Create K env spec) w))"
      using keys_by_Create [of K spec "w_Db w" env]
      by (intro key_change_on_db) (simp_all add: adds_key_def revokes_key_def action_defs)
  qed
  then show ?thesis by (simp add: modest_def)
qed

lemma modest_List: "modest K ActionRead ''api_key'' (APIKeyHandler_List G)"
  by (simp add: modest_def handler_rules(2) key_change_refl)

lemma modest_Rotate:
  "modest K ActionUpdate ''api_key'' (APIKeyHandler_Rotate (\<lambda>t i. on_db (Rotate K env t i)) :: 'r World handler)"
proof -
  have "key_change K ActionUpdate c w (snd (APIKeyHandler_Rotate (\<lambda>t i. on_db (Rotate K env t i)) c w))" for c and w :: "'r World"
  proof (rule handler_rules(3) [where P = "key_change K ActionUpdate c w", OF key_change_refl])
    fix x i
    assume "FromGin c = Some i"
    then show "key_change K ActionUpdate c w (snd (on_db (Rotate K env (id_TenantID i) x) w))"
      using keys_by_Rotate [of K "id_TenantID i" "w_Db w" env x]
      by (intro key_change_on_db) (simp_all add: adds_key_def revokes_key_def action_defs)
  qed
  then show ?thesis by (simp add: modest_def)
qed

lemma modest_Revoke:
  "modest K ActionDelete ''api_key'' (APIKeyHandler_Revoke (\<lambda>t i. on_db (Revoke K env t i)) :: 'r World handler)"
proof -
  have "key_change K ActionDelete c w (snd (APIKeyHandler_Revoke (\<lambda>t i. on_db (Revoke K env t i)) c w))" for c and w :: "'r World"
  proof (rule handler_rules(4) [where P = "key_change K ActionDelete c w", OF key_change_refl])
    fix x i
    assume "FromGin c = Some i"
    then show "key_change K ActionDelete c w (snd (on_db (Revoke K env (id_TenantID i) x) w))"
      using keys_by_Revoke [of K "id_TenantID i" "w_Db w" env x]
      by (intro key_change_on_db) (simp_all add: adds_key_def revokes_key_def action_defs)
  qed
  then show ?thesis by (simp add: modest_def)
qed

lemmas modest_keys = modest_Create modest_List modest_Rotate modest_Revoke

text \<open>A route as the module behind it needs it: enforcement of its row of the policy in front.\<close>

definition guarded :: "Libs \<Rightarrow> Deps \<Rightarrow> Env \<Rightarrow> 'r route \<Rightarrow> bool" where
  "guarded L D ev = (\<lambda>(m, p, h). \<exists>a t k. (m, p, a, t) \<in> set route_policy \<and> modest (l_Key L) a t k \<and>
     (h = gw_Enforce L D ev a t k \<or> h = gw_Idempotency L D (gw_Enforce L D ev a t k)))"

lemma guarded_intros:
  assumes "(m, p, a, t) \<in> set route_policy" and "modest (l_Key L) a t k"
  shows "guarded L D ev (m, p, gw_Enforce L D ev a t k)"
    and "guarded L D ev (m, p, gw_Idempotency L D (gw_Enforce L D ev a t k))"
  using assms unfolding guarded_def by blast+

lemma guarded_stub_routes: "list_all (guarded L D ev) (registerStubRoutes L D ev)"
  by (simp add: registerStubRoutes_def guarded_intros route_policy_def modest_stub)

lemma guarded_key_routes: "list_all (guarded L D ev) (registerAPIKeyRoutes L D ev)"
  by (simp add: registerAPIKeyRoutes_def guarded_intros route_policy_def modest_keys)

lemma protected_shape:
  assumes "(m, p, h) \<in> set (protected_routes L D ev)"
  obtains a t k where "(m, p, a, t) \<in> set route_policy" "modest (l_Key L) a t k"
    "h = gw_Enforce L D ev a t k \<or> h = gw_Idempotency L D (gw_Enforce L D ev a t k)"
proof -
  have "guarded L D ev (m, p, h)"
    using assms guarded_stub_routes [of L D ev] guarded_key_routes [of L D ev]
    by (auto simp: protected_routes_def list_all_iff)
  then show thesis using that unfolding guarded_def by blast
qed

text \<open>What serving a request did to the world: nothing, a decision, or a decision and its effect.\<close>

definition served ::
  "Libs \<Rightarrow> Deps \<Rightarrow> Env \<Rightarrow> Request \<Rightarrow> Identity \<Rightarrow> Action \<Rightarrow> string \<Rightarrow> 'r World \<Rightarrow> 'r World \<Rightarrow> bool" where
  "served L D ev r i a t w w' \<longleftrightarrow>
     audit_trail (w_Log w') = audit_trail (w_Log w) @
       (if audit_enabled (d_Auditor D) then [route_record L D ev a t r i] else []) \<and>
     grows (w_Db w) (w_Db w') \<and>
     (if \<not> dec_Allow (route_decision L D ev a t r i)
      then w_Calls w' = w_Calls w \<and> key_view (w_Db w') = key_view (w_Db w)
      else if t = ''api_key''
      then w_Calls w' = w_Calls w \<and> (a = ActionRead \<longrightarrow> key_view (w_Db w') = key_view (w_Db w)) \<and>
        keys_by (l_Key L) (id_TenantID i) (adds_key a) (revokes_key a) (w_Db w) (w_Db w')
      else w_Calls w' = w_Calls w + 1 \<and> key_view (w_Db w') = key_view (w_Db w))"

lemma served_quiet: "served L D ev r i a t w w1 \<Longrightarrow> quiet w1 w' \<Longrightarrow> served L D ev r i a t w w'"
  using keys_by_view [of "l_Key L" "id_TenantID i" "adds_key a" "revokes_key a" "w_Db w" "w_Db w1" "w_Db w" "w_Db w'"]
  by (auto simp: served_def quiet_def intro: grows_trans)

lemma quiet_served: "quiet w w1 \<Longrightarrow> served L D ev r i a t w1 w' \<Longrightarrow> served L D ev r i a t w w'"
  using keys_by_view [of "l_Key L" "id_TenantID i" "adds_key a" "revokes_key a" "w_Db w1" "w_Db w'" "w_Db w" "w_Db w'"]
  by (auto simp: served_def quiet_def intro: grows_trans)

lemma gw_Enforce_served:
  assumes "FromGin c = Some i" "c_Request c = r" "modest (l_Key L) a t k"
    and "get_string c RequestIDKey = get_string (entry_ctx D ev r) RequestIDKey"
  shows "served L D ev r i a t w (snd (gw_Enforce L D ev a t k c w))"
proof -
  obtain c2 w2 where c2: "FromGin c2 = Some i" and w2: "audited D (route_record L D ev a t r i) w w2"
    and run: "\<And>k. gw_Enforce L D ev a t k c w =
       (if dec_Allow (route_decision L D ev a t r i) then k c2 w2
        else (Abort 403 CodeForbidden
               (''denied by policy: '' @ dec_Reason (route_decision L D ev a t r i)) c2, w2))"
    using gw_Enforce_phase [OF assms(1,2,4)] by metis
  show ?thesis
  proof (cases "dec_Allow (route_decision L D ev a t r i)")
    case False
    with w2 show ?thesis by (simp add: run served_def audited_def)
  next
    case True
    let ?w = "snd (k c2 w2)"
    have "t = ''api_key'' \<Longrightarrow>
        keys_by (l_Key L) (id_TenantID i) (adds_key a) (revokes_key a) (w_Db w2) (w_Db ?w)"
      using assms(3) c2 by (simp add: modest_def key_change_def)
    then have "t = ''api_key'' \<Longrightarrow>
        keys_by (l_Key L) (id_TenantID i) (adds_key a) (revokes_key a) (w_Db w) (w_Db ?w)"
      using w2 by (auto simp: audited_def intro: keys_by_view)
    with True w2 assms(3) show ?thesis
      by (auto simp: run served_def audited_def modest_def key_change_def keys_by_def intro: grows_trans)
  qed
qed

lemma v1_protected_served:
  fixes w :: "'r World"
  assumes "(m, p, h) \<in> set (protected_routes L D ev)"
    and "v1 L D ev h (entry_ctx D ev r) w = (c', w')" and "\<not> quiet w w'"
  obtains i a t where "(m, p, a, t) \<in> set route_policy" "presented L D ev r w = Inr i"
    "Valid (id_Role i)" "served L D ev r i a t w w'"
proof -
  from assms(1) obtain a t k where pol: "(m, p, a, t) \<in> set route_policy" "modest (l_Key L) a t k"
    and h: "h = gw_Enforce L D ev a t k \<or> h = gw_Idempotency L D (gw_Enforce L D ev a t k)"
    by (rule protected_shape)
  have "entry_ctx D ev r = entry_ctx D ev r" ..
  then show thesis
  proof (cases rule: v1_phase [where w = w and L = L])
    case (refused c1 w1)
    with assms(2,3) show ?thesis by simp
  next
    case (admitted i c1 w1)
    then have hw: "h c1 w1 = (c', w')" using assms(2) by simp
    note enf = gw_Enforce_served [OF admitted(4,5) pol(2) admitted(6)]
    have "served L D ev r i a t w1 w'"
    proof (rule disjE [OF h])
      assume "h = gw_Enforce L D ev a t k"
      with hw enf [of w1] show ?thesis by simp
    next
      assume h: "h = gw_Idempotency L D (gw_Enforce L D ev a t k)"
      show ?thesis
      proof (cases rule: gw_Idempotency_phase [of w1 L D c1])
        case (answered c2 w2)
        with admitted(1) hw h assms(3) quiet_trans show ?thesis by (metis snd_conv)
      next
        case (runs w2)
        with hw h have "quiet (snd (gw_Enforce L D ev a t k c1 w2)) w'" by (metis snd_conv)
        with enf [of w2] runs(1) show ?thesis
          by (blast intro: served_quiet quiet_served)
      qed
    qed
    then show ?thesis
      using that [OF pol(1) admitted(2,3)] admitted(1) by (blast intro: quiet_served)
  qed
qed

lemma public_quiet:
  "(m, p, h) \<in> set (public_routes L D ev) \<Longrightarrow> snd (h c w) = w"
  by (auto simp: public_routes_def auth_Register_def handleHealth_def issueToken_def refresh_def Let_def
      split: option.splits sum.splits auth_error.splits)

lemma NewRouter_paths:
  "map (\<lambda>(m, p, h). (m, p)) (NewRouter L D ev) = public_paths @
     map (\<lambda>(m, p, a, t). (m, p)) (filter (\<lambda>(m, p, a, t). t = ''api_key'' \<longrightarrow> d_APIKeys D) route_policy)"
  by (simp add: public_paths_def route_policy_def NewRouter_def public_routes_def auth_Register_def
      protected_routes_def registerStubRoutes_def registerAPIKeyRoutes_def)

lemma routed_iff:
  "routed D r \<longleftrightarrow> (req_Method r, req_FullPath r) \<in> (\<lambda>(m, p, h). (m, p)) ` set (NewRouter L D ev :: 'r route list)"
  unfolding set_map [symmetric] NewRouter_paths by (force simp: routed_def)

lemma matched_cases:
  obtains (none) "(matched L D ev r :: 'r World handler) = (\<lambda>c w. (gin_NotFound c, w))" "\<not> routed D r"
  | (public) h :: "'r World handler"
    where "(req_Method r, req_FullPath r, h) \<in> set (public_routes L D ev)" "matched L D ev r = h"
  | (protected) h :: "'r World handler"
    where "(req_Method r, req_FullPath r, h) \<in> set (protected_routes L D ev)"
      "matched L D ev r = v1 L D ev h"
proof -
  let ?P = "\<lambda>(m, p, h :: 'r World handler). m = req_Method r \<and> p = req_FullPath r"
  show thesis
  proof (cases "List.find ?P (NewRouter L D ev)")
    case None
    then have "(req_Method r, req_FullPath r) \<notin> (\<lambda>(m, p, h). (m, p)) ` set (NewRouter L D ev :: 'r route list)"
      by (auto simp: find_None_iff)
    then have "\<not> routed D r" using routed_iff by blast
    with None show thesis using none by (simp add: matched_def)
  next
    case (Some route)
    obtain m p h where route: "route = (m, p, h)" by (cases route)
    with Some have "(req_Method r, req_FullPath r, h) \<in> set (NewRouter L D ev)"
      by (auto dest!: find_Some_conv)
    moreover have "matched L D ev r = h" using Some route by (simp add: matched_def)
    ultimately show thesis using public protected by (auto simp: NewRouter_def)
  qed
qed

lemma matched_unrouted:
  fixes w :: "'r World"
  assumes "\<not> routed D r"
  shows "matched L D ev r c w = (gin_NotFound c, w)"
proof -
  have "List.find (\<lambda>(m, p, h). m = req_Method r \<and> p = req_FullPath r) (NewRouter L D ev :: 'r route list) = None"
    using assms unfolding routed_iff [of D r L ev, where 'r = 'r] by (force simp: find_None_iff)
  then show ?thesis by (simp add: matched_def)
qed

text \<open>The effect of any request whatsoever.\<close>

lemma ServeHTTP_served:
  fixes w :: "'r World"
  assumes "ServeHTTP L D ev r w = (c', w')" and "\<not> quiet w w'"
  obtains i a t where "(req_Method r, req_FullPath r, a, t) \<in> set route_policy"
    "presented L D ev r w = Inr i" "Valid (id_Role i)" "served L D ev r i a t w w'"
proof -
  obtain c1 w1 where run: "matched L D ev r (entry_ctx D ev r) w = (c1, w1)"
    by (cases "matched L D ev r (entry_ctx D ev r) w")
  have q: "quiet w1 w'"
    using assms(1) run by (auto simp: ServeHTTP_eq intro: quiet_emit)
  with assms(2) have nq: "\<not> quiet w w1" by (blast intro: quiet_trans)
  show thesis
  proof (cases rule: matched_cases [of L D ev r, where 'r = 'r])
    case none
    with run nq show thesis by simp
  next
    case (public h)
    with run nq public_quiet [OF public(1)] show thesis by (metis quiet_refl snd_conv)
  next
    case (protected h)
    then have "v1 L D ev h (entry_ctx D ev r) w = (c1, w1)" using run by simp
    from protected(1) this nq obtain i a t
      where *: "(req_Method r, req_FullPath r, a, t) \<in> set route_policy" "presented L D ev r w = Inr i"
        "Valid (id_Role i)" "served L D ev r i a t w w1"
      by (rule v1_protected_served)
    from that [OF *(1-3) served_quiet [OF *(4) q]] show thesis .
  qed
qed

lemma route_same_tenant:
  assumes "dec_Allow (route_decision L D ev a t r i)"
  shows "res_TenantID (in_Resource (route_input L a t r i)) = id_TenantID i"
  using assms
  by (auto simp: route_decision_def Evaluate_Allow_iff cross_tenant_def route_input_def
      enforce_resource_def Let_def split: if_splits)

subsection \<open>Requests on a protected route\<close>

definition is_order_create :: "Request \<Rightarrow> bool" where
  "is_order_create r \<longleftrightarrow> req_Method r = ''POST'' \<and> req_FullPath r = ''/v1/orders''"

lemma find_route:
  "distinct (map (\<lambda>(m, p, h). (m, p)) rs) \<Longrightarrow> (m, p, h) \<in> set rs \<Longrightarrow>
   List.find (\<lambda>(m', p', h). m' = m \<and> p' = p) rs = Some (m, p, h)"
proof (induction rs)
  case Nil
  then show ?case by simp
next
  case (Cons route rs)
  obtain m0 p0 h0 where route: "route = (m0, p0, h0)" by (cases route)
  show ?case
  proof (cases "m0 = m \<and> p0 = p")
    case True
    have "(m, p, h) \<notin> set rs"
    proof
      assume "(m, p, h) \<in> set rs"
      then have "(m, p) \<in> (\<lambda>(m, p, h). (m, p)) ` set rs" by force
      with True Cons.prems(1) route show False by simp
    qed
    with True Cons.prems(2) route show ?thesis by simp
  next
    case False
    with Cons route show ?thesis by auto
  qed
qed

lemma routes_distinct: "distinct (map (\<lambda>(m, p, h). (m, p)) (NewRouter L D ev))"
  by (simp add: NewRouter_def public_routes_def auth_Register_def protected_routes_def registerStubRoutes_def
      registerAPIKeyRoutes_def)

lemma guarded_route:
  assumes "(m, p, a, t) \<in> set route_policy" and "t \<noteq> ''api_key'' \<or> d_APIKeys D"
  shows "\<exists>k. (m, p, if m = ''POST'' \<and> p = ''/v1/orders''
      then gw_Idempotency L D (gw_Enforce L D ev a t k) else gw_Enforce L D ev a t k)
    \<in> set (protected_routes L D ev)"
  using assms unfolding route_policy_def list.set insert_iff empty_iff prod.inject
  apply (elim disjE conjE)
  apply (simp_all add: protected_routes_def registerStubRoutes_def registerAPIKeyRoutes_def)
  apply (rule refl | rule conjI impI exI)+
  done

lemma matched_guarded:
  assumes "(req_Method r, req_FullPath r, a, t) \<in> set route_policy" and "t \<noteq> ''api_key'' \<or> d_APIKeys D"
  obtains k where "(matched L D ev r :: 'r World handler) = v1 L D ev
    (if is_order_create r then gw_Idempotency L D (gw_Enforce L D ev a t k) else gw_Enforce L D ev a t k)"
proof -
  obtain k :: "'r World handler" where "(req_Method r, req_FullPath r,
      if is_order_create r then gw_Idempotency L D (gw_Enforce L D ev a t k) else gw_Enforce L D ev a t k)
    \<in> set (protected_routes L D ev)"
    using guarded_route [OF assms] unfolding is_order_create_def by blast
  then have "(req_Method r, req_FullPath r, v1 L D ev
      (if is_order_create r then gw_Idempotency L D (gw_Enforce L D ev a t k) else gw_Enforce L D ev a t k))
    \<in> set (NewRouter L D ev)"
    by (force simp: NewRouter_def)
  from that find_route [OF routes_distinct this] show thesis by (simp add: matched_def)
qed

lemma ServeHTTP_result:
  assumes "matched L D ev r (entry_ctx D ev r) w = (c1, w1)" and "ServeHTTP L D ev r w = (c', w')"
  shows "c' = c1 \<and> quiet w1 w'"
  using assms by (auto simp: ServeHTTP_eq intro: quiet_emit)

text \<open>Without a valid credential: 401, and nothing happened.\<close>

lemma ServeHTTP_unauthenticated:
  fixes w :: "'r World"
  assumes "(req_Method r, req_FullPath r, a, t) \<in> set route_policy" and "t \<noteq> ''api_key'' \<or> d_APIKeys D"
    and "presented L D ev r w = Inl err" and "ServeHTTP L D ev r w = (c', w')"
  shows "c_Status c' = 401 \<and> quiet w w'"
proof -
  obtain h where h: "(matched L D ev r :: 'r World handler) = v1 L D ev h"
    using matched_guarded [OF assms(1,2)] by metis
  have "entry_ctx D ev r = entry_ctx D ev r" ..
  then show ?thesis
  proof (cases rule: v1_phase [where w = w and L = L])
    case (refused c1 w1)
    with h have "matched L D ev r (entry_ctx D ev r) w = (c1, w1)" by simp
    from ServeHTTP_result [OF this assms(4)] refused(1-3) assms(3) show ?thesis
      by (auto intro: quiet_trans)
  next
    case (admitted i c1 w1)
    with assms(3) show ?thesis by simp
  qed
qed

text \<open>A denied request, on a route without replay: recorded, then 403, or refused by the limiter.\<close>

lemma ServeHTTP_denied:
  fixes w :: "'r World"
  assumes "(req_Method r, req_FullPath r, a, t) \<in> set route_policy" and "t \<noteq> ''api_key'' \<or> d_APIKeys D"
    and "\<not> is_order_create r" and "presented L D ev r w = Inr i"
    and "\<not> dec_Allow (route_decision L D ev a t r i)" and "ServeHTTP L D ev r w = (c', w')"
  shows "c_Status c' = 429 \<and> quiet w w' \<or>
    c_Status c' = 403 \<and> audited D (route_record L D ev a t r i) w w'"
proof -
  obtain k where h: "(matched L D ev r :: 'r World handler) = v1 L D ev (gw_Enforce L D ev a t k)"
    using matched_guarded [OF assms(1,2)] assms(3) by metis
  have "entry_ctx D ev r = entry_ctx D ev r" ..
  then show ?thesis
  proof (cases rule: v1_phase [where w = w and L = L])
    case (refused c1 w1)
    with h have "matched L D ev r (entry_ctx D ev r) w = (c1, w1)" by simp
    from ServeHTTP_result [OF this assms(6)] refused(1-3) assms(4) show ?thesis
      by (auto intro: quiet_trans)
  next
    case (admitted i' c1 w1)
    then have "i' = i" using assms(4) by simp
    obtain c2 w2 where aud: "audited D (route_record L D ev a t r i) w1 w2"
      and run: "gw_Enforce L D ev a t k c1 w1 =
        (Abort 403 CodeForbidden (''denied by policy: '' @ dec_Reason (route_decision L D ev a t r i)) c2, w2)"
      using gw_Enforce_phase [OF admitted(4-6), of L a t w1] assms(5) \<open>i' = i\<close> by metis
    with h admitted(8) have "matched L D ev r (entry_ctx D ev r) w =
        (Abort 403 CodeForbidden (''denied by policy: '' @ dec_Reason (route_decision L D ev a t r i)) c2, w2)"
      by simp
    from ServeHTTP_result [OF this assms(6)] have "c_Status c' = 403" "quiet w2 w'" by simp_all
    with aud admitted(1) show ?thesis by (blast intro: quiet_audited audited_quiet)
  qed
qed

end
