(* ===== verification/Server.thy ===== *)
theory Server
  imports Gateway
begin

text \<open>
  Start-up and shutdown of \<open>cmd/server/main.go\<close>, with the Postgres pool of
  \<open>shared/storage/postgres.go\<close>. A run yields its outcome, the log lines it wrote and the trace
  of what it did to the resources it holds, deferred calls included. The outcomes of the
  libraries (pool construction, pings, the HTTP server, the signal) are arguments.
\<close>

section \<open>Definitions\<close>

subsection \<open>postgres.go\<close>

record PoolConfig =
  pl_DSN :: string
  pl_MaxConns :: int
  pl_MinConns :: int
  pl_MaxConnIdleTime :: int
  pl_MaxConnLifetime :: int

record PgxLib =
  px_ParseConfig :: "string \<Rightarrow> string + PoolConfig"
  px_NewWithConfig :: "PoolConfig \<Rightarrow> string option"
  px_Ping :: "PoolConfig \<Rightarrow> int \<Rightarrow> string option"

datatype sys_event =
    OpenRedis RedisOptions
  | CloseRedis
  | OpenPool PoolConfig
  | ClosePool
  | Listen string
  | Shutdown int

definition NewPostgres :: "PgxLib \<Rightarrow> string \<Rightarrow> (string + PoolConfig) \<times> sys_event list" where
  "NewPostgres X dsn =
     (case px_ParseConfig X dsn of
        Inl err \<Rightarrow> (Inl (''parse postgres dsn: '' @ err), [])
      | Inr cfg0 \<Rightarrow>
          (let cfg = cfg0\<lparr>pl_MaxConns := 20, pl_MinConns := 2,
                 pl_MaxConnIdleTime := 5 * Minute, pl_MaxConnLifetime := 30 * Minute\<rparr> in
           case px_NewWithConfig X cfg of
             Some err \<Rightarrow> (Inl (''create postgres pool: '' @ err), [])
           | None \<Rightarrow>
               (case px_Ping X cfg (5 * Second) of
                  Some err \<Rightarrow> (Inl (''ping postgres: '' @ err), [OpenPool cfg, ClosePool])
                | None \<Rightarrow> (Inr cfg, [OpenPool cfg]))))"

subsection \<open>main.go\<close>

text \<open>The wiring of the collaborators; an empty secret panics in \<open>NewIssuer\<close>.\<close>

definition wire :: "Config \<Rightarrow> string + Deps" where
  "wire cfg =
     (let log = logger_New (ParseLevel (cfg_LogLevel cfg)) in
      case NewIssuer (ac_JWTSecret (cfg_Auth cfg)) (ac_AccessTokenTTL (cfg_Auth cfg))
             (ac_RefreshTokenTTL (cfg_Auth cfg)) of
        Inl panic \<Rightarrow> Inl panic
      | Inr issuer \<Rightarrow>
          Inr \<lparr>d_Config = cfg, d_Logger = log, d_Issuer = issuer,
               d_Engine = NewEngine DefaultRules (wrap64 (pc_EvalTimeoutMs (cfg_Policy cfg) * Millisecond)),
               d_Auditor = NewLogAuditor log, d_APIKeys = True\<rparr>)"

datatype outcome = Returned "string option" | Panicked string

text \<open>What the final select receives, and what \<open>Shutdown\<close> then returns.\<close>

datatype run_event = ServerErr string | Quit string

definition redis_warning :: string where
  "redis_warning = ''redis unreachable at startup '' @ [CHR 0xE2, CHR 0x80, CHR 0x94] @
     '' gateway will run degraded''"

text \<open>
  From the wired router to the end of \<open>run\<close>, without the deferred calls. The goroutine that
  listens is taken to log before the select fires.
\<close>

definition serve ::
  "Config \<Rightarrow> Logger \<Rightarrow> run_event \<Rightarrow> (int \<Rightarrow> string option) \<Rightarrow> log_line list \<Rightarrow>
   outcome \<times> log_line list \<times> sys_event list" where
  "serve cfg log received shutdown lines =
     (let addr = sv_Addr (cfg_Server cfg);
          timeout = sv_ShutdownTimeout (cfg_Server cfg);
          lines1 = slog_Log log LevelInfo ''listening'' [(''addr'', AStr addr)] lines
      in case received of
           ServerErr err \<Rightarrow> (Returned (Some (''server failed to start: '' @ err)), lines1, [Listen addr])
         | Quit sig \<Rightarrow>
             (let lines2 = slog_Log log LevelInfo ''received shutdown signal'' [(''signal'', AStr sig)] lines1
              in case shutdown timeout of
                   Some err \<Rightarrow> (Returned (Some (''graceful shutdown failed: '' @ err)), lines2,
                                 [Listen addr, Shutdown timeout])
                 | None \<Rightarrow> (Returned None,
                             slog_Log log LevelInfo ''server stopped cleanly'' [] lines2,
                             [Listen addr, Shutdown timeout])))"

definition run ::
  "(int \<Rightarrow> nat \<Rightarrow> int \<Rightarrow> int) \<Rightarrow> PgxLib \<Rightarrow> string option \<Rightarrow> run_event \<Rightarrow> (int \<Rightarrow> string option) \<Rightarrow>
   string option \<Rightarrow> env \<Rightarrow> outcome \<times> log_line list \<times> sys_event list" where
  "run frac X ping received shutdown dotenv e =
     (case Load frac dotenv e of
        Inl err \<Rightarrow> (Returned (Some (''config error: '' @ err)), [], [])
      | Inr cfg \<Rightarrow>
     (let log = logger_New (ParseLevel (cfg_LogLevel cfg));
          lines = slog_Log log LevelInfo ''starting chainpulse''
                    [(''addr'', AStr (sv_Addr (cfg_Server cfg))),
                     (''log_level'', AStr (cfg_LogLevel cfg))] []
      in case NewRedis (rd_Addr (cfg_Redis cfg)) (rd_Password (cfg_Redis cfg)) of
           Inl err \<Rightarrow> (Returned (Some (''redis init: '' @ err)), lines, [])
         | Inr rdb \<Rightarrow>
     (let lines1 = (case ping of
             None \<Rightarrow> lines
           | Some pingErr \<Rightarrow> slog_Log log LevelWarn redis_warning [(''error'', AStr pingErr)] lines)
      in case NewPostgres X (po_DSN (cfg_Postgres cfg)) of
           (Inl err, evs) \<Rightarrow>
             (Returned (Some (''postgres init: '' @ err)), lines1, [OpenRedis rdb] @ evs @ [CloseRedis])
         | (Inr pool, evs) \<Rightarrow>
     (case wire cfg of
        Inl panic \<Rightarrow> (Panicked panic, lines1, [OpenRedis rdb] @ evs @ [ClosePool, CloseRedis])
      | Inr deps \<Rightarrow>
          (case serve cfg log received shutdown lines1 of
             (result, lines2, evs2) \<Rightarrow>
               (result, lines2, [OpenRedis rdb] @ evs @ evs2 @ [ClosePool, CloseRedis]))))))"

text \<open>The exit status of the process: \<open>log.Fatalf\<close> exits with 1, a panic with 2.\<close>

definition exit_status :: "outcome \<Rightarrow> int" where
  "exit_status r = (case r of Returned None \<Rightarrow> 0 | Returned (Some _) \<Rightarrow> 1 | Panicked _ \<Rightarrow> 2)"

subsection \<open>Specification\<close>

text \<open>A trace that closes what it opens, last opened first, and listens only in between.\<close>

fun balanced :: "bool \<Rightarrow> bool \<Rightarrow> sys_event list \<Rightarrow> bool" where
  "balanced rdb pool [] = (\<not> rdb \<and> \<not> pool)"
| "balanced rdb pool (OpenRedis _ # es) = (\<not> rdb \<and> \<not> pool \<and> balanced True pool es)"
| "balanced rdb pool (CloseRedis # es) = (rdb \<and> \<not> pool \<and> balanced False pool es)"
| "balanced rdb pool (OpenPool _ # es) = (rdb \<and> \<not> pool \<and> balanced rdb True es)"
| "balanced rdb pool (ClosePool # es) = (rdb \<and> pool \<and> balanced rdb False es)"
| "balanced rdb pool (Listen _ # es) = (rdb \<and> pool \<and> balanced rdb pool es)"
| "balanced rdb pool (Shutdown _ # es) = (rdb \<and> pool \<and> balanced rdb pool es)"

section \<open>Lemmas\<close>

lemma NewPostgres_cases:
  obtains (failed) err where "NewPostgres X dsn = (Inl err, [])"
  | (closed) err cfg where "NewPostgres X dsn = (Inl err, [OpenPool cfg, ClosePool])"
  | (opened) cfg where "NewPostgres X dsn = (Inr cfg, [OpenPool cfg])"
proof -
  have "(\<exists>err. NewPostgres X dsn = (Inl err, [])) \<or>
      (\<exists>err cfg. NewPostgres X dsn = (Inl err, [OpenPool cfg, ClosePool])) \<or>
      (\<exists>cfg. NewPostgres X dsn = (Inr cfg, [OpenPool cfg]))"
    by (auto simp: NewPostgres_def Let_def split: sum.splits option.splits)
  then show thesis using that by blast
qed

lemma wire_ok:
  assumes "Load frac file e = Inr cfg"
  obtains D where "wire cfg = Inr D" "d_Engine D =
      NewEngine DefaultRules (wrap64 (pc_EvalTimeoutMs (cfg_Policy cfg) * Millisecond))"
    "d_APIKeys D" "d_Config D = cfg" "d_Auditor D = NewLogAuditor (logger_New (ParseLevel (cfg_LogLevel cfg)))"
  using Load_InrD(1) [OF assms] by (simp add: wire_def Let_def NewIssuer_def)

lemma serve_balanced:
  assumes "serve cfg log received shutdown lines = (result, lines', evs)"
  shows "balanced True True (evs @ [ClosePool, CloseRedis]) \<and> (\<exists>m. result = Returned m)"
  using assms by (auto simp: serve_def Let_def split: run_event.splits option.splits)

end
