(* ===== verification/Samples.thy ===== *)
theory Samples
  imports Server
begin

text \<open>
  Concrete instances of the libraries the model takes as arguments, each shown to have the
  documented behaviour the theorems assume, and a small deployment: one tenant, one partner
  key, requests. The witnesses of the properties use them.
\<close>

section \<open>A token library\<close>

text \<open>Strings in sequence: each byte is marked, each string ends with a mark of its own.\<close>

definition pack :: "string list \<Rightarrow> string" where
  "pack ss = concat (map (\<lambda>s. concat (map (\<lambda>c. [CHR ''1'', c]) s) @ ''0'') ss)"

fun unpack :: "string \<Rightarrow> string \<Rightarrow> string list" where
  "unpack cur [] = []"
| "unpack cur [m] = (if m = CHR ''0'' then [cur] else [])"
| "unpack cur (m # c # rest) =
     (if m = CHR ''0'' then cur # unpack [] (c # rest) else unpack (cur @ [c]) rest)"

lemma unpack_end: "unpack cur (CHR ''0'' # r) = cur # unpack [] r"
  by (cases r) auto

lemma unpack_step: "unpack cur (concat (map (\<lambda>c. [CHR ''1'', c]) s) @ CHR ''0'' # r) = (cur @ s) # unpack [] r"
  by (induction s arbitrary: cur) (simp_all add: unpack_end)

lemma unpack_pack: "unpack [] (pack ss) = ss"
  by (induction ss) (simp_all add: pack_def unpack_step)

definition int_string :: "int \<Rightarrow> string" where
  "int_string i = (if i < 0 then CHR ''-'' else CHR ''+'') # replicate (nat \<bar>i\<bar>) (CHR ''i'')"

fun string_int :: "string \<Rightarrow> int" where
  "string_int [] = 0"
| "string_int (m # ds) = (if m = CHR ''-'' then - int (length ds) else int (length ds))"

lemma string_int_inverse [simp]: "string_int (int_string i) = i"
  by (simp add: int_string_def)

definition date_string :: "int option \<Rightarrow> string" where
  "date_string d = (case d of None \<Rightarrow> '''' | Some i \<Rightarrow> int_string i)"

definition string_date :: "string \<Rightarrow> int option" where
  "string_date s = (if s = '''' then None else Some (string_int s))"

lemma string_date_inverse [simp]: "string_date (date_string d) = d"
  by (cases d) (simp_all add: date_string_def string_date_def, simp add: int_string_def)

fun claims_of_list :: "string list \<Rightarrow> (string \<times> Claims) option" where
  "claims_of_list [k, t, r, g, s, u, b, i, a, e] =
     Some (k, \<lparr>cl_TenantID = t, cl_Role = r, cl_Region = g, cl_SupplierID = s, cl_TokenType = u,
       cl_Subject = b, cl_Issuer = i, cl_IssuedAt = string_date a, cl_ExpiresAt = string_date e\<rparr>)"
| "claims_of_list _ = None"

definition token_of :: "string \<Rightarrow> Claims \<Rightarrow> string" where
  "token_of k c = pack [k, cl_TenantID c, cl_Role c, cl_Region c, cl_SupplierID c, cl_TokenType c,
     cl_Subject c, cl_Issuer c, date_string (cl_IssuedAt c), date_string (cl_ExpiresAt c)]"

lemma claims_of_token [simp]: "claims_of_list (unpack [] (token_of k c)) = Some (k, c)"
  by (simp add: token_of_def unpack_pack)

definition sample_jwt :: JwtLib where
  "sample_jwt = \<lparr>
     jwt_SignedString = (\<lambda>k c. Inr (token_of k c)),
     jwt_Method = (\<lambda>t. if claims_of_list (unpack [] t) = None then None else Some SigningMethodHS256),
     jwt_ParseWithClaims = (\<lambda>t kf now.
       case claims_of_list (unpack [] t) of
         None \<Rightarrow> Inl (JwtError False ''token is malformed'')
       | Some (k, c) \<Rightarrow>
           (case kf SigningMethodHS256 of
              Inl e \<Rightarrow> Inl (JwtError False ''token is unverifiable'')
            | Inr k' \<Rightarrow>
                (if k' \<noteq> k then Inl (JwtError False ''signature is invalid'')
                 else case cl_ExpiresAt c of
                        None \<Rightarrow> Inr c
                      | Some e \<Rightarrow> (if now < e then Inr c else Inl (JwtError True ''token is expired''))))),
     jwt_NewNumericDate = (\<lambda>t. t div Second * Second)\<rparr>"

lemma sample_jwt_documented: "jwt_documented sample_jwt"
proof -
  have "t div Second * Second \<le> t" "t < t div Second * Second + Second" for t
    using pos_mod_bound [of Second t] pos_mod_sign [of Second t] minus_mod_eq_div_mult [of t Second]
    by (simp_all add: duration_units)
  then have "jwt_truncates sample_jwt"
    by (simp add: jwt_truncates_def sample_jwt_def)
  moreover have "jwt_signs sample_jwt" "jwt_reads_back sample_jwt" "jwt_expires sample_jwt"
    by (auto simp: jwt_signs_def jwt_reads_back_def jwt_expires_def sample_jwt_def)
  moreover have "jwt_asks_key sample_jwt"
    unfolding jwt_asks_key_def
  proof (intro allI impI)
    fix t kf now c
    assume *: "jwt_ParseWithClaims sample_jwt t kf now = Inr c"
    then obtain p where p: "claims_of_list (unpack [] t) = Some p"
      by (auto simp: sample_jwt_def split: option.splits)
    moreover have "\<exists>k. kf SigningMethodHS256 = Inr k"
      using * p by (cases p; cases "kf SigningMethodHS256") (simp_all add: sample_jwt_def)
    ultimately show "\<exists>m k. jwt_Method sample_jwt t = Some m \<and> kf m = Inr k"
      by (auto simp: sample_jwt_def)
  qed
  ultimately show ?thesis by (simp add: jwt_documented_def)
qed

section \<open>A Redis server\<close>

record sample_redis =
  sr_strings :: "string \<Rightarrow> string option"
  sr_sets :: "string \<Rightarrow> (string \<times> int) list"

definition sample_client :: "sample_redis RedisClient" where
  "sample_client = \<lparr>
     rc_Ping = (\<lambda>r. None),
     rc_Get = (\<lambda>k r. case sr_strings r k of None \<Rightarrow> RNil | Some v \<Rightarrow> RVal v),
     rc_SetNX = (\<lambda>k v ttl r. case sr_strings r k of
         None \<Rightarrow> (Inr True, r\<lparr>sr_strings := (sr_strings r)(k := Some v)\<rparr>)
       | Some _ \<Rightarrow> (Inr False, r)),
     rc_Set = (\<lambda>k v ttl r. (None, r\<lparr>sr_strings := (sr_strings r)(k := Some v)\<rparr>)),
     rc_Eval = (\<lambda>script r. case script r of (v, r') \<Rightarrow> (Inr v, r')),
     rc_ZREMRANGEBYSCORE = (\<lambda>k lo hi r. r\<lparr>sr_sets := (sr_sets r)
        (k := filter (\<lambda>(m, s). \<not> (lo \<le> s \<and> s \<le> hi)) (sr_sets r k))\<rparr>),
     rc_ZCARD = (\<lambda>k r. int (length (sr_sets r k))),
     rc_ZADD = (\<lambda>k s m r. r\<lparr>sr_sets := (sr_sets r)
        (k := filter (\<lambda>p. fst p \<noteq> m) (sr_sets r k) @ [(m, s)])\<rparr>),
     rc_PEXPIRE = (\<lambda>k ms r. if 0 < ms then r else r\<lparr>sr_sets := (sr_sets r)(k := [])\<rparr>),
     rc_ZRANGE = (\<lambda>k r. sr_sets r k)\<rparr>"

definition empty_redis :: sample_redis where
  "empty_redis = \<lparr>sr_strings = (\<lambda>_. None), sr_sets = (\<lambda>_. [])\<rparr>"

lemma sample_client_eval: "redis_atomic_eval sample_client"
  by (auto simp: redis_atomic_eval_def sample_client_def split: prod.splits)

lemma sample_client_sets: "redis_sorted_sets sample_client"
  unfolding redis_sorted_sets_def sample_client_def
  by (auto simp: filter_id_conv image_iff mset_filter [symmetric] simp del: mset_filter
      intro!: arg_cong [where f = mset])

lemma sample_client_strings: "redis_reads_back sample_client"
  by (auto simp: redis_reads_back_def sample_client_def)

lemma sample_limiter_inv: "redis_limiter_inv (sample_client, empty_redis)"
  by (simp add: redis_limiter_inv_def sample_client_eval sample_client_sets redis_stamps_def)
     (simp add: sample_client_def empty_redis_def)

section \<open>Encoders and database\<close>

definition sample_http :: HttpLib where
  "sample_http = \<lparr>
     hl_render = (\<lambda>j. ''{}''),
     hl_json_type = ''application/json'',
     hl_Marshal = (\<lambda>sr. Some (pack [int_string (sr_Status sr), sr_Body sr, sr_ContentType sr])),
     hl_Unmarshal = (\<lambda>s. case unpack [] s of
         [a, b, c] \<Rightarrow> Some \<lparr>sr_Status = string_int a, sr_Body = b, sr_ContentType = c\<rparr>
       | _ \<Rightarrow> None)\<rparr>"

lemma sample_http_roundtrip: "json_roundtrip sample_http"
  by (simp add: json_roundtrip_def sample_http_def unpack_pack)

definition sample_keylib :: KeyLib where
  "sample_keylib = \<lparr>
     kl_sha256 = (\<lambda>bs. bs),
     kl_uuid = (\<lambda>s. if s = '''' then None else Some s),
     kl_timestamptz = (\<lambda>t. t),
     kl_order = (\<lambda>rs. rs),
     kl_message = (\<lambda>v. ''constraint'')\<rparr>"

definition sample_pg :: PgEnv where
  "sample_pg = \<lparr>pg_fault = (\<lambda>_. NoFault), pg_now = 100, pg_clock = 100, pg_new_id = ''k2'',
     pg_rand = Inr (replicate 32 7)\<rparr>"

section \<open>A deployment\<close>

definition sample_libs :: Libs where
  "sample_libs = \<lparr>l_Jwt = sample_jwt, l_Key = sample_keylib, l_Http = sample_http,
     l_ParseFloat = (\<lambda>s. None), l_bind_token = (\<lambda>s. None), l_bind_refresh = (\<lambda>s. None),
     l_bind_key = (\<lambda>s. Some \<lparr>ck_Name = s, ck_Role = RoleAnalyst, ck_Region = '''',
                         ck_SupplierID = '''', ck_ExpiresAt = None\<rparr>)\<rparr>"

definition sample_config :: Config where
  "sample_config = \<lparr>
     cfg_Server = \<lparr>sv_Addr = '':8080'', sv_ShutdownTimeout = 10 * Second\<rparr>,
     cfg_Postgres = \<lparr>po_DSN = ''dsn''\<rparr>,
     cfg_Redis = \<lparr>rd_Addr = ''localhost:6379'', rd_Password = ''''\<rparr>,
     cfg_Auth = \<lparr>ac_JWTSecret = ''secret'', ac_AccessTokenTTL = 15 * Minute,
                 ac_RefreshTokenTTL = 7 * 24 * Hour\<rparr>,
     cfg_Policy = \<lparr>pc_CacheRefreshInterval = Minute, pc_EvalTimeoutMs = 5\<rparr>,
     cfg_Gateway = \<lparr>gc_RateLimitRequests = 100, gc_RateLimitWindow = Minute,
                    gc_IdempotencyTTL = 24 * Hour\<rparr>,
     cfg_LogLevel = ''info''\<rparr>"

definition sample_issuer :: Issuer where
  "sample_issuer = \<lparr>is_secret = ''secret'', is_accessTTL = 15 * Minute, is_refreshTTL = 7 * 24 * Hour\<rparr>"

definition sample_deps :: Deps where
  "sample_deps = \<lparr>d_Config = sample_config, d_Logger = logger_New LevelInfo, d_Issuer = sample_issuer,
     d_Engine = NewEngine DefaultRules (5 * Millisecond),
     d_Auditor = NewLogAuditor (logger_New LevelInfo), d_APIKeys = True\<rparr>"

definition sample_env :: Env where
  "sample_env = \<lparr>ev_uuid = ''req-1'', ev_latency = Millisecond, ev_auth_now = 0, ev_resolve = sample_pg,
     ev_limit = (1000, ''m1''), ev_mem_now = 1000, ev_select = ResultReady, ev_audit_now = 5,
     ev_store = sample_pg, ev_user_uuid = ''u'', ev_parse_now = 0, ev_issue_now = 0\<rparr>"

text \<open>A key of the tenant \<open>t1\<close> whose secret is \<open>cp_01\<close>.\<close>

definition sample_row :: "Role \<Rightarrow> ApiKeyRow" where
  "sample_row role = \<lparr>row_id = ''k1'', row_tenant_id = ''t1'', row_name = ''partner'',
     row_key_hash = hashAPIKey (\<lambda>bs. bs) ''cp_01'', row_key_prefix = ''cp_01'', row_role = role,
     row_region = None, row_supplier_id = None, row_created_at = 1, row_last_used_at = None,
     row_expires_at = None, row_revoked_at = None\<rparr>"

definition sample_db :: "Role \<Rightarrow> Db" where
  "sample_db role = \<lparr>db_tenants = [''t1'', ''t2''], db_api_keys = [sample_row role]\<rparr>"

definition sample_world :: "Role \<Rightarrow> sample_redis World" where
  "sample_world role = (initial_world (sample_client, empty_redis) [''t1'', ''t2''])\<lparr>w_Db := sample_db role\<rparr>"

definition sample_request :: "string \<Rightarrow> string \<Rightarrow> (string \<times> string) list \<Rightarrow> Request" where
  "sample_request m p q = \<lparr>req_Method = m, req_FullPath = p, req_Path = p,
     req_Headers = [(''X-API-Key'', ''cp_01''), (''Idempotency-Key'', ''i1'')], req_Query = q,
     req_Params = [(''id'', ''k1'')], req_Body = ''body''\<rparr>"

abbreviation sample_serve :: "Role \<Rightarrow> Request \<Rightarrow> GinCtx \<times> sample_redis World" where
  "sample_serve role r \<equiv> ServeHTTP sample_libs sample_deps sample_env r (sample_world role)"

lemma sample_db_ok: "Valid role \<Longrightarrow> db_ok (sample_db role)"
  by (simp add: db_ok_def sample_db_def sample_row_def)

end
