(* ===== verification/Policy_Race.thy ===== *)
theory Policy_Race
  imports Policy
begin

text \<open>
  \<open>Evaluate\<close> of \<open>internal/policy/engine.go\<close> at the level of its goroutine: the caller, the worker
  that runs the rules, the buffered result channel and the context that may expire at any
  moment, as a step relation. The two loops of \<open>evaluateRules\<close> take one step per rule. The
  lemmas relate its runs to the function of \<open>Policy\<close>: they return exactly its values, they are
  finite, and neither the caller nor the worker is ever left blocked.
\<close>

section \<open>Definitions\<close>

text \<open>Where the loops of \<open>evaluateRules\<close> are: at an index of the first or the second loop, or done.\<close>

datatype scan = Denies nat | Allows nat | Decided Decision

fun scan_step :: "Engine \<Rightarrow> Input \<Rightarrow> scan \<Rightarrow> scan" where
  "scan_step e i (Denies k) =
     (if k < length (eng_rules e)
      then (let r = eng_rules e ! k in
            if rule_Effect r = EffectDeny \<and> rule_Match r i
            then Decided \<lparr>dec_Allow = False, dec_RuleMatched = rule_ID r, dec_Reason = rule_Reason r\<rparr>
            else Denies (Suc k))
      else Allows 0)"
| "scan_step e i (Allows k) =
     (if k < length (eng_rules e)
      then (let r = eng_rules e ! k in
            if rule_Effect r = EffectAllow \<and> rule_Match r i
            then Decided \<lparr>dec_Allow = True, dec_RuleMatched = rule_ID r, dec_Reason = ''''\<rparr>
            else Allows (Suc k))
      else Decided \<lparr>dec_Allow = False, dec_RuleMatched = RuleDefaultDeny,
                     dec_Reason = ''no matching allow rule''\<rparr>)"
| "scan_step e i (Decided d) = Decided d"

datatype caller = Entered | Inline scan | Selecting | Replied Decision

datatype worker = NotStarted | Scanning scan | Sent

text \<open>The state of a call: the caller, the goroutine, the channel's buffer and the context.\<close>

record race =
  rs_caller :: caller
  rs_worker :: worker
  rs_resultCh :: "Decision list"
  rs_ctxDone :: bool

definition race_init :: race where
  "race_init = \<lparr>rs_caller = Entered, rs_worker = NotStarted, rs_resultCh = [], rs_ctxDone = False\<rparr>"

definition cap_resultCh :: nat where "cap_resultCh = 1"

inductive race_step :: "Engine \<Rightarrow> Input \<Rightarrow> race \<Rightarrow> race \<Rightarrow> bool" for e i where
  other_tenant:
    "rs_caller s = Entered \<Longrightarrow>
     res_TenantID (in_Resource i) \<noteq> '''' \<Longrightarrow> res_TenantID (in_Resource i) \<noteq> id_TenantID (in_Actor i) \<Longrightarrow>
     race_step e i s (s\<lparr>rs_caller := Replied \<lparr>dec_Allow = False, dec_RuleMatched = RuleCrossTenantDeny,
       dec_Reason = ''resource belongs to a different tenant''\<rparr>\<rparr>)"
| no_guard:
    "rs_caller s = Entered \<Longrightarrow>
     res_TenantID (in_Resource i) = '''' \<or> res_TenantID (in_Resource i) = id_TenantID (in_Actor i) \<Longrightarrow>
     eng_evalTimeout e \<le> 0 \<Longrightarrow> race_step e i s (s\<lparr>rs_caller := Inline (Denies 0)\<rparr>)"
| inline_scan:
    "rs_caller s = Inline p \<Longrightarrow> (\<nexists>d. p = Decided d) \<Longrightarrow>
     race_step e i s (s\<lparr>rs_caller := Inline (scan_step e i p)\<rparr>)"
| inline_return:
    "rs_caller s = Inline (Decided d) \<Longrightarrow> race_step e i s (s\<lparr>rs_caller := Replied d\<rparr>)"
| spawn:
    "rs_caller s = Entered \<Longrightarrow>
     res_TenantID (in_Resource i) = '''' \<or> res_TenantID (in_Resource i) = id_TenantID (in_Actor i) \<Longrightarrow>
     0 < eng_evalTimeout e \<Longrightarrow>
     race_step e i s (s\<lparr>rs_caller := Selecting, rs_worker := Scanning (Denies 0), rs_resultCh := []\<rparr>)"
| worker_scan:
    "rs_worker s = Scanning p \<Longrightarrow> (\<nexists>d. p = Decided d) \<Longrightarrow>
     race_step e i s (s\<lparr>rs_worker := Scanning (scan_step e i p)\<rparr>)"
| worker_send:
    "rs_worker s = Scanning (Decided d) \<Longrightarrow> length (rs_resultCh s) < cap_resultCh \<Longrightarrow>
     race_step e i s (s\<lparr>rs_worker := Sent, rs_resultCh := rs_resultCh s @ [d]\<rparr>)"
| expire:
    "rs_caller s = Selecting \<Longrightarrow> \<not> rs_ctxDone s \<Longrightarrow> race_step e i s (s\<lparr>rs_ctxDone := True\<rparr>)"
| select_result:
    "rs_caller s = Selecting \<Longrightarrow> rs_resultCh s = d # ds \<Longrightarrow>
     race_step e i s (s\<lparr>rs_caller := Replied d, rs_resultCh := ds, rs_ctxDone := True\<rparr>)"
| select_done:
    "rs_caller s = Selecting \<Longrightarrow> rs_ctxDone s \<Longrightarrow>
     race_step e i s (s\<lparr>rs_caller := Replied \<lparr>dec_Allow = False, dec_RuleMatched = RuleEvalTimeout,
       dec_Reason = ''policy evaluation exceeded timeout''\<rparr>\<rparr>)"

text \<open>Runs of a number of steps.\<close>

inductive race_run :: "Engine \<Rightarrow> Input \<Rightarrow> nat \<Rightarrow> race \<Rightarrow> race \<Rightarrow> bool" for e i where
  run_none: "race_run e i 0 s s"
| run_more: "race_run e i n s s' \<Longrightarrow> race_step e i s' s'' \<Longrightarrow> race_run e i (Suc n) s s''"

inductive_cases race_runE: "race_run e i n s s'"

subsection \<open>Specification\<close>

text \<open>The decision a position of the loops is bound for.\<close>

definition allows_value :: "Engine \<Rightarrow> Input \<Rightarrow> nat \<Rightarrow> Decision" where
  "allows_value e i k =
     (case first_match EffectAllow i (drop k (eng_rules e)) of
        Some r \<Rightarrow> \<lparr>dec_Allow = True, dec_RuleMatched = rule_ID r, dec_Reason = ''''\<rparr>
      | None \<Rightarrow> \<lparr>dec_Allow = False, dec_RuleMatched = RuleDefaultDeny,
                 dec_Reason = ''no matching allow rule''\<rparr>)"

fun scan_value :: "Engine \<Rightarrow> Input \<Rightarrow> scan \<Rightarrow> Decision" where
  "scan_value e i (Denies k) =
     (case first_match EffectDeny i (drop k (eng_rules e)) of
        Some r \<Rightarrow> \<lparr>dec_Allow = False, dec_RuleMatched = rule_ID r, dec_Reason = rule_Reason r\<rparr>
      | None \<Rightarrow> allows_value e i 0)"
| "scan_value e i (Allows k) = allows_value e i k"
| "scan_value e i (Decided d) = d"

text \<open>How many steps are left.\<close>

fun scan_left :: "Engine \<Rightarrow> scan \<Rightarrow> nat" where
  "scan_left e (Denies k) = (length (eng_rules e) - k) + length (eng_rules e) + 2"
| "scan_left e (Allows k) = (length (eng_rules e) - k) + 1"
| "scan_left e (Decided d) = 0"

fun caller_left :: "Engine \<Rightarrow> caller \<Rightarrow> nat" where
  "caller_left e Entered = 2 * length (eng_rules e) + 5"
| "caller_left e (Inline p) = scan_left e p + 1"
| "caller_left e Selecting = 1"
| "caller_left e (Replied d) = 0"

fun worker_left :: "Engine \<Rightarrow> worker \<Rightarrow> nat" where
  "worker_left e (Scanning p) = scan_left e p + 1"
| "worker_left e w = 0"

definition race_left :: "Engine \<Rightarrow> race \<Rightarrow> nat" where
  "race_left e s = caller_left e (rs_caller s) + worker_left e (rs_worker s) +
     (if rs_ctxDone s then 0 else 1)"

text \<open>What holds of every state a call goes through.\<close>

definition race_inv :: "Engine \<Rightarrow> Input \<Rightarrow> race \<Rightarrow> bool" where
  "race_inv e i s \<longleftrightarrow>
     (case rs_caller s of
        Entered \<Rightarrow> rs_worker s = NotStarted
      | Inline p \<Rightarrow> rs_worker s = NotStarted \<and> \<not> cross_tenant i \<and> eng_evalTimeout e \<le> 0 \<and>
          scan_value e i p = evaluateRules e i
      | Selecting \<Rightarrow> rs_worker s \<noteq> NotStarted \<and> \<not> cross_tenant i \<and> 0 < eng_evalTimeout e \<and>
          (rs_worker s = Sent \<longrightarrow> rs_resultCh s \<noteq> [])
      | Replied d \<Rightarrow> \<exists>sel. d = Evaluate e sel i) \<and>
     (case rs_worker s of
        NotStarted \<Rightarrow> True
      | Scanning p \<Rightarrow> scan_value e i p = evaluateRules e i \<and> rs_resultCh s = []
      | Sent \<Rightarrow> set (rs_resultCh s) \<subseteq> {evaluateRules e i})"

section \<open>Lemmas\<close>

subsection \<open>The loops\<close>

lemma first_match_drop:
  "k < length rules \<Longrightarrow> first_match eff i (drop k rules) =
     (if rule_Effect (rules ! k) = eff \<and> rule_Match (rules ! k) i then Some (rules ! k)
      else first_match eff i (drop (Suc k) rules))"
  by (simp add: first_match_def Cons_nth_drop_Suc [symmetric])

lemma first_match_drop_all: "first_match eff i [] = None"
  by (simp add: first_match_def)

lemma scan_value_step: "scan_value e i (scan_step e i p) = scan_value e i p"
  by (cases p) (auto simp: allows_value_def first_match_drop first_match_drop_all Let_def split: option.splits)

lemma scan_value_start: "scan_value e i (Denies 0) = evaluateRules e i"
  by (simp add: evaluateRules_def allows_value_def split: option.splits)

lemma scan_left_step: "(\<nexists>d. p = Decided d) \<Longrightarrow> scan_left e (scan_step e i p) < scan_left e p"
  by (cases p) (auto simp: Let_def)

subsection \<open>Invariant\<close>

lemma race_inv_init: "race_inv e i race_init"
  by (simp add: race_inv_def race_init_def)

lemma Evaluate_cases:
  "cross_tenant i \<Longrightarrow> \<exists>sel. \<lparr>dec_Allow = False, dec_RuleMatched = RuleCrossTenantDeny,
     dec_Reason = ''resource belongs to a different tenant''\<rparr> = Evaluate e sel i"
  "\<not> cross_tenant i \<Longrightarrow> \<exists>sel. evaluateRules e i = Evaluate e sel i"
  "\<not> cross_tenant i \<Longrightarrow> 0 < eng_evalTimeout e \<Longrightarrow>
   \<exists>sel. \<lparr>dec_Allow = False, dec_RuleMatched = RuleEvalTimeout,
     dec_Reason = ''policy evaluation exceeded timeout''\<rparr> = Evaluate e sel i"
  by (auto simp: Evaluate_cross_tenant Evaluate_within_tenant
      intro: exI [of _ ResultReady] exI [of _ CtxDone])

lemma race_inv_step:
  assumes "race_step e i s s'" and "race_inv e i s"
  shows "race_inv e i s'"
  using assms
proof (cases rule: race_step.cases)
  case other_tenant
  with assms(2) Evaluate_cases(1) [of i e] show ?thesis
    by (simp add: race_inv_def cross_tenant_def)
next
  case (inline_return d)
  with assms(2) Evaluate_cases(2) [of i e] show ?thesis by (simp add: race_inv_def)
next
  case (worker_scan p)
  with assms(2) show ?thesis by (auto simp: race_inv_def scan_value_step split: caller.splits)
next
  case (worker_send d)
  with assms(2) show ?thesis by (auto simp: race_inv_def split: caller.splits)
next
  case (select_result d ds)
  with assms(2) Evaluate_cases(2) [of i e] show ?thesis
    by (cases "rs_worker s") (simp_all add: race_inv_def)
next
  case expire
  with assms(2) show ?thesis by (cases "rs_worker s") (simp_all add: race_inv_def)
next
  case select_done
  with assms(2) Evaluate_cases(3) [of i e] show ?thesis
    by (cases "rs_worker s") (simp_all add: race_inv_def)
qed (simp_all add: race_inv_def cross_tenant_def scan_value_start scan_value_step del: scan_value.simps)

lemma race_run_inv: "race_run e i n s s' \<Longrightarrow> race_inv e i s \<Longrightarrow> race_inv e i s'"
  by (induction rule: race_run.induct) (auto intro: race_inv_step)

lemmas race_reachable = race_run_inv [OF _ race_inv_init]

subsection \<open>Termination and progress\<close>

lemma race_left_step: "race_step e i s s' \<Longrightarrow> race_left e s' < race_left e s"
  by (induction rule: race_step.induct) (auto simp: race_left_def intro: scan_left_step)

lemma race_run_length: "race_run e i n s s' \<Longrightarrow> n + race_left e s' \<le> race_left e s"
  by (induction rule: race_run.induct) (auto dest: race_left_step)

lemma race_run_trans:
  "race_run e i m s' s'' \<Longrightarrow> race_run e i n s s' \<Longrightarrow> race_run e i (n + m) s s''"
  by (induction rule: race_run.induct) (auto intro: run_more)

lemma stepI: "race_step e i s s' \<Longrightarrow> P s' \<Longrightarrow> \<exists>s'. race_step e i s s' \<and> P s'"
  by blast

text \<open>The worker never waits for the caller: the buffer has room when it sends.\<close>

lemma worker_progress:
  assumes "race_inv e i s" and "rs_worker s = Scanning p"
  shows "\<exists>s'. race_step e i s s' \<and> rs_caller s' = rs_caller s \<and> rs_ctxDone s' = rs_ctxDone s"
proof (cases "\<exists>d. p = Decided d")
  case True
  then obtain d where "rs_worker s = Scanning (Decided d)" using assms(2) by blast
  moreover have "length (rs_resultCh s) < cap_resultCh"
    using assms by (simp add: race_inv_def cap_resultCh_def)
  ultimately show ?thesis by (rule stepI [OF worker_send]) simp
next
  case False
  show ?thesis by (rule stepI [OF worker_scan [OF assms(2) False]]) simp
qed

text \<open>The caller never waits for the worker: the context can always expire.\<close>

lemma caller_progress:
  assumes "\<nexists>d. rs_caller s = Replied d"
  shows "\<exists>s'. race_step e i s s'"
proof (cases "rs_caller s")
  case Entered
  show ?thesis
  proof (cases "res_TenantID (in_Resource i) = '''' \<or> res_TenantID (in_Resource i) = id_TenantID (in_Actor i)")
    case True
    with Entered show ?thesis by (cases "eng_evalTimeout e \<le> 0") (auto simp: not_le dest: no_guard spawn)
  next
    case False
    with Entered show ?thesis by (auto dest: other_tenant)
  qed
next
  case (Inline p)
  then show ?thesis by (cases p) (auto dest: inline_scan inline_return)
next
  case Selecting
  then show ?thesis by (cases "rs_ctxDone s") (auto dest: expire select_done)
next
  case (Replied d)
  with assms show ?thesis by simp
qed

text \<open>A state without a next step has a caller that returned and no goroutine left behind.\<close>

lemma race_final:
  assumes "race_inv e i s" and "\<nexists>s'. race_step e i s s'"
  shows "(\<exists>d. rs_caller s = Replied d) \<and> (rs_worker s = NotStarted \<or> rs_worker s = Sent)"
  using caller_progress [of s e i] worker_progress [OF assms(1)] assms(2)
  by (cases "rs_worker s") blast+

text \<open>A waiting caller returns by the context alone, whatever the worker is doing.\<close>

lemma caller_returns_alone:
  assumes "rs_caller s = Selecting"
  shows "\<exists>n s'. n \<le> 2 \<and> race_run e i n s s' \<and> rs_worker s' = rs_worker s \<and> (\<exists>d. rs_caller s' = Replied d)"
proof -
  define s1 where "s1 = s\<lparr>rs_ctxDone := True\<rparr>"
  have s1: "rs_caller s1 = Selecting" "rs_ctxDone s1" "rs_worker s1 = rs_worker s"
    using assms by (simp_all add: s1_def)
  have "\<exists>n \<le> 1. race_run e i n s s1"
  proof (cases "rs_ctxDone s")
    case True
    then have "s1 = s" by (simp add: s1_def)
    then show ?thesis using run_none [of e i s] by auto
  next
    case False
    from run_more [OF run_none expire [OF assms False]] show ?thesis by (auto simp: s1_def)
  qed
  then obtain n where "n \<le> 1" "race_run e i n s s1" by blast
  with run_more [OF this(2) select_done [OF s1(1,2)]] s1(3) show ?thesis
    by (intro exI [of _ "Suc n"] exI) (auto intro: exI)
qed

subsection \<open>Every value is returned by some run\<close>

lemma inline_completes:
  "rs_caller s = Inline p \<Longrightarrow> \<exists>n s'. race_run e i n s s' \<and> rs_caller s' = Replied (scan_value e i p)"
proof (induction "scan_left e p" arbitrary: s p rule: less_induct)
  case less
  show ?case
  proof (cases "\<exists>d. p = Decided d")
    case True
    then obtain d where p: "p = Decided d" by blast
    with less.prems run_more [OF run_none inline_return [of s d e i]] show ?thesis by fastforce
  next
    case False
    note one = run_more [OF run_none inline_scan [OF less.prems False, of e i]]
    obtain n s' where "race_run e i n (s\<lparr>rs_caller := Inline (scan_step e i p)\<rparr>) s'"
      "rs_caller s' = Replied (scan_value e i p)"
      using less.hyps [OF scan_left_step [OF False, of e i], of "s\<lparr>rs_caller := Inline (scan_step e i p)\<rparr>"]
      by (auto simp: scan_value_step)
    with race_run_trans [OF this(1) one] show ?thesis by blast
  qed
qed

lemma worker_completes:
  "rs_caller s = Selecting \<Longrightarrow> rs_worker s = Scanning p \<Longrightarrow> rs_resultCh s = [] \<Longrightarrow>
   \<exists>n s'. race_run e i n s s' \<and> rs_caller s' = Replied (scan_value e i p)"
proof (induction "scan_left e p" arbitrary: s p rule: less_induct)
  case less
  show ?case
  proof (cases "\<exists>d. p = Decided d")
    case True
    then obtain d where p: "p = Decided d" by blast
    let ?s = "s\<lparr>rs_worker := Sent, rs_resultCh := [d]\<rparr>"
    have "race_step e i s ?s"
      using worker_send [of s d e i] less.prems p by (simp add: cap_resultCh_def)
    from run_more [OF run_more [OF run_none this] select_result [of ?s d "[]" e i]] less.prems p
    show ?thesis by fastforce
  next
    case False
    note one = run_more [OF run_none worker_scan [OF less.prems(2) False, of e i]]
    obtain n s' where "race_run e i n (s\<lparr>rs_worker := Scanning (scan_step e i p)\<rparr>) s'"
      "rs_caller s' = Replied (scan_value e i p)"
      using less.hyps [OF scan_left_step [OF False, of e i], of "s\<lparr>rs_worker := Scanning (scan_step e i p)\<rparr>"]
        less.prems
      by (auto simp: scan_value_step)
    with race_run_trans [OF this(1) one] show ?thesis by blast
  qed
qed

lemma race_returns_Evaluate:
  "\<exists>n s. race_run e i n race_init s \<and> rs_caller s = Replied (Evaluate e sel i)"
proof -
  have entered: "rs_caller race_init = Entered" by (simp add: race_init_def)
  show ?thesis
  proof (cases "cross_tenant i")
    case True
    with other_tenant [OF entered, of i e] show ?thesis
      by (auto simp: cross_tenant_def Evaluate_cross_tenant [OF True] intro!: exI run_more [OF run_none])
  next
    case False
    then have same: "res_TenantID (in_Resource i) = '''' \<or>
        res_TenantID (in_Resource i) = id_TenantID (in_Actor i)"
      by (simp add: cross_tenant_def)
    show ?thesis
    proof (cases "0 < eng_evalTimeout e")
      case guarded: True
      let ?s = "race_init\<lparr>rs_caller := Selecting, rs_worker := Scanning (Denies 0), rs_resultCh := []\<rparr>"
      note start = run_more [OF run_none spawn [OF entered same guarded]]
      show ?thesis
      proof (cases sel)
        case ResultReady
        obtain n s where "race_run e i n ?s s" "rs_caller s = Replied (evaluateRules e i)"
          using worker_completes [of ?s "Denies 0" e i] unfolding scan_value_start by auto
        with race_run_trans [OF this(1) start] False ResultReady show ?thesis
          by (auto simp: Evaluate_within_tenant)
      next
        case CtxDone
        let ?t = "?s\<lparr>rs_ctxDone := True\<rparr>"
        have "race_step e i ?s ?t" by (rule expire) (simp_all add: race_init_def)
        from run_more [OF run_more [OF start this] select_done [of ?t e i]] False CtxDone guarded
        show ?thesis by (fastforce simp: Evaluate_within_tenant)
      qed
    next
      case unguarded: False
      let ?s = "race_init\<lparr>rs_caller := Inline (Denies 0)\<rparr>"
      have start: "race_run e i (Suc 0) race_init ?s"
        using run_more [OF run_none no_guard [OF entered same]] unguarded by simp
      obtain n s where "race_run e i n ?s s" "rs_caller s = Replied (evaluateRules e i)"
        using inline_completes [of ?s "Denies 0" e i] unfolding scan_value_start by auto
      with race_run_trans [OF this(1) start] False unguarded show ?thesis
        by (auto simp: Evaluate_within_tenant)
    qed
  qed
qed

end
