(* ===== verification/Access_Properties.thy ===== *)
theory Access_Properties
  imports Samples Policy_Race
begin

text \<open>
  Properties of the policy engine, of its enforcement and of the audit trail, with their
  witnesses.
\<close>

section \<open>The engine\<close>

definition big_order_update :: Input where
  "big_order_update = \<lparr>in_Actor = zero_Identity\<lparr>id_TenantID := ''t1'', id_Role := RoleAnalyst\<rparr>,
     in_Action = ActionUpdate,
     in_Resource = zero_Resource\<lparr>res_Type := ''order'', res_TenantID := ''t1'',
       res_ValueUSD := Finite 50000 0\<rparr>\<rparr>"

text \<open>C8: A request is allowed exactly when its resource is not of another tenant, the evaluation
  was not cut off by the timeout, some allow rule matches and no deny rule does: the two loops
  over the ordered rule list implement deny-overrides over the rules as a multiset.\<close>

theorem evaluate_allow_iff:
  "dec_Allow (Evaluate e sel i) \<longleftrightarrow>
     \<not> cross_tenant i \<and> \<not> (0 < eng_evalTimeout e \<and> sel = CtxDone) \<and>
     deny_overrides (mset (eng_rules e)) i"
  by (rule Evaluate_Allow_iff)

text \<open>C10: With the default rules the engine computes the access matrix: admins everything,
  analysts reads, warehouse managers inventory (writes in their own region only) and orders
  (read and create, in any region), suppliers their own shipments and reads of their own inventory,
  and no one anything across tenants. The matrix is that of the code: the comment on the order rule
  speaks of region-scoped writes and the architecture notes of an order creation that is allowed
  because the regions agree, but no rule on orders looks at a region (lemma
  \<open>order_rules_ignore_region\<close>).\<close>

theorem default_rules_access_matrix:
  "dec_Allow (Evaluate (NewEngine DefaultRules timeout) ResultReady i) \<longleftrightarrow>
     \<not> cross_tenant i \<and> access_matrix i"
  by (simp add: Evaluate_Allow_iff NewEngine_def DefaultRules_deny_overrides)

text \<open>Whatever region an order and its actor have, the decision is the same.\<close>

lemma order_rules_ignore_region:
  assumes "res_Type (in_Resource i) = ''order''"
  shows "dec_Allow (Evaluate (NewEngine DefaultRules timeout) ResultReady
      (i\<lparr>in_Resource := (in_Resource i)\<lparr>res_Region := x\<rparr>, in_Actor := (in_Actor i)\<lparr>id_Region := y\<rparr>\<rparr>)) =
    dec_Allow (Evaluate (NewEngine DefaultRules timeout) ResultReady i)"
  using assms by (auto simp: Evaluate_Allow_iff NewEngine_def DefaultRules_deny_overrides cross_tenant_def
      access_matrix_def Let_def own_supplier_def)

text \<open>The high-value deny rule decides no request: without it the default rules allow the
  same requests, because no other rule lets a non-admin update or cancel an order.\<close>

lemma high_value_rule_redundant:
  "dec_Allow (Evaluate (NewEngine (tl DefaultRules) timeout) sel i) =
   dec_Allow (Evaluate (NewEngine DefaultRules timeout) sel i)"
proof -
  have "\<not> some_match EffectDeny i (mset (tl DefaultRules))"
    "some_match EffectAllow i (mset (tl DefaultRules)) \<longleftrightarrow> some_match EffectAllow i (mset DefaultRules)"
    by (simp_all add: some_match_def DefaultRules_def)
  with DefaultRules_allow_match [of i] DefaultRules_deny_overrides [of i] show ?thesis
    by (simp add: Evaluate_Allow_iff NewEngine_def deny_overrides_def)
qed

section \<open>The evaluation goroutine\<close>

text \<open>C9: The concurrent evaluation refines the decision function: the decisions that some
  interleaving of the caller, the goroutine and the expiry of the context returns are exactly
  the values of \<open>Evaluate\<close> for the two outcomes of its select; the loops step by step over the
  indices of the rule slice compute \<open>evaluateRules\<close>.\<close>

theorem race_refines_evaluate:
  "(\<exists>n s. race_run e i n race_init s \<and> rs_caller s = Replied d) \<longleftrightarrow> (\<exists>sel. d = Evaluate e sel i)"
proof
  assume "\<exists>n s. race_run e i n race_init s \<and> rs_caller s = Replied d"
  then obtain n s where "race_run e i n race_init s" "rs_caller s = Replied d" by blast
  then show "\<exists>sel. d = Evaluate e sel i"
    using race_reachable [of e i n s] by (simp add: race_inv_def)
next
  assume "\<exists>sel. d = Evaluate e sel i"
  then show "\<exists>n s. race_run e i n race_init s \<and> rs_caller s = Replied d"
    using race_returns_Evaluate by blast
qed

text \<open>C22: Every evaluation ends: a run takes at most two steps per rule and six more, under any
  schedule, and it can only stop when the caller has returned a decision and the goroutine has
  ended, so that none is left behind blocked on the channel, also when the caller timed out.\<close>

theorem race_terminates:
  assumes "race_run e i n race_init s"
  shows "n \<le> 2 * length (eng_rules e) + 6 \<and>
    ((\<nexists>s'. race_step e i s s') \<longrightarrow>
       (\<exists>d. rs_caller s = Replied d) \<and> (rs_worker s = NotStarted \<or> rs_worker s = Sent))"
proof -
  have "race_left e race_init = 2 * length (eng_rules e) + 6"
    by (simp add: race_left_def race_init_def)
  with race_run_length [OF assms] have "n \<le> 2 * length (eng_rules e) + 6" by simp
  with race_final [OF race_reachable [OF assms]] show ?thesis by blast
qed

text \<open>A complete run without a timeout guard and without rules.\<close>

lemma sample_run:
  "race_run (NewEngine [] 0) big_order_update 4 race_init
     (race_init\<lparr>rs_caller := Replied (Evaluate (NewEngine [] 0) ResultReady big_order_update)\<rparr>)"
proof -
  let ?e = "NewEngine [] 0" and ?i = big_order_update
  let ?d = "\<lparr>dec_Allow = False, dec_RuleMatched = RuleDefaultDeny, dec_Reason = ''no matching allow rule''\<rparr>"
  have "race_step ?e ?i race_init (race_init\<lparr>rs_caller := Inline (Denies 0)\<rparr>)"
    by (rule no_guard) (simp_all add: race_init_def NewEngine_def big_order_update_def)
  then have 1: "race_run ?e ?i 1 race_init (race_init\<lparr>rs_caller := Inline (Denies 0)\<rparr>)"
    using run_more [OF run_none] by fastforce
  have "race_step ?e ?i (race_init\<lparr>rs_caller := Inline (Denies 0)\<rparr>) (race_init\<lparr>rs_caller := Inline (Allows 0)\<rparr>)"
    using inline_scan [of "race_init\<lparr>rs_caller := Inline (Denies 0)\<rparr>" "Denies 0" ?e ?i] by (simp add: NewEngine_def)
  from run_more [OF 1 this] have 2: "race_run ?e ?i 2 race_init (race_init\<lparr>rs_caller := Inline (Allows 0)\<rparr>)"
    by (simp add: numeral_2_eq_2)
  have "race_step ?e ?i (race_init\<lparr>rs_caller := Inline (Allows 0)\<rparr>) (race_init\<lparr>rs_caller := Inline (Decided ?d)\<rparr>)"
    using inline_scan [of "race_init\<lparr>rs_caller := Inline (Allows 0)\<rparr>" "Allows 0" ?e ?i] by (simp add: NewEngine_def)
  from run_more [OF 2 this] have 3: "race_run ?e ?i 3 race_init (race_init\<lparr>rs_caller := Inline (Decided ?d)\<rparr>)"
    by (simp add: numeral_3_eq_3 numeral_2_eq_2)
  have "race_step ?e ?i (race_init\<lparr>rs_caller := Inline (Decided ?d)\<rparr>) (race_init\<lparr>rs_caller := Replied ?d\<rparr>)"
    using inline_return [of "race_init\<lparr>rs_caller := Inline (Decided ?d)\<rparr>" ?d ?e ?i] by simp
  moreover have "Evaluate ?e ResultReady ?i = ?d"
    by (simp add: Evaluate_def evaluateRules_def first_match_def NewEngine_def big_order_update_def)
  ultimately show ?thesis
    using run_more [OF 3, of "race_init\<lparr>rs_caller := Replied ?d\<rparr>"] by (simp add: eval_nat_numeral)
qed

theorem race_terminates_witness:
  "\<exists>s. race_run (NewEngine [] 0) big_order_update 4 race_init s \<and> (4 :: nat) \<le> 2 * 0 + 6 \<and>
     (\<nexists>s'. race_step (NewEngine [] 0) big_order_update s s') \<and> (\<exists>d. rs_caller s = Replied d) \<and>
     (rs_worker s = NotStarted \<or> rs_worker s = Sent)"
proof -
  let ?s = "race_init\<lparr>rs_caller := Replied (Evaluate (NewEngine [] 0) ResultReady big_order_update)\<rparr>"
  have "\<not> race_step (NewEngine [] 0) big_order_update ?s s'" for s'
    by (auto elim: race_step.cases simp: race_init_def)
  with sample_run race_terminates [OF sample_run] show ?thesis
    by (intro exI [of _ ?s]) (simp add: NewEngine_def)
qed

text \<open>No one waits for ever: at any moment a caller that waits in the select can return within two
  steps by the context alone, without the goroutine moving (a rule that hangs cannot hang the
  request), and a goroutine that still has work can take a step without the caller.\<close>

lemma race_never_stuck:
  assumes "race_run e i n race_init s"
  shows "(rs_caller s = Selecting \<longrightarrow>
      (\<exists>m s'. m \<le> 2 \<and> race_run e i m s s' \<and> rs_worker s' = rs_worker s \<and> (\<exists>d. rs_caller s' = Replied d))) \<and>
    (\<forall>p. rs_worker s = Scanning p \<longrightarrow>
      (\<exists>s'. race_step e i s s' \<and> rs_caller s' = rs_caller s \<and> rs_ctxDone s' = rs_ctxDone s))"
  using caller_returns_alone worker_progress [OF race_reachable [OF assms]] by blast

section \<open>Enforcement and audit\<close>

text \<open>C26: Behind the enforcement middleware an authenticated request leaves exactly one new
  record in the log auditor's trail, for the decision that was taken, before the handler runs
  or the refusal is written; the handler runs exactly when the decision is to allow.\<close>

theorem enforce_audits_then_acts:
  assumes "audit_enabled a" and "FromGin c = Some i"
    and "d = Evaluate e sel (enforce_input act t x c i)"
  shows "\<exists>lines'. audit_trail lines' =
      audit_trail lines @ [stamp now (enforce_record act t (enforce_resource t x c i) d c i)] \<and>
    Enforce e (LogAuditor_Write a now) act t x sel next c lines =
      (if dec_Allow d then next (expose_decision d c) lines'
       else (Abort 403 CodeForbidden (''denied by policy: '' @ dec_Reason d) (expose_decision d c), lines'))"
  by (rule log_auditor.Enforce_audited [OF assms, of lines now "next"]) blast

definition sample_ctx :: "Role \<Rightarrow> GinCtx" where
  "sample_ctx role = install_identity \<lparr>id_TenantID = ''t1'', id_UserID = ''k1'', id_Role = role,
     id_Region = '''', id_SupplierID = ''''\<rparr>
     (entry_ctx sample_deps sample_env (sample_request ''POST'' ''/v1/orders'' []))"

theorem enforce_audits_then_acts_witness:
  "\<exists>lines'. length (audit_trail lines') = 1 \<and>
     Enforce (NewEngine DefaultRules 5) (LogAuditor_Write (NewLogAuditor (logger_New LevelInfo)) 7)
       ActionRead ''order'' None ResultReady (\<lambda>c w. (c, w)) (sample_ctx RoleAdmin) [] =
       (expose_decision (Evaluate (NewEngine DefaultRules 5) ResultReady
          (enforce_input ActionRead ''order'' None (sample_ctx RoleAdmin)
             \<lparr>id_TenantID = ''t1'', id_UserID = ''k1'', id_Role = RoleAdmin, id_Region = '''',
              id_SupplierID = ''''\<rparr>)) (sample_ctx RoleAdmin), lines')"
proof -
  have "audit_enabled (NewLogAuditor (logger_New LevelInfo))"
    by (simp add: audit_enabled_def NewLogAuditor_def logger_New_def)
  moreover have "FromGin (sample_ctx RoleAdmin) = Some \<lparr>id_TenantID = ''t1'', id_UserID = ''k1'',
      id_Role = RoleAdmin, id_Region = '''', id_SupplierID = ''''\<rparr>"
    by (simp add: sample_ctx_def)
  moreover have "dec_Allow (Evaluate (NewEngine DefaultRules 5) ResultReady
      (enforce_input ActionRead ''order'' None c (zero_Identity\<lparr>id_TenantID := ''t1'',
         id_UserID := ''k1'', id_Role := RoleAdmin\<rparr>)))" for c
    by (simp add: Evaluate_Allow_iff NewEngine_def DefaultRules_deny_overrides access_matrix_def
        cross_tenant_def enforce_resource_def)
  then have "dec_Allow (Evaluate (NewEngine DefaultRules 5) ResultReady
      (enforce_input ActionRead ''order'' None c \<lparr>id_TenantID = ''t1'', id_UserID = ''k1'',
        id_Role = RoleAdmin, id_Region = '''', id_SupplierID = ''''\<rparr>))" for c
    by (simp add: zero_Identity_def)
  ultimately show ?thesis
    using enforce_audits_then_acts [OF _ _ refl, of "NewLogAuditor (logger_New LevelInfo)"
        "sample_ctx RoleAdmin" _ "[]" 7 ActionRead "''order''" None "NewEngine DefaultRules 5"
        ResultReady "\<lambda>c w. (c, w)"]
    by fastforce
qed

text \<open>A log auditor behind a logger at level Warn or Error writes nothing and reports success:
  with \<open>LOG_LEVEL=warn\<close> or \<open>error\<close> the trail stays empty without any sign of it.\<close>

lemma audit_dropped_above_info:
  "LogAuditor_Write (NewLogAuditor (logger_New (ParseLevel ''warn''))) now r lines = (None, lines)"
  "LogAuditor_Write (NewLogAuditor (logger_New (ParseLevel ''error''))) now r lines = (None, lines)"
  by (simp_all add: LogAuditor_Write_def NewLogAuditor_def logger_New_def ParseLevel_def slog_Log_def level_defs)

end
