(* ===== verification/Credential_Properties.thy ===== *)
theory Credential_Properties
  imports Samples
begin

text \<open>
  Properties of the two kinds of credential: bearer tokens and partner keys, with their
  witnesses.
\<close>

section \<open>Tokens\<close>

text \<open>C24: An access token that was issued validates to exactly the identity it was issued for
  until its expiry (the advertised one, truncated to a second), and from then on fails with the
  expiry error, on the documented behaviour of the token library.\<close>

theorem access_token_round_trip:
  assumes "jwt_documented J" and "identity_utf8 i" and "Issue J iss now i = Inr p"
  shows "Validate J iss t (tp_AccessToken p) =
    (if t < jwt_NewNumericDate J (now + is_accessTTL iss) then Inr i else Inl ErrExpired)"
  using assms by (rule Validate_access_token)

definition sample_identity :: Identity where
  "sample_identity = \<lparr>id_TenantID = ''t1'', id_UserID = ''u1'', id_Role = RoleSupplier,
     id_Region = '''', id_SupplierID = ''s1''\<rparr>"

lemma sample_identity_utf8: "identity_utf8 sample_identity"
  by (simp add: identity_utf8_def sample_identity_def ValidString.simps utf8_head_def in_range_def)

lemma sample_issue: "\<exists>p. Issue sample_jwt sample_issuer 0 sample_identity = Inr p"
  by (rule Issue_total) (use sample_jwt_documented in \<open>simp_all add: jwt_documented_def sample_identity_def\<close>)

theorem access_token_round_trip_witness:
  "\<exists>p. Issue sample_jwt sample_issuer 0 sample_identity = Inr p \<and>
     Validate sample_jwt sample_issuer Second (tp_AccessToken p) = Inr sample_identity \<and>
     Validate sample_jwt sample_issuer Hour (tp_AccessToken p) = Inl ErrExpired"
proof -
  obtain p where p: "Issue sample_jwt sample_issuer 0 sample_identity = Inr p"
    using sample_issue ..
  have "jwt_NewNumericDate sample_jwt (0 + is_accessTTL sample_issuer) = 15 * Minute"
    by (simp add: sample_jwt_def sample_issuer_def duration_units)
  with access_token_round_trip [OF sample_jwt_documented sample_identity_utf8 p, of Second]
    access_token_round_trip [OF sample_jwt_documented sample_identity_utf8 p, of Hour]
  have "Validate sample_jwt sample_issuer Second (tp_AccessToken p) = Inr sample_identity"
    "Validate sample_jwt sample_issuer Hour (tp_AccessToken p) = Inl ErrExpired"
    by (simp_all add: duration_units)
  with p show ?thesis by blast
qed

text \<open>C33: The two tokens of a pair are not interchangeable: a live refresh token is not accepted
  as an access token, and a live access token cannot be exchanged for a new pair.\<close>

theorem token_uses_separate:
  assumes "jwt_documented J" and "identity_utf8 i" and "Issue J iss now i = Inr p"
    and "t < jwt_NewNumericDate J (now + is_accessTTL iss)"
    and "t < jwt_NewNumericDate J (now + is_refreshTTL iss)"
  shows "Validate J iss t (tp_RefreshToken p) = Inl ErrWrongTokenUse \<and>
    Refresh J iss t n (tp_AccessToken p) = Inl ErrWrongTokenUse"
  using parse_access_token [OF assms(1,3,2,4)] parse_refresh_token [OF assms(1,3,2,5)]
  by (simp add: Validate_def Refresh_def)

theorem token_uses_separate_witness:
  "\<exists>p. Issue sample_jwt sample_issuer 0 sample_identity = Inr p \<and>
     Validate sample_jwt sample_issuer 1 (tp_RefreshToken p) = Inl ErrWrongTokenUse"
proof -
  obtain p where p: "Issue sample_jwt sample_issuer 0 sample_identity = Inr p"
    using sample_issue ..
  have "1 < jwt_NewNumericDate sample_jwt (0 + is_accessTTL sample_issuer)"
    "1 < jwt_NewNumericDate sample_jwt (0 + is_refreshTTL sample_issuer)"
    by (simp_all add: sample_jwt_def sample_issuer_def duration_units)
  with token_uses_separate [OF sample_jwt_documented sample_identity_utf8 p] p show ?thesis by blast
qed

text \<open>C34: Exchanging a live refresh token issues a pair for the same identity, as a fresh
  issuance at that time would, and the exchange does not fail.\<close>

theorem refresh_reissues:
  assumes "jwt_documented J" and "identity_utf8 i" and "Issue J iss now i = Inr p"
    and "t < jwt_NewNumericDate J (now + is_refreshTTL iss)"
  shows "Refresh J iss t n (tp_RefreshToken p) = Issue J iss n i \<and> is_ok (Issue J iss n i)"
proof -
  have "Refresh J iss t n (tp_RefreshToken p) = Issue J iss n i"
    using parse_refresh_token [OF assms(1,3,2,4)] Issue_InrD(1) [OF assms(3)]
    by (simp add: Refresh_def toIdentity_claims_of)
  moreover have "is_ok (Issue J iss n i)"
    using Issue_InrD(1-3) [OF assms(3)] assms(1) by (simp add: Issue_ok_iff jwt_documented_def)
  ultimately show ?thesis ..
qed

theorem refresh_reissues_witness:
  "\<exists>p q. Issue sample_jwt sample_issuer 0 sample_identity = Inr p \<and>
     Refresh sample_jwt sample_issuer Second Second (tp_RefreshToken p) = Inr q \<and>
     Issue sample_jwt sample_issuer Second sample_identity = Inr q"
proof -
  obtain p where p: "Issue sample_jwt sample_issuer 0 sample_identity = Inr p"
    using sample_issue ..
  have "Second < jwt_NewNumericDate sample_jwt (0 + is_refreshTTL sample_issuer)"
    by (simp add: sample_jwt_def sample_issuer_def duration_units)
  from refresh_reissues [OF sample_jwt_documented sample_identity_utf8 p this, of Second] p show ?thesis
    by (metis is_ok_iff)
qed

text \<open>A token whose header names no HMAC method is refused, for authentication and for
  exchange, whatever else it holds (algorithm substitution).\<close>

lemma non_hmac_refused:
  assumes "jwt_asks_key J" and "\<forall>alg. jwt_Method J tok \<noteq> Some (SigningMethodHMAC alg)"
  shows "\<not> is_ok (Validate J iss t tok) \<and> \<not> is_ok (Refresh J iss t n tok)"
proof -
  have "\<not> is_ok (parse J iss t tok)"
    using parse_Inr_HMAC [OF assms(1), of iss t tok] assms(2) by (auto simp: is_ok_iff)
  then show ?thesis
    by (cases "parse J iss t tok") (simp_all add: Validate_def Refresh_def)
qed

section \<open>Partner keys\<close>

text \<open>A generated key is the prefix \<open>cp_\<close> and 64 hexadecimal digits, its display prefix is
  its first eleven characters, what is stored is its digest, and different entropy gives
  different keys.\<close>

lemma generated_key_shape:
  assumes "length buf = apiKeyRandomBytes" and "length buf' = apiKeyRandomBytes"
    and "generateAPIKey sha (Inr buf) = Inr (plain, hash, prefix)"
    and "generateAPIKey sha (Inr buf') = Inr (plain', hash', prefix')"
  shows "HasPrefix plain APIKeyDisplayPrefix \<and> length plain = 67 \<and> prefix = take 11 plain \<and>
    hash = hashAPIKey sha plain \<and> (plain = plain' \<longleftrightarrow> buf = buf')"
proof -
  note g = generateAPIKey_Inr [OF assms(3)] generateAPIKey_Inr [OF assms(4)]
  have plain: "plain = APIKeyDisplayPrefix @ EncodeToString buf"
    and plain': "plain' = APIKeyDisplayPrefix @ EncodeToString buf'"
    using g by auto
  have hash: "hash = hashAPIKey sha plain" and "prefix = displayPrefix plain"
    using g(1) by simp_all
  then have prefix: "prefix = take 11 plain"
    unfolding plain displayPrefix_take by simp
  have "length plain = 67"
    using assms(1) by (simp add: plain apiKeyRandomBytes_def)
  moreover have "plain = plain' \<longleftrightarrow> buf = buf'"
    by (simp add: plain plain' EncodeToString_inj)
  moreover have "HasPrefix plain APIKeyDisplayPrefix"
    by (simp add: plain)
  ultimately show ?thesis using hash prefix by blast
qed

text \<open>C25: A created key authenticates: presenting the secret that \<open>Create\<close> returned resolves, until
  its expiry, to an identity with the key's id as actor and exactly the tenant, role, region and
  supplier the key was created for.\<close>

theorem create_then_resolve:
  assumes "db_ok db" and "Create K env spec db = (Inr (key, plain), db')"
    and "pg_fault env' 0 = NoFault"
    and "\<forall>x. spec_ExpiresAt spec = Some x \<longrightarrow> pg_clock env' < kl_timestamptz K x"
  shows "\<exists>t. kl_uuid K (spec_TenantID spec) = Some t \<and>
    fst (Resolve K env' plain db') =
      Inr \<lparr>id_TenantID = t, id_UserID = key_ID key, id_Role = spec_Role spec,
           id_Region = spec_Region spec, id_SupplierID = spec_SupplierID spec\<rparr>"
proof -
  have ok: "db_ok db'"
    using store_step_ok [OF step_Create [of K db env spec]] assms(1,2) by simp
  from assms(2) show ?thesis
  proof (rule Create_InrD)
    fix t buf r
    assume *: "kl_uuid K (spec_TenantID spec) = Some t" "db_api_keys db' = db_api_keys db @ [r]"
      "r = \<lparr>row_id = pg_new_id env, row_tenant_id = t, row_name = spec_Name spec,
           row_key_hash = hashAPIKey (kl_sha256 K) plain, row_key_prefix = displayPrefix plain,
           row_role = spec_Role spec, row_region = nullify (spec_Region spec),
           row_supplier_id = nullify (spec_SupplierID spec), row_created_at = pg_now env,
           row_last_used_at = None,
           row_expires_at = map_option (kl_timestamptz K) (spec_ExpiresAt spec),
           row_revoked_at = None\<rparr>"
      "key_ID key = pg_new_id env"
    have "deref (nullify s) = s" for s by (simp add: deref_def nullify_def)
    then have "fst (Resolve K env' plain db') =
      Inr \<lparr>id_TenantID = t, id_UserID = key_ID key, id_Role = spec_Role spec,
           id_Region = spec_Region spec, id_SupplierID = spec_SupplierID spec\<rparr>"
      using Resolve_row [OF ok, of r K plain env'] * assms(3,4) by (auto simp: not_less [symmetric])
    with *(1) show ?thesis by blast
  qed
qed

definition sample_spec :: CreateAPIKeySpec where
  "sample_spec = \<lparr>spec_TenantID = ''t1'', spec_Name = ''p'', spec_Role = RoleAnalyst,
     spec_Region = '''', spec_SupplierID = '''', spec_ExpiresAt = None\<rparr>"

lemma sample_create:
  "\<exists>key plain db'. Create sample_keylib sample_pg sample_spec (sample_db RoleAdmin) = (Inr (key, plain), db')"
proof -
  have "is_ok (fst (Create sample_keylib sample_pg sample_spec (sample_db RoleAdmin)))"
    by code_simp
  then show ?thesis by (metis is_ok_iff prod.exhaust_sel)
qed

theorem create_then_resolve_witness:
  "\<exists>key plain db'. Create sample_keylib sample_pg sample_spec (sample_db RoleAdmin) = (Inr (key, plain), db') \<and>
     fst (Resolve sample_keylib sample_pg plain db') =
       Inr \<lparr>id_TenantID = ''t1'', id_UserID = key_ID key, id_Role = RoleAnalyst, id_Region = '''',
            id_SupplierID = ''''\<rparr>"
proof -
  obtain key plain db' where
    c: "Create sample_keylib sample_pg sample_spec (sample_db RoleAdmin) = (Inr (key, plain), db')"
    using sample_create by blast
  have "pg_fault sample_pg 0 = NoFault" by (simp add: sample_pg_def)
  from create_then_resolve [OF sample_db_ok c this] c show ?thesis
    by (auto simp: sample_spec_def sample_keylib_def)
qed

text \<open>C29: Rotation replaces a key: the old secret stops resolving, the new one resolves to the same
  scope, and the number of live keys in the table is unchanged.\<close>

theorem rotate_replaces:
  assumes "db_ok db" and "Rotate K env tenant keyID db = (Inr (key, plain), db')"
    and "r \<in> set (db_api_keys db)" and "kl_uuid K keyID = Some (row_id r)"
    and "row_key_hash r = hashAPIKey (kl_sha256 K) secret" and "pg_fault env' 0 = NoFault"
    and "\<forall>x. row_expires_at r = Some x \<longrightarrow> pg_clock env' < kl_timestamptz K x"
  shows "fst (Resolve K env' secret db') = Inl ErrKeyRevoked \<and>
    (\<exists>i. fst (Resolve K env' plain db') = Inr i \<and> id_TenantID i = row_tenant_id r \<and>
       id_Role i = row_role r \<and> id_Region i = deref (row_region r) \<and>
       id_SupplierID i = deref (row_supplier_id r)) \<and>
    length (filter live (db_api_keys db')) = length (filter live (db_api_keys db))"
  using assms(1-4)
proof (rule Rotate_rows)
  let ?upd = "\<lambda>x. if row_id x = row_id r then x\<lparr>row_revoked_at := Some (pg_now env)\<rparr> else x"
  fix n
  assume ok: "db_ok db'" and "live r" and rows: "db_api_keys db' = map ?upd (db_api_keys db) @ [n]"
    and n: "n = r\<lparr>row_id := pg_new_id env, row_key_hash := hashAPIKey (kl_sha256 K) plain,
           row_key_prefix := displayPrefix plain, row_created_at := pg_now env,
           row_last_used_at := None,
           row_expires_at := map_option (kl_timestamptz K) (row_expires_at r)\<rparr>"
  have "?upd r \<in> set (db_api_keys db')" using rows assms(3) by force
  from Resolve_row [OF ok this, of K secret env'] assms(5,6)
  have "fst (Resolve K env' secret db') = Inl ErrKeyRevoked" by simp
  moreover have "n \<in> set (db_api_keys db')" using rows by simp
  from Resolve_row [OF ok this, of K plain env'] n \<open>live r\<close> assms(6,7)
  have "fst (Resolve K env' plain db') =
      Inr \<lparr>id_TenantID = row_tenant_id r, id_UserID = pg_new_id env, id_Role = row_role r,
           id_Region = deref (row_region r), id_SupplierID = deref (row_supplier_id r)\<rparr>"
    by (auto simp: live_def not_less [symmetric])
  moreover have "length (filter live (db_api_keys db')) = length (filter live (db_api_keys db))"
    using filter_live_revoke [of "db_api_keys db" r "pg_now env"] assms(1,3) \<open>live r\<close> rows n
    by (simp add: db_ok_def live_def)
  ultimately show ?thesis by simp
qed

lemma sample_rotate:
  "\<exists>key plain db'. Rotate sample_keylib sample_pg ''t1'' ''k1'' (sample_db RoleAdmin) = (Inr (key, plain), db')"
proof -
  have "is_ok (fst (Rotate sample_keylib sample_pg ''t1'' ''k1'' (sample_db RoleAdmin)))"
    by code_simp
  then show ?thesis by (metis is_ok_iff prod.exhaust_sel)
qed

theorem rotate_replaces_witness:
  "\<exists>key plain db'. Rotate sample_keylib sample_pg ''t1'' ''k1'' (sample_db RoleAdmin) = (Inr (key, plain), db') \<and>
     fst (Resolve sample_keylib sample_pg ''cp_01'' db') = Inl ErrKeyRevoked \<and>
     is_ok (fst (Resolve sample_keylib sample_pg plain db'))"
proof -
  obtain key plain db' where
    c: "Rotate sample_keylib sample_pg ''t1'' ''k1'' (sample_db RoleAdmin) = (Inr (key, plain), db')"
    using sample_rotate by blast
  from rotate_replaces [OF sample_db_ok c, of "sample_row RoleAdmin" "''cp_01''" sample_pg]
  have "fst (Resolve sample_keylib sample_pg ''cp_01'' db') = Inl ErrKeyRevoked \<and>
     is_ok (fst (Resolve sample_keylib sample_pg plain db'))"
    by (auto simp: sample_db_def sample_row_def sample_keylib_def sample_pg_def)
  with c show ?thesis by blast
qed

text \<open>Rotating a key that has already expired succeeds and returns a secret that has expired
  too: the replacement inherits the expiry.\<close>

lemma rotate_expired_is_dead:
  assumes "db_ok db" and "Rotate K env tenant keyID db = (Inr (key, plain), db')"
    and "r \<in> set (db_api_keys db)" and "kl_uuid K keyID = Some (row_id r)"
    and "row_expires_at r = Some x" and "kl_timestamptz K x \<le> pg_clock env'"
  shows "\<not> is_ok (fst (Resolve K env' plain db'))"
  using assms(1-4)
proof (rule Rotate_rows)
  fix n
  assume ok: "db_ok db'" and "live r"
    and rows: "db_api_keys db' = map (\<lambda>x. if row_id x = row_id r
        then x\<lparr>row_revoked_at := Some (pg_now env)\<rparr> else x) (db_api_keys db) @ [n]"
    and n: "n = r\<lparr>row_id := pg_new_id env, row_key_hash := hashAPIKey (kl_sha256 K) plain,
           row_key_prefix := displayPrefix plain, row_created_at := pg_now env,
           row_last_used_at := None,
           row_expires_at := map_option (kl_timestamptz K) (row_expires_at r)\<rparr>"
  have "n \<in> set (db_api_keys db')" using rows by simp
  from Resolve_row [OF ok this, of K plain env'] n assms(5,6) show ?thesis
    by (cases "pg_fault env' 0") (auto simp: Resolve_def Let_def query_def)
qed

text \<open>C30: Every table the store can reach from an empty one, by any sequence of operations with any
  faults of the database, is well formed: ids and digests are unique, every key belongs to a
  known tenant and has a known role.\<close>

theorem reachable_tables_ok:
  assumes "store_reach K (initial_db tenants) db"
  shows "distinct (map row_id (db_api_keys db)) \<and> distinct (map row_key_hash (db_api_keys db)) \<and>
    (\<forall>r \<in> set (db_api_keys db). row_tenant_id r \<in> set (db_tenants db) \<and> Valid (row_role r)) \<and>
    db_tenants db = tenants"
proof -
  have "db_ok db \<and> evolves (initial_db tenants) db"
    using store_reach_ok [OF assms] by simp
  then show ?thesis by (auto simp: db_ok_def evolves_def initial_db_def)
qed

theorem reachable_tables_ok_witness:
  "\<exists>db. store_reach sample_keylib (initial_db [''t1'']) db \<and> length (db_api_keys db) = 1 \<and>
     distinct (map row_key_hash (db_api_keys db))"
proof -
  let ?db = "snd (Create sample_keylib sample_pg sample_spec (initial_db [''t1'']))"
  have r: "store_reach sample_keylib (initial_db [''t1'']) ?db"
    by (rule reach_step [OF reach_refl step_Create])
  have "length (db_api_keys ?db) = 1" by code_simp
  with r reachable_tables_ok [OF r] show ?thesis by blast
qed

text \<open>C31: Key management is confined to the caller's tenant: whatever the body and the path of the
  request say, creating, rotating and revoking leave the keys of every other tenant unchanged.\<close>

theorem key_handlers_tenant_scoped:
  assumes "db_ok db" and "FromGin c = Some actor" and "kl_uuid K (id_TenantID actor) \<noteq> Some t"
  shows "tenant_rows t (snd (APIKeyHandler_Create bind (Create K env) c db)) = tenant_rows t db \<and>
    tenant_rows t (snd (APIKeyHandler_Rotate (Rotate K env) c db)) = tenant_rows t db \<and>
    tenant_rows t (snd (APIKeyHandler_Revoke (Revoke K env) c db)) = tenant_rows t db"
  using pg_store.handler_Create_scoped [OF assms] pg_store.handler_Rotate_scoped [OF assms]
    pg_store.handler_Revoke_scoped [OF assms]
  by simp

definition other_tenant_ctx :: GinCtx where
  "other_tenant_ctx = install_identity \<lparr>id_TenantID = ''t2'', id_UserID = ''u'', id_Role = RoleAdmin,
     id_Region = '''', id_SupplierID = ''''\<rparr> (fresh_ctx (sample_request ''DELETE'' ''/v1/api-keys/:id'' []))"

theorem key_handlers_tenant_scoped_witness:
  "Param other_tenant_ctx ''id'' = ''k1'' \<and>
   tenant_rows ''t1'' (snd (APIKeyHandler_Revoke (Revoke sample_keylib sample_pg) other_tenant_ctx
     (sample_db RoleAdmin))) = tenant_rows ''t1'' (sample_db RoleAdmin)"
proof -
  have "Param other_tenant_ctx ''id'' = ''k1''" by code_simp
  moreover have "kl_uuid sample_keylib ''t2'' \<noteq> Some ''t1''" by (simp add: sample_keylib_def)
  then have "tenant_rows ''t1'' (snd (APIKeyHandler_Revoke (Revoke sample_keylib sample_pg) other_tenant_ctx
     (sample_db RoleAdmin))) = tenant_rows ''t1'' (sample_db RoleAdmin)"
    using key_handlers_tenant_scoped [OF sample_db_ok, of RoleAdmin other_tenant_ctx _ sample_keylib "''t1''"]
    by (simp add: other_tenant_ctx_def)
  ultimately show ?thesis ..
qed

end
