(* ===== verification/Key_Sessions.thy ===== *)
theory Key_Sessions
  imports Key_Accounts
begin

text \<open>
  Concurrent calls of the key store of \<open>internal/auth/apikey_postgres.go\<close>. Each call is a session
  of the database that issues its SQL statements one by one, and the statements of different
  sessions interleave, as Postgres runs them at its default isolation level: a statement sees
  what was committed before it began, \<open>FOR UPDATE\<close> and \<open>UPDATE\<close> wait for a row that another open
  transaction has locked, an \<open>INSERT\<close> waits for the outcome of an uncommitted one with the same
  unique key, and the writes of a transaction become visible at its commit.

  The locale \<open>sessions\<close> is the argument, from what the statements of a call guarantee and rely on;
  its interpretation shows that the calls of the source meet it: every interleaving has the
  replies and the table of some order of the whole calls, nothing deadlocks, and every call ends.
\<close>

section \<open>Definitions\<close>

datatype call =
    CallResolve string
  | CallCreate CreateAPIKeySpec
  | CallRotate string string
  | CallRevoke string string

datatype reply =
    Identified "auth_error + Identity"
  | Created "auth_error + (APIKey \<times> string)"
  | Rotated "auth_error + (APIKey \<times> string)"
  | Revoked "auth_error option"

text \<open>
  Where a call is: before its first statement; in \<open>Resolve\<close> between the lookup and the last-used
  stamp; in \<open>Rotate\<close> after \<open>Begin\<close>, with the row loaded, with it revoked, with the replacement
  (and its secret) inserted; or back.
\<close>

datatype session =
    Called
  | Stamping Identity
  | Begun
  | Loaded ApiKeyRow
  | Marked ApiKeyRow
  | Inserted ApiKeyRow ApiKeyRow string
  | Returned reply

text \<open>The row a session has locked, and the row it has inserted and not committed.\<close>

fun holds :: "session \<Rightarrow> string option" where
  "holds (Loaded row) = Some (row_id row)"
| "holds (Marked row) = Some (row_id row)"
| "holds (Inserted row new plaintext) = Some (row_id row)"
| "holds st = None"

fun pending :: "session \<Rightarrow> ApiKeyRow option" where
  "pending (Inserted row new plaintext) = Some new"
| "pending st = None"

definition fails_before :: "fault \<Rightarrow> bool" where
  "fails_before f = (case f of FailBefore m \<Rightarrow> True | _ \<Rightarrow> False)"

definition collide :: "ApiKeyRow \<Rightarrow> ApiKeyRow \<Rightarrow> bool" where
  "collide p r \<longleftrightarrow> row_id p = row_id r \<or> row_key_hash p = row_key_hash r"

text \<open>An insert that the table accepts waits for a colliding one that is not committed.\<close>

definition insert_waits :: "KeyLib \<Rightarrow> ApiKeyRow list \<Rightarrow> ApiKeyRow \<Rightarrow> Db \<Rightarrow> bool" where
  "insert_waits K pend r db \<longleftrightarrow> is_ok (insert_row K r db) \<and> list_ex (\<lambda>p. collide p r) pend"

subsection \<open>The statements of each call\<close>

text \<open>
  One statement of a call, given the rows that other sessions have locked (\<open>held\<close>) and inserted
  (\<open>pend\<close>): nothing if it has to wait, otherwise where the call is then and the table.
\<close>

definition resolve_statement ::
  "KeyLib \<Rightarrow> PgEnv \<Rightarrow> (string \<Rightarrow> bool) \<Rightarrow> string \<Rightarrow> session \<Rightarrow> Db \<Rightarrow> (session \<times> Db) option" where
  "resolve_statement K env held presentedKey st db =
     (case st of
        Called \<Rightarrow>
          (let hash = hashAPIKey (kl_sha256 K) presentedKey in
           case query (pg_fault env 0) (Inr (select_by_hash hash db)) of
             Inl err \<Rightarrow> Some (Returned (Identified (Inl (ErrOther (''resolve api key: '' @ err)))), db)
           | Inr None \<Rightarrow> Some (Returned (Identified (Inl ErrKeyNotFound)), db)
           | Inr (Some row) \<Rightarrow>
               (if \<not> constantTimeEqual hash (row_key_hash row)
                then Some (Returned (Identified (Inl ErrKeyNotFound)), db)
                else if row_revoked_at row \<noteq> None
                then Some (Returned (Identified (Inl ErrKeyRevoked)), db)
                else if (case row_expires_at row of
                           None \<Rightarrow> False
                         | Some expiresAt \<Rightarrow> \<not> pg_clock env < expiresAt)
                then Some (Returned (Identified (Inl ErrKeyExpired)), db)
                else if \<not> Valid (row_role row)
                then Some (Returned (Identified (Inl ErrKeyNotFound)), db)
                else Some (Stamping \<lparr>id_TenantID = row_tenant_id row, id_UserID = row_id row,
                       id_Role = row_role row, id_Region = deref (row_region row),
                       id_SupplierID = deref (row_supplier_id row)\<rparr>, db)))
      | Stamping i \<Rightarrow>
          (if fails_before (pg_fault env 1) then Some (Returned (Identified (Inr i)), db)
           else if held (id_UserID i) then None
           else Some (Returned (Identified (Inr i)),
                  update_rows (\<lambda>r. row_id r = id_UserID i)
                    (\<lambda>r. r\<lparr>row_last_used_at := Some (pg_now env)\<rparr>) db))
      | _ \<Rightarrow> None)"

text \<open>\<open>Create\<close> and \<open>Revoke\<close> have one statement each: the whole call, once it need not wait.\<close>

definition created_row :: "PgEnv \<Rightarrow> CreateAPIKeySpec \<Rightarrow> string \<Rightarrow> string \<Rightarrow> ApiKeyRow" where
  "created_row env spec hash prefix =
     \<lparr>row_id = pg_new_id env, row_tenant_id = spec_TenantID spec,
      row_name = spec_Name spec, row_key_hash = hash, row_key_prefix = prefix,
      row_role = spec_Role spec, row_region = nullify (spec_Region spec),
      row_supplier_id = nullify (spec_SupplierID spec),
      row_created_at = pg_now env, row_last_used_at = None,
      row_expires_at = spec_ExpiresAt spec, row_revoked_at = None\<rparr>"

definition create_waits :: "KeyLib \<Rightarrow> PgEnv \<Rightarrow> ApiKeyRow list \<Rightarrow> CreateAPIKeySpec \<Rightarrow> Db \<Rightarrow> bool" where
  "create_waits K env pend spec db \<longleftrightarrow>
     \<not> (spec_TenantID spec = '''' \<or> \<not> Valid (spec_Role spec)) \<and> \<not> fails_before (pg_fault env 0) \<and>
     (case generateAPIKey (kl_sha256 K) (pg_rand env) of
        Inl err \<Rightarrow> False
      | Inr (plaintext, hash, prefix) \<Rightarrow> insert_waits K pend (created_row env spec hash prefix) db)"

definition create_statement ::
  "KeyLib \<Rightarrow> PgEnv \<Rightarrow> ApiKeyRow list \<Rightarrow> CreateAPIKeySpec \<Rightarrow> session \<Rightarrow> Db \<Rightarrow> (session \<times> Db) option" where
  "create_statement K env pend spec st db =
     (case st of
        Called \<Rightarrow>
          (if create_waits K env pend spec db then None
           else case Create K env spec db of (rep, db') \<Rightarrow> Some (Returned (Created rep), db'))
      | _ \<Rightarrow> None)"

definition revoke_waits :: "KeyLib \<Rightarrow> PgEnv \<Rightarrow> (string \<Rightarrow> bool) \<Rightarrow> string \<Rightarrow> string \<Rightarrow> Db \<Rightarrow> bool" where
  "revoke_waits K env held tenantID keyID db \<longleftrightarrow>
     \<not> fails_before (pg_fault env 0) \<and>
     (case (kl_uuid K keyID, kl_uuid K tenantID) of
        (Some i, Some t) \<Rightarrow> list_ex (\<lambda>r. revoke_where i t r \<and> held (row_id r)) (db_api_keys db)
      | _ \<Rightarrow> False)"

definition revoke_statement ::
  "KeyLib \<Rightarrow> PgEnv \<Rightarrow> (string \<Rightarrow> bool) \<Rightarrow> string \<Rightarrow> string \<Rightarrow> session \<Rightarrow> Db \<Rightarrow> (session \<times> Db) option" where
  "revoke_statement K env held tenantID keyID st db =
     (case st of
        Called \<Rightarrow>
          (if revoke_waits K env held tenantID keyID db then None
           else case Revoke K env tenantID keyID db of (rep, db') \<Rightarrow> Some (Returned (Revoked rep), db'))
      | _ \<Rightarrow> None)"

text \<open>
  The transaction of \<open>Rotate\<close>. An early return runs the deferred rollback, which frees the row and
  drops the writes.
\<close>

definition rotated_row :: "PgEnv \<Rightarrow> string \<Rightarrow> ApiKeyRow \<Rightarrow> string \<Rightarrow> string \<Rightarrow> ApiKeyRow" where
  "rotated_row env tenantID row hash prefix =
     \<lparr>row_id = pg_new_id env, row_tenant_id = tenantID, row_name = row_name row,
      row_key_hash = hash, row_key_prefix = prefix, row_role = row_role row,
      row_region = row_region row, row_supplier_id = row_supplier_id row,
      row_created_at = pg_now env, row_last_used_at = None,
      row_expires_at = row_expires_at row, row_revoked_at = None\<rparr>"

text \<open>What the commit makes visible.\<close>

definition commit_rotation :: "KeyLib \<Rightarrow> PgEnv \<Rightarrow> string \<Rightarrow> ApiKeyRow \<Rightarrow> Db \<Rightarrow> Db" where
  "commit_rotation K env keyID new db =
     (let db1 = revoke_by_id K env keyID db in db1\<lparr>db_api_keys := db_api_keys db1 @ [new]\<rparr>)"

definition rotate_statement ::
  "KeyLib \<Rightarrow> PgEnv \<Rightarrow> (string \<Rightarrow> bool) \<Rightarrow> ApiKeyRow list \<Rightarrow> string \<Rightarrow> string \<Rightarrow> session \<Rightarrow> Db \<Rightarrow>
   (session \<times> Db) option" where
  "rotate_statement K env held pend tenantID keyID st db =
     (case st of
        Called \<Rightarrow>
          (case query (pg_fault env 0) (Inr ()) of
             Inl err \<Rightarrow> Some (Returned (Rotated (Inl (ErrOther (''begin rotate: '' @ err)))), db)
           | Inr _ \<Rightarrow> Some (Begun, db))
      | Begun \<Rightarrow>
          (case query (pg_fault env 1) (select_owned K tenantID keyID db) of
             Inl err \<Rightarrow> Some (Returned (Rotated (Inl (ErrOther (''load key for rotate: '' @ err)))), db)
           | Inr None \<Rightarrow> Some (Returned (Rotated (Inl ErrKeyNotFound)), db)
           | Inr (Some row) \<Rightarrow>
               (if held (row_id row) then None
                else if row_revoked_at row \<noteq> None
                then Some (Returned (Rotated (Inl ErrKeyRevoked)), db)
                else Some (Loaded row, db)))
      | Loaded row \<Rightarrow>
          (case query (pg_fault env 2) (Inr ()) of
             Inl err \<Rightarrow> Some (Returned (Rotated (Inl (ErrOther (''revoke old key: '' @ err)))), db)
           | Inr _ \<Rightarrow> Some (Marked row, db))
      | Marked row \<Rightarrow>
          (case generateAPIKey (kl_sha256 K) (pg_rand env) of
             Inl err \<Rightarrow> Some (Returned (Rotated (Inl err)), db)
           | Inr (plaintext, hash, prefix) \<Rightarrow>
               (let db1 = revoke_by_id K env keyID db;
                    r = rotated_row env tenantID row hash prefix
                in case query (pg_fault env 3) (insert_row K r db1) of
                     Inl err \<Rightarrow> Some (Returned (Rotated (Inl (ErrOther (''insert rotated key: '' @ err)))), db)
                   | Inr db2 \<Rightarrow>
                       (if insert_waits K pend r db1 then None
                        else Some (Inserted row (last (db_api_keys db2)) plaintext, db))))
      | Inserted row new plaintext \<Rightarrow>
          (case exec (pg_fault env 4) (Inr ((), commit_rotation K env keyID new db)) db of
             (Inl err, db') \<Rightarrow> Some (Returned (Rotated (Inl (ErrOther (''commit rotate: '' @ err)))), db')
           | (Inr _, db') \<Rightarrow>
               Some (Returned (Rotated (Inr
                 (\<lparr>key_ID = row_id new, key_TenantID = tenantID, key_Name = row_name row,
                   key_KeyPrefix = row_key_prefix new, key_Role = row_role row,
                   key_Region = deref (row_region row), key_SupplierID = deref (row_supplier_id row),
                   key_CreatedAt = row_created_at new, key_LastUsedAt = None,
                   key_ExpiresAt = row_expires_at row, key_RevokedAt = None\<rparr>, plaintext))), db'))
      | _ \<Rightarrow> None)"

subsection \<open>Interleaving\<close>

type_synonym statement = "(string \<Rightarrow> bool) \<Rightarrow> ApiKeyRow list \<Rightarrow> session \<Rightarrow> Db \<Rightarrow> (session \<times> Db) option"

fun call_statement :: "KeyLib \<Rightarrow> call \<times> PgEnv \<Rightarrow> statement" where
  "call_statement K (CallResolve k, env) held pend = resolve_statement K env held k"
| "call_statement K (CallCreate spec, env) held pend = create_statement K env pend spec"
| "call_statement K (CallRotate t i, env) held pend = rotate_statement K env held pend t i"
| "call_statement K (CallRevoke t i, env) held pend = revoke_statement K env held t i"

text \<open>The whole call at once, as the functions of \<open>Api_Key_Store\<close> have it.\<close>

fun perform :: "KeyLib \<Rightarrow> call \<times> PgEnv \<Rightarrow> Db \<Rightarrow> reply \<times> Db" where
  "perform K (CallResolve k, env) db = (case Resolve K env k db of (r, db') \<Rightarrow> (Identified r, db'))"
| "perform K (CallCreate spec, env) db = (case Create K env spec db of (r, db') \<Rightarrow> (Created r, db'))"
| "perform K (CallRotate t i, env) db = (case Rotate K env t i db of (r, db') \<Rightarrow> (Rotated r, db'))"
| "perform K (CallRevoke t i, env) db = (case Revoke K env t i db of (r, db') \<Rightarrow> (Revoked r, db'))"

text \<open>The database: what is committed, and where the calls in flight are.\<close>

record pg_state =
  ps_db :: Db
  ps_sessions :: "session list"

definition others :: "nat \<Rightarrow> session list \<Rightarrow> session list" where
  "others i ss = map (\<lambda>j. ss ! j) (filter (\<lambda>j. j \<noteq> i) [0..<length ss])"

definition locked :: "session list \<Rightarrow> string \<Rightarrow> bool" where
  "locked ss r = list_ex (\<lambda>st. holds st = Some r) ss"

definition uncommitted :: "session list \<Rightarrow> ApiKeyRow list" where
  "uncommitted ss = List.map_filter pending ss"

text \<open>Session \<open>i\<close> issues its next statement; nothing if it has none or has to wait.\<close>

definition advance :: "(nat \<Rightarrow> statement) \<Rightarrow> nat \<Rightarrow> pg_state \<Rightarrow> pg_state option" where
  "advance stmt i s =
     (if i < length (ps_sessions s)
      then (let os = others i (ps_sessions s) in
            case stmt i (locked os) (uncommitted os) (ps_sessions s ! i) (ps_db s) of
              None \<Rightarrow> None
            | Some (st, db) \<Rightarrow> Some \<lparr>ps_db = db, ps_sessions = (ps_sessions s)[i := st]\<rparr>)
      else None)"

definition calls_begin :: "nat \<Rightarrow> Db \<Rightarrow> pg_state" where
  "calls_begin n db = \<lparr>ps_db = db, ps_sessions = replicate n Called\<rparr>"

text \<open>Runs of a number of statements.\<close>

inductive pg_run :: "(nat \<Rightarrow> statement) \<Rightarrow> nat \<Rightarrow> pg_state \<Rightarrow> pg_state \<Rightarrow> bool" for stmt where
  pg_none: "pg_run stmt 0 s s"
| pg_more: "pg_run stmt n s s' \<Longrightarrow> advance stmt i s' = Some s'' \<Longrightarrow> pg_run stmt (Suc n) s s''"

text \<open>A given order of statements; the statement of a session that has to wait is skipped.\<close>

fun pg_schedule :: "(nat \<Rightarrow> statement) \<Rightarrow> nat list \<Rightarrow> pg_state \<Rightarrow> pg_state" where
  "pg_schedule stmt [] s = s"
| "pg_schedule stmt (i # is) s =
     (case advance stmt i s of None \<Rightarrow> pg_schedule stmt is s | Some s' \<Rightarrow> pg_schedule stmt is s')"

text \<open>The calls of the store, each in its own environment.\<close>

definition store_calls :: "KeyLib \<Rightarrow> (call \<times> PgEnv) list \<Rightarrow> nat \<Rightarrow> statement" where
  "store_calls K calls i = call_statement K (calls ! i)"

definition all_returned :: "pg_state \<Rightarrow> bool" where
  "all_returned s = list_all (\<lambda>st. case st of Returned r \<Rightarrow> True | _ \<Rightarrow> False) (ps_sessions s)"

subsection \<open>Specification\<close>

text \<open>Calls one after the other, with their replies.\<close>

fun in_turn :: "(nat \<Rightarrow> Db \<Rightarrow> reply \<times> Db) \<Rightarrow> nat list \<Rightarrow> Db \<Rightarrow> (nat \<times> reply) list \<times> Db" where
  "in_turn whole [] db = ([], db)"
| "in_turn whole (i # order) db =
     (case whole i db of
        (r, db') \<Rightarrow> (case in_turn whole order db' of (rs, db'') \<Rightarrow> ((i, r) # rs, db'')))"

text \<open>The reply a call is bound to give, once that is settled.\<close>

fun decided :: "session \<Rightarrow> reply option" where
  "decided (Stamping i) = Some (Identified (Inr i))"
| "decided (Returned r) = Some r"
| "decided st = None"

text \<open>
  An order of the calls that explains a state: it has exactly the calls whose reply is settled,
  and in turn they give these replies and, but for last-used stamps, the committed table.
\<close>

definition explains :: "(nat \<Rightarrow> Db \<Rightarrow> reply \<times> Db) \<Rightarrow> Db \<Rightarrow> nat list \<Rightarrow> pg_state \<Rightarrow> bool" where
  "explains whole db0 order s \<longleftrightarrow> distinct order \<and>
     (\<forall>i. i \<in> set order \<longleftrightarrow> i < length (ps_sessions s) \<and> decided (ps_sessions s ! i) \<noteq> None) \<and>
     (\<forall>(i, r) \<in> set (fst (in_turn whole order db0)). decided (ps_sessions s ! i) = Some r) \<and>
     key_view (snd (in_turn whole order db0)) = key_view (ps_db s)"

text \<open>
  What a statement may do to the table while others hold the rows \<open>held\<close> and have inserted
  \<open>pend\<close>: update other rows, keeping their keys, and add rows that do not collide.
\<close>

definition spares :: "(string \<Rightarrow> bool) \<Rightarrow> ApiKeyRow list \<Rightarrow> Db \<Rightarrow> Db \<Rightarrow> bool" where
  "spares held pend db db' \<longleftrightarrow>
     (\<exists>P f new. db' = (update_rows P f db)\<lparr>db_api_keys := db_api_keys (update_rows P f db) @ new\<rparr> \<and>
        (\<forall>r \<in> set (db_api_keys db). P r \<longrightarrow> \<not> held (row_id r) \<and> row_id (f r) = row_id r \<and>
           row_tenant_id (f r) = row_tenant_id r \<and> row_key_hash (f r) = row_key_hash r) \<and>
        (\<forall>n \<in> set new. \<forall>p \<in> set pend. \<not> collide p n))"

text \<open>How many statements a call has left at most.\<close>

fun statements_left :: "session \<Rightarrow> nat" where
  "statements_left Called = 5"
| "statements_left (Stamping i) = 1"
| "statements_left Begun = 4"
| "statements_left (Loaded row) = 3"
| "statements_left (Marked row) = 2"
| "statements_left (Inserted row new plaintext) = 1"
| "statements_left (Returned r) = 0"

text \<open>Every call is where its statements leave it, and no two have locked or inserted the same row.\<close>

definition apart :: "session \<Rightarrow> session \<Rightarrow> bool" where
  "apart st st' \<longleftrightarrow> (\<forall>x. holds st = Some x \<longrightarrow> holds st' \<noteq> Some x) \<and>
     (\<forall>p q. pending st = Some p \<longrightarrow> pending st' = Some q \<longrightarrow> \<not> collide p q)"

definition consistent :: "(nat \<Rightarrow> session \<Rightarrow> Db \<Rightarrow> bool) \<Rightarrow> pg_state \<Rightarrow> bool" where
  "consistent ok s \<longleftrightarrow>
     (\<forall>i < length (ps_sessions s). ok i (ps_sessions s ! i) (ps_db s)) \<and>
     (\<forall>i < length (ps_sessions s). \<forall>j < length (ps_sessions s). i \<noteq> j \<longrightarrow>
        apart (ps_sessions s ! i) (ps_sessions s ! j))"

lemma set_others: "set (others i ss) = {ss ! j | j. j < length ss \<and> j \<noteq> i}"
  by (auto simp: others_def)

lemma locked_others: "locked (others i ss) x \<longleftrightarrow> (\<exists>j < length ss. j \<noteq> i \<and> holds (ss ! j) = Some x)"
  by (auto simp: locked_def list_ex_iff set_others)

lemma uncommitted_others:
  "p \<in> set (uncommitted (others i ss)) \<longleftrightarrow> (\<exists>j < length ss. j \<noteq> i \<and> pending (ss ! j) = Some p)"
  by (auto simp: uncommitted_def set_others List.map_filter_def image_iff)

lemma collide_sym: "collide p q \<longleftrightarrow> collide q p"
  by (auto simp: collide_def)

lemma apart_sym: "apart st st' \<longleftrightarrow> apart st' st"
  unfolding apart_def using collide_sym by blast

lemma apart_update:
  assumes "\<And>j k. j < length ss \<Longrightarrow> k < length ss \<Longrightarrow> j \<noteq> k \<Longrightarrow> apart (ss ! j) (ss ! k)"
    and "\<And>j. j < length ss \<Longrightarrow> j \<noteq> i \<Longrightarrow> apart st (ss ! j)"
    and "j < length ss" "k < length ss" "j \<noteq> k"
  shows "apart (ss[i := st] ! j) (ss[i := st] ! k)"
  using assms(1) [OF assms(3-5)] assms(2) [OF assms(3)] assms(2) [OF assms(4)] assms(3-5)
  by (cases "j = i"; cases "k = i") (simp_all add: apart_sym)

lemma all_returned_iff: "all_returned s \<longleftrightarrow> (\<forall>i < length (ps_sessions s). \<exists>r. ps_sessions s ! i = Returned r)"
proof -
  have "(case st of Returned r \<Rightarrow> True | _ \<Rightarrow> False) \<longleftrightarrow> (\<exists>r. st = Returned r)" for st
    by (cases st) simp_all
  then show ?thesis by (simp add: all_returned_def list_all_length)
qed

lemma advance_SomeE:
  assumes "advance stmt i s = Some s'"
  obtains st db where "i < length (ps_sessions s)"
    and "stmt i (locked (others i (ps_sessions s))) (uncommitted (others i (ps_sessions s)))
           (ps_sessions s ! i) (ps_db s) = Some (st, db)"
    and "s' = \<lparr>ps_db = db, ps_sessions = (ps_sessions s)[i := st]\<rparr>"
  using assms by (auto simp: advance_def Let_def split: if_splits option.splits prod.splits)

lemma in_turn_append:
  "in_turn whole (order @ [i]) db0 =
     (fst (in_turn whole order db0) @ [(i, fst (whole i (snd (in_turn whole order db0))))],
      snd (whole i (snd (in_turn whole order db0))))"
  by (induction order arbitrary: db0) (auto split: prod.splits)

lemma in_turn_order: "map fst (fst (in_turn whole order db0)) = order"
proof (induction order arbitrary: db0)
  case (Cons i order)
  from Cons [of "snd (whole i db0)"] show ?case by (simp add: split_beta)
qed simp

lemma explains_settled:
  "explains whole db0 order s \<Longrightarrow>
   i \<in> set order \<longleftrightarrow> i < length (ps_sessions s) \<and> decided (ps_sessions s ! i) \<noteq> None"
  by (simp add: explains_def)

lemma explains_reply:
  "explains whole db0 order s \<Longrightarrow> (i, r) \<in> set (fst (in_turn whole order db0)) \<Longrightarrow>
   decided (ps_sessions s ! i) = Some r"
  by (auto simp: explains_def)

lemma in_turn_replied:
  assumes "i \<in> set order"
  shows "\<exists>r. (i, r) \<in> set (fst (in_turn whole order db0))"
proof -
  from assms have "i \<in> fst ` set (fst (in_turn whole order db0))"
    unfolding set_map [symmetric] in_turn_order .
  then show ?thesis by auto
qed

section \<open>The argument\<close>

locale sessions =
  fixes stmt :: "nat \<Rightarrow> statement"
    and whole :: "nat \<Rightarrow> Db \<Rightarrow> reply \<times> Db"
    and ok :: "nat \<Rightarrow> session \<Rightarrow> Db \<Rightarrow> bool"
  assumes ok_Called: "ok i Called db"
    and whole_view: "key_view db = key_view db' \<Longrightarrow>
        fst (whole i db) = fst (whole i db') \<and> key_view (snd (whole i db)) = key_view (snd (whole i db'))"
    and stmt_ok: "ok i st db \<Longrightarrow> stmt i held pend st db = Some (st', db') \<Longrightarrow> ok i st' db'"
    and stmt_spares: "ok i st db \<Longrightarrow> \<forall>r. holds st = Some r \<longrightarrow> \<not> held r \<Longrightarrow>
        \<forall>p q. pending st = Some p \<longrightarrow> q \<in> set pend \<longrightarrow> \<not> collide q p \<Longrightarrow>
        stmt i held pend st db = Some (st', db') \<Longrightarrow> spares held pend db db'"
    and ok_spared: "ok i st db \<Longrightarrow> spares held pend db db' \<Longrightarrow>
        \<forall>r. holds st = Some r \<longrightarrow> held r \<Longrightarrow> \<forall>p. pending st = Some p \<longrightarrow> p \<in> set pend \<Longrightarrow> ok i st db'"
    and stmt_locks: "ok i st db \<Longrightarrow> stmt i held pend st db = Some (st', db') \<Longrightarrow> holds st' = Some x \<Longrightarrow>
        holds st = Some x \<or> \<not> held x"
    and stmt_inserts: "ok i st db \<Longrightarrow> stmt i held pend st db = Some (st', db') \<Longrightarrow> pending st' = Some p \<Longrightarrow>
        q \<in> set pend \<Longrightarrow> \<not> collide q p"
    and stmt_decides: "ok i st db \<Longrightarrow> stmt i held pend st db = Some (st', db') \<Longrightarrow>
        decided st = None \<Longrightarrow> decided st' = Some r \<Longrightarrow>
        fst (whole i db) = r \<and> key_view (snd (whole i db)) = key_view db'"
    and stmt_silent: "ok i st db \<Longrightarrow> stmt i held pend st db = Some (st', db') \<Longrightarrow>
        decided st' = None \<or> decided st \<noteq> None \<Longrightarrow> decided st' = decided st \<and> key_view db' = key_view db"
    and stmt_free: "ok i st db \<Longrightarrow> \<forall>r. st \<noteq> Returned r \<Longrightarrow> \<forall>r. \<not> held r \<Longrightarrow> stmt i held [] st db \<noteq> None"
    and stmt_holder: "ok i st db \<Longrightarrow> holds st \<noteq> None \<Longrightarrow> stmt i held [] st db \<noteq> None"
    and stmt_writer: "ok i st db \<Longrightarrow> pending st \<noteq> None \<Longrightarrow> stmt i held pend st db \<noteq> None"
    and stmt_left: "ok i st db \<Longrightarrow> stmt i held pend st db = Some (st', db') \<Longrightarrow>
        statements_left st' < statements_left st"
begin

lemma consistent_begin: "consistent ok (calls_begin n db)"
  by (simp add: consistent_def calls_begin_def ok_Called apart_def)

lemma consistent_advance:
  assumes inv: "consistent ok s" and adv: "advance stmt i s = Some s'"
  shows "consistent ok s'"
proof -
  let ?ss = "ps_sessions s"
  from adv obtain st db where i: "i < length ?ss"
    and step: "stmt i (locked (others i ?ss)) (uncommitted (others i ?ss)) (?ss ! i) (ps_db s) = Some (st, db)"
    and s': "s' = \<lparr>ps_db = db, ps_sessions = ?ss[i := st]\<rparr>"
    by (rule advance_SomeE)
  have oki: "ok i (?ss ! i) (ps_db s)" using inv i by (simp add: consistent_def)
  have spared: "spares (locked (others i ?ss)) (uncommitted (others i ?ss)) (ps_db s) db"
  proof (rule stmt_spares [OF oki _ _ step])
    show "\<forall>x. holds (?ss ! i) = Some x \<longrightarrow> \<not> locked (others i ?ss) x"
      using inv i unfolding consistent_def apart_def locked_others by blast
    show "\<forall>p q. pending (?ss ! i) = Some p \<longrightarrow> q \<in> set (uncommitted (others i ?ss)) \<longrightarrow> \<not> collide q p"
      using inv i unfolding consistent_def apart_def uncommitted_others using collide_sym by blast
  qed
  have "ok j (?ss[i := st] ! j) db" if "j < length ?ss" for j
  proof (cases "j = i")
    case True
    with i stmt_ok [OF oki step] show ?thesis by simp
  next
    case False
    have "ok j (?ss ! j) db"
    proof (rule ok_spared [OF _ spared])
      show "ok j (?ss ! j) (ps_db s)" using inv that by (simp add: consistent_def)
    qed (use False that in \<open>auto simp: locked_others uncommitted_others\<close>)
    with False show ?thesis by simp
  qed
  moreover have new: "apart st (?ss ! j)" if "j < length ?ss" "j \<noteq> i" for j
    unfolding apart_def
  proof (intro conjI allI impI)
    fix x
    assume "holds st = Some x"
    with stmt_locks [OF oki step this] inv i that show "holds (?ss ! j) \<noteq> Some x"
      unfolding consistent_def apart_def locked_others by blast
  next
    fix p q
    assume "pending st = Some p" "pending (?ss ! j) = Some q"
    with stmt_inserts [OF oki step, of p q] that show "\<not> collide p q"
      unfolding uncommitted_others using collide_sym by blast
  qed
  have "apart (?ss[i := st] ! j) (?ss[i := st] ! k)" if "j < length ?ss" "k < length ?ss" "j \<noteq> k" for j k
    by (rule apart_update [OF _ new that]) (use inv in \<open>auto simp: consistent_def\<close>)
  ultimately show ?thesis unfolding consistent_def s' by simp
qed

text \<open>The forward simulation: a statement that settles a call appends it to the order.\<close>

lemma explains_advance:
  assumes inv: "consistent ok s" and adv: "advance stmt i s = Some s'"
    and ex: "explains whole db0 order s"
  shows "\<exists>more. explains whole db0 (order @ more) s'"
proof -
  let ?ss = "ps_sessions s" and ?db = "snd (in_turn whole order db0)"
  from adv obtain st db where i: "i < length ?ss"
    and step: "stmt i (locked (others i ?ss)) (uncommitted (others i ?ss)) (?ss ! i) (ps_db s) = Some (st, db)"
    and s': "s' = \<lparr>ps_db = db, ps_sessions = ?ss[i := st]\<rparr>"
    by (rule advance_SomeE)
  have oki: "ok i (?ss ! i) (ps_db s)" using inv i by (simp add: consistent_def)
  show ?thesis
  proof (cases "decided st = None \<or> decided (?ss ! i) \<noteq> None")
    case True
    note silent = stmt_silent [OF oki step True]
    have "decided (?ss[i := st] ! j) = decided (?ss ! j)" for j
      using silent i by (cases "j = i") simp_all
    with ex silent have "explains whole db0 (order @ []) s'"
      unfolding explains_def s' by simp
    then show ?thesis ..
  next
    case False
    then obtain r where r: "decided st = Some r" and new: "decided (?ss ! i) = None" by auto
    have "key_view ?db = key_view (ps_db s)" using ex by (simp add: explains_def)
    from stmt_decides [OF oki step new r] whole_view [OF this, of i]
    have run: "fst (whole i ?db) = r" "key_view (snd (whole i ?db)) = key_view db" by simp_all
    have "i \<notin> set order" using ex new by (simp add: explains_def)
    moreover have "decided (?ss[i := st] ! j) = (if j = i then Some r else decided (?ss ! j))" for j
      using i r by simp
    moreover have "j \<in> set order \<and> decided (?ss ! j) = Some q"
      if "(j, q) \<in> set (fst (in_turn whole order db0))" for j q
    proof
      from that show "j \<in> set order" by (metis in_turn_order image_eqI fst_conv set_map)
      from that ex show "decided (?ss ! j) = Some q" by (auto simp: explains_def)
    qed
    ultimately have "\<forall>(j, q) \<in> set (fst (in_turn whole (order @ [i]) db0)). decided (?ss[i := st] ! j) = Some q"
      using run unfolding in_turn_append by fastforce
    moreover have "\<forall>j. j \<in> set (order @ [i]) \<longleftrightarrow> j < length ?ss \<and> decided (?ss[i := st] ! j) \<noteq> None"
      using ex i r by (auto simp: explains_def nth_list_update)
    ultimately have "explains whole db0 (order @ [i]) s'"
      using ex run \<open>i \<notin> set order\<close> unfolding explains_def s' in_turn_append by simp
    then show ?thesis ..
  qed
qed

lemma run_explained:
  assumes "pg_run stmt m s s'" and "consistent ok s" and "explains whole db0 order s"
  shows "consistent ok s' \<and> (\<exists>more. explains whole db0 (order @ more) s')"
  using assms
proof (induction rule: pg_run.induct)
  case (pg_none s)
  then show ?case by (metis append_Nil2)
next
  case (pg_more m s s' i s'')
  then obtain more where "consistent ok s'" "explains whole db0 (order @ more) s'" by blast
  with consistent_advance explains_advance pg_more.hyps(2) show ?case by (metis append.assoc)
qed

lemma explains_begin: "explains whole db [] (calls_begin n db)"
  by (simp add: explains_def calls_begin_def)

lemma sessions_kept: "pg_run stmt m s s' \<Longrightarrow> length (ps_sessions s') = length (ps_sessions s)"
  by (induction rule: pg_run.induct) (auto elim: advance_SomeE)

text \<open>Progress: with a call still on its way, some call can issue a statement.\<close>

lemma some_advance:
  assumes inv: "consistent ok s" and "\<not> all_returned s"
  shows "\<exists>i s'. advance stmt i s = Some s'"
proof -
  let ?ss = "ps_sessions s"
  have go: "\<exists>s'. advance stmt i s = Some s'"
    if "i < length ?ss"
      and "stmt i (locked (others i ?ss)) (uncommitted (others i ?ss)) (?ss ! i) (ps_db s) \<noteq> None" for i
    using that by (auto simp: advance_def Let_def)
  have oki: "ok i (?ss ! i) (ps_db s)" if "i < length ?ss" for i
    using inv that by (simp add: consistent_def)
  have none: "uncommitted (others i ?ss) = []" if "\<forall>j < length ?ss. pending (?ss ! j) = None" for i
    using that uncommitted_others by (metis last_in_set option.distinct(1))
  consider j where "j < length ?ss" "pending (?ss ! j) \<noteq> None"
    | j where "j < length ?ss" "holds (?ss ! j) \<noteq> None" "\<forall>j < length ?ss. pending (?ss ! j) = None"
    | "\<forall>j < length ?ss. holds (?ss ! j) = None \<and> pending (?ss ! j) = None" by blast
  then show ?thesis
  proof cases
    case 1
    with go [of j] stmt_writer [OF oki] show ?thesis by blast
  next
    case 2
    have "stmt j (locked (others j ?ss)) [] (?ss ! j) (ps_db s) \<noteq> None"
      using 2 oki by (intro stmt_holder) auto
    with go [of j] 2 none show ?thesis by auto
  next
    case 3
    obtain j where j: "j < length ?ss" "\<forall>r. ?ss ! j \<noteq> Returned r"
      using assms(2) by (auto simp: all_returned_iff)
    have "\<forall>x. \<not> locked (others j ?ss) x" using 3 by (auto simp: locked_others)
    then have "stmt j (locked (others j ?ss)) [] (?ss ! j) (ps_db s) \<noteq> None"
      using j oki by (intro stmt_free) auto
    with go [of j] j 3 none show ?thesis by auto
  qed
qed

lemma advance_left:
  assumes "consistent ok s" and "advance stmt i s = Some s'"
  shows "sum_list (map statements_left (ps_sessions s')) < sum_list (map statements_left (ps_sessions s))"
proof -
  from assms(2) obtain st db where i: "i < length (ps_sessions s)"
    and step: "stmt i (locked (others i (ps_sessions s))) (uncommitted (others i (ps_sessions s)))
           (ps_sessions s ! i) (ps_db s) = Some (st, db)"
    and s': "s' = \<lparr>ps_db = db, ps_sessions = (ps_sessions s)[i := st]\<rparr>"
    by (rule advance_SomeE)
  have "statements_left st < statements_left (ps_sessions s ! i)"
    using assms(1) i by (intro stmt_left [OF _ step]) (simp add: consistent_def)
  moreover have "statements_left (ps_sessions s ! i) \<le> sum_list (map statements_left (ps_sessions s))"
    using i elem_le_sum_list [of i "map statements_left (ps_sessions s)"] by simp
  ultimately show ?thesis
    using i by (simp add: s' map_update sum_list_update)
qed

lemma run_left:
  assumes "pg_run stmt m s s'" and "consistent ok s"
  shows "consistent ok s' \<and> m + sum_list (map statements_left (ps_sessions s')) \<le> sum_list (map statements_left (ps_sessions s))"
  using assms
  by (induction rule: pg_run.induct) (use advance_left consistent_advance in fastforce)+

end

section \<open>The calls of the source meet it\<close>

subsection \<open>Last-used stamps play no part\<close>

definition bare :: "Db \<Rightarrow> Db" where
  "bare db = db\<lparr>db_api_keys := map (\<lambda>r. r\<lparr>row_last_used_at := None\<rparr>) (db_api_keys db)\<rparr>"

lemma bare_key_view: "key_view db = key_view db' \<longleftrightarrow> bare db = bare db'"
  by (cases db; cases db') (auto simp: key_view_def bare_def)

lemma key_view_bare [simp]: "key_view (bare db) = key_view db"
  by (simp add: key_view_def bare_def comp_def)

lemma find_map: "List.find P (map f xs) = map_option f (List.find (\<lambda>x. P (f x)) xs)"
  by (induction xs) simp_all

lemma select_by_hash_bare:
  "select_by_hash h (bare db) = map_option (\<lambda>r. r\<lparr>row_last_used_at := None\<rparr>) (select_by_hash h db)"
  by (simp add: select_by_hash_def bare_def find_map)

lemma select_owned_bare:
  "select_owned K t i (bare db) =
     map_sum id (map_option (\<lambda>r. r\<lparr>row_last_used_at := None\<rparr>)) (select_owned K t i db)"
  by (simp add: select_owned_def bare_def find_map split: option.splits)

lemma insert_row_bare:
  "row_last_used_at r = None \<Longrightarrow> insert_row K r (bare db) = map_sum id bare (insert_row K r db)"
  by (simp add: insert_row_def bare_def comp_def split: option.splits)

lemma update_rows_bare:
  assumes "\<And>r. P (r\<lparr>row_last_used_at := None\<rparr>) = P r"
    and "\<And>r. f (r\<lparr>row_last_used_at := None\<rparr>) = (f r)\<lparr>row_last_used_at := None\<rparr>"
  shows "update_rows P f (bare db) = bare (update_rows P f db)"
  using assms by (simp add: update_rows_def bare_def comp_def)

lemma exec_bare:
  "exec f (map_sum id (map_prod id bare) r) (bare db) = map_prod id bare (exec f r db)"
  by (auto simp: exec_def split: fault.splits sum.splits prod.splits)

lemma query_map: "query f (map_sum id g r) = map_sum id g (query f r)"
  by (simp add: query_def split: fault.splits)

lemma Create_bare: "Create K env spec (bare db) = map_prod id bare (Create K env spec db)"
proof -
  have "exec f (map_sum id (Pair ()) (insert_row K r (bare db))) (bare db) =
      map_prod id bare (exec f (map_sum id (Pair ()) (insert_row K r db)) db)"
    if "row_last_used_at r = None" for r f
    using exec_bare [of f "map_sum id (Pair ()) (insert_row K r db)" db] that
    by (simp add: insert_row_bare sum.map_comp comp_def id_def)
  then show ?thesis
    by (auto simp: Create_def split: sum.splits prod.splits)
qed

lemma Revoke_bare: "Revoke K env t i (bare db) = map_prod id bare (Revoke K env t i db)"
proof -
  have "length (filter (revoke_where i' t') (db_api_keys (bare db))) =
      length (filter (revoke_where i' t') (db_api_keys db))" for i' t'
    by (simp add: bare_def filter_map comp_def revoke_where_def [abs_def])
  moreover have "update_rows (revoke_where i' t') (\<lambda>r. r\<lparr>row_revoked_at := v\<rparr>) (bare db) =
      bare (update_rows (revoke_where i' t') (\<lambda>r. r\<lparr>row_revoked_at := v\<rparr>) db)" for i' t' v
    by (rule update_rows_bare) (simp_all add: revoke_where_def)
  ultimately show ?thesis
    by (auto simp: Revoke_def exec_def split: option.splits fault.splits)
qed

lemma Rotate_bare: "Rotate K env t i (bare db) = map_prod id bare (Rotate K env t i db)"
proof -
  have upd: "revoke_by_id K env i (bare db) = bare (revoke_by_id K env i db)"
    by (rule update_rows_bare) simp_all
  have load: "query f (select_owned K t i (bare db)) =
      map_sum id (map_option (\<lambda>r. r\<lparr>row_last_used_at := None\<rparr>)) (query f (select_owned K t i db))" for f
    by (simp add: select_owned_bare query_map)
  have ins: "query f (insert_row K r (bare db1)) = map_sum id bare (query f (insert_row K r db1))"
    if "row_last_used_at r = None" for f r db1
    by (simp add: insert_row_bare [OF that] query_map)
  have commit: "exec f (Inr ((), bare db2)) (bare db) = map_prod id bare (exec f (Inr ((), db2)) db)" for f db2
    using exec_bare [of f "Inr ((), db2)" db] by simp
  have mark: "query f (Inr (bare db1)) = map_sum id bare (query f (Inr db1))" for f db1
    using query_map [of f bare "Inr db1"] by simp
  show ?thesis
    by (auto simp: Rotate_def load ins commit upd mark query_Inr split: sum.splits option.splits prod.splits)
qed

lemma Resolve_view:
  "fst (Resolve K env k (bare db)) = fst (Resolve K env k db)"
  "key_view (snd (Resolve K env k db)) = key_view db"
proof -
  show "fst (Resolve K env k (bare db)) = fst (Resolve K env k db)"
    by (auto simp: Resolve_def Let_def select_by_hash_bare query_map query_def split: option.splits fault.splits)
  show "key_view (snd (Resolve K env k db)) = key_view db"
    using Resolve_db [of K env k db] by (auto simp: key_view_def update_rows_def)
qed

lemma perform_view:
  assumes "key_view db = key_view db'"
  shows "fst (perform K call db) = fst (perform K call db') \<and>
    key_view (snd (perform K call db)) = key_view (snd (perform K call db'))"
proof -
  have "fst (perform K call (bare d)) = fst (perform K call d) \<and>
      key_view (snd (perform K call (bare d))) = key_view (snd (perform K call d))" for d
    using Resolve_view
    by (cases "(K, call, d)" rule: perform.cases)
       (auto simp: Create_bare Rotate_bare Revoke_bare split_beta)
  from this [of db] this [of db'] assms show ?thesis unfolding bare_key_view by simp
qed

subsection \<open>What holds between the statements of a call\<close>

definition row_loaded :: "KeyLib \<Rightarrow> PgEnv \<Rightarrow> string \<Rightarrow> string \<Rightarrow> ApiKeyRow \<Rightarrow> Db \<Rightarrow> bool" where
  "row_loaded K env t i row db \<longleftrightarrow> pg_fault env 0 = NoFault \<and> pg_fault env 1 = NoFault \<and>
     select_owned K t i db = Inr (Some row) \<and> row_revoked_at row = None"

definition row_inserted ::
  "KeyLib \<Rightarrow> PgEnv \<Rightarrow> string \<Rightarrow> string \<Rightarrow> ApiKeyRow \<Rightarrow> ApiKeyRow \<Rightarrow> string \<Rightarrow> Db \<Rightarrow> bool" where
  "row_inserted K env t i row new plaintext db \<longleftrightarrow> pg_fault env 3 = NoFault \<and>
     (\<exists>hash prefix. generateAPIKey (kl_sha256 K) (pg_rand env) = Inr (plaintext, hash, prefix) \<and>
        insert_row K (rotated_row env t row hash prefix) (revoke_by_id K env i db) =
          Inr (commit_rotation K env i new db))"

fun call_ok :: "KeyLib \<Rightarrow> call \<times> PgEnv \<Rightarrow> session \<Rightarrow> Db \<Rightarrow> bool" where
  "call_ok K (CallRotate t i, env) st db =
     (case st of
        Called \<Rightarrow> True
      | Begun \<Rightarrow> pg_fault env 0 = NoFault
      | Loaded row \<Rightarrow> row_loaded K env t i row db
      | Marked row \<Rightarrow> row_loaded K env t i row db \<and> pg_fault env 2 = NoFault
      | Inserted row new plaintext \<Rightarrow> row_loaded K env t i row db \<and> pg_fault env 2 = NoFault \<and>
          row_inserted K env t i row new plaintext db
      | Stamping ident \<Rightarrow> False
      | Returned r \<Rightarrow> True)"
| "call_ok K (CallResolve k, env) st db =
     (case st of Called \<Rightarrow> True | Stamping ident \<Rightarrow> True | Returned r \<Rightarrow> True | _ \<Rightarrow> False)"
| "call_ok K (c, env) st db = (case st of Called \<Rightarrow> True | Returned r \<Rightarrow> True | _ \<Rightarrow> False)"

text \<open>A row as the table stores it, and when the table takes it.\<close>

definition stored_row :: "KeyLib \<Rightarrow> ApiKeyRow \<Rightarrow> ApiKeyRow" where
  "stored_row K r = r\<lparr>row_tenant_id := the (kl_uuid K (row_tenant_id r)),
     row_expires_at := map_option (kl_timestamptz K) (row_expires_at r)\<rparr>"

definition acceptable :: "KeyLib \<Rightarrow> ApiKeyRow \<Rightarrow> Db \<Rightarrow> bool" where
  "acceptable K r db \<longleftrightarrow>
     (\<exists>t \<in> set (db_tenants db). kl_uuid K (row_tenant_id r) = Some t) \<and>
     text_ok (row_name r) \<and> text_ok (row_role r) \<and>
     opt_text_ok (row_region r) \<and> opt_text_ok (row_supplier_id r) \<and>
     (\<forall>q \<in> set (db_api_keys db). \<not> collide q r)"

lemma insert_row_iff:
  "insert_row K r db = Inr db' \<longleftrightarrow>
     acceptable K r db \<and> db' = db\<lparr>db_api_keys := db_api_keys db @ [stored_row K r]\<rparr>"
  by (auto simp: insert_row_def acceptable_def stored_row_def collide_def image_iff split: option.splits)

lemma collide_stored [simp]: "collide q (stored_row K r) = collide q r"
  by (simp add: collide_def stored_row_def)

lemma insert_row_last: "insert_row K r db = Inr db' \<Longrightarrow> last (db_api_keys db') = stored_row K r"
  by (simp add: insert_row_iff)

lemma keys_update_inj: "db\<lparr>db_api_keys := xs\<rparr> = db\<lparr>db_api_keys := ys\<rparr> \<longleftrightarrow> xs = ys"
  by (auto dest: arg_cong [of _ _ db_api_keys])

lemma insert_rotated_iff:
  "insert_row K r (revoke_by_id K env i db) = Inr (commit_rotation K env i new db) \<longleftrightarrow>
     acceptable K r (revoke_by_id K env i db) \<and> new = stored_row K r"
  by (auto simp: insert_row_iff commit_rotation_def Let_def keys_update_inj)

lemma ball_map:
  "(\<And>r. r \<in> set xs \<Longrightarrow> collide (g r) x = collide r x) \<Longrightarrow>
   (\<forall>q \<in> set (map g xs). \<not> collide q x) \<longleftrightarrow> (\<forall>q \<in> set xs. \<not> collide q x)"
  by simp

lemma acceptable_update:
  assumes "\<And>r. r \<in> set (db_api_keys db) \<Longrightarrow> P r \<Longrightarrow> row_id (f r) = row_id r \<and> row_key_hash (f r) = row_key_hash r"
  shows "acceptable K x (update_rows P f db) = acceptable K x db"
proof -
  have "collide (if P r then f r else r) x = collide r x" if "r \<in> set (db_api_keys db)" for r
    using assms that by (simp add: collide_def)
  then have "(\<forall>q \<in> set (db_api_keys (update_rows P f db)). \<not> collide q x) \<longleftrightarrow>
      (\<forall>q \<in> set (db_api_keys db). \<not> collide q x)"
    unfolding update_rows_simps by (rule ball_map)
  then show ?thesis by (simp add: acceptable_def)
qed

lemma spares_refl [simp]: "spares held pend db db"
  unfolding spares_def
  by (rule exI [of _ "\<lambda>_. False"], rule exI [of _ id], rule exI [of _ "[]"]) (simp add: update_rows_def)

lemma spares_update:
  assumes "\<And>r. r \<in> set (db_api_keys db) \<Longrightarrow> P r \<Longrightarrow> \<not> held (row_id r) \<and> row_id (f r) = row_id r \<and>
      row_tenant_id (f r) = row_tenant_id r \<and> row_key_hash (f r) = row_key_hash r"
  shows "spares held pend db (update_rows P f db)"
  using assms unfolding spares_def by (intro exI [of _ P] exI [of _ f] exI [of _ "[]"]) simp

lemma find_spared:
  assumes "\<And>r. r \<in> set xs \<Longrightarrow> Q (g r) = Q r" and "List.find Q xs = Some row" and "g row = row"
  shows "List.find Q (map g xs @ new) = Some row"
  using assms by (induction xs) (auto split: if_splits)

lemma select_owned_spared:
  assumes "spares held pend db db'" and "select_owned K t i db = Inr (Some row)" and "held (row_id row)"
  shows "select_owned K t i db' = Inr (Some row)"
proof -
  from assms(1) obtain P f new
    where db': "db' = (update_rows P f db)\<lparr>db_api_keys := db_api_keys (update_rows P f db) @ new\<rparr>"
      and f: "\<forall>r \<in> set (db_api_keys db). P r \<longrightarrow> \<not> held (row_id r) \<and> row_id (f r) = row_id r \<and>
           row_tenant_id (f r) = row_tenant_id r \<and> row_key_hash (f r) = row_key_hash r"
    unfolding spares_def by blast
  from assms(2) obtain i' t' where u: "kl_uuid K i = Some i'" "kl_uuid K t = Some t'"
    and row: "List.find (\<lambda>r. row_id r = i' \<and> row_tenant_id r = t') (db_api_keys db) = Some row"
    by (auto simp: select_owned_def split: option.splits)
  then have "row \<in> set (db_api_keys db)" by (auto simp: find_Some_iff)
  with f assms(3) have "\<not> P row" by blast
  then have "List.find (\<lambda>r. row_id r = i' \<and> row_tenant_id r = t') (db_api_keys db') = Some row"
    unfolding db' update_rows_def using f by (simp, intro find_spared [OF _ row]) auto
  with u show ?thesis by (simp add: select_owned_def)
qed

lemma acceptable_spared:
  assumes "spares held pend db db'" and "acceptable K r db" and "p \<in> set pend" and "collide p r"
    and "row_id p = row_id r" "row_key_hash p = row_key_hash r"
  shows "acceptable K r db'"
proof -
  from assms(1) obtain P f new
    where db': "db' = (update_rows P f db)\<lparr>db_api_keys := db_api_keys (update_rows P f db) @ new\<rparr>"
      and f: "\<forall>r \<in> set (db_api_keys db). P r \<longrightarrow> \<not> held (row_id r) \<and> row_id (f r) = row_id r \<and>
           row_tenant_id (f r) = row_tenant_id r \<and> row_key_hash (f r) = row_key_hash r"
      and new: "\<forall>n \<in> set new. \<forall>p \<in> set pend. \<not> collide p n"
    unfolding spares_def by blast
  have "acceptable K r (update_rows P f db)"
    using f assms(2) by (subst acceptable_update) auto
  moreover have "\<not> collide n r" if "n \<in> set new" for n
    using new that assms(3,5,6) by (fastforce simp: collide_def)
  ultimately show ?thesis by (auto simp: acceptable_def db')
qed

subsection \<open>The laws\<close>

lemma call_cases [case_names resolve create rotate revoke]:
  assumes "\<And>k env. call = (CallResolve k, env) \<Longrightarrow> thesis"
    and "\<And>spec env. call = (CallCreate spec, env) \<Longrightarrow> thesis"
    and "\<And>t i env. call = (CallRotate t i, env) \<Longrightarrow> thesis"
    and "\<And>t i env. call = (CallRevoke t i, env) \<Longrightarrow> thesis"
  shows thesis
  using assms by (metis call.exhaust prod.exhaust)

lemma Create_effect:
  "snd (Create K env spec db) = db \<or>
   (\<exists>plaintext hash prefix. \<not> (spec_TenantID spec = '''' \<or> \<not> Valid (spec_Role spec)) \<and>
      \<not> fails_before (pg_fault env 0) \<and> generateAPIKey (kl_sha256 K) (pg_rand env) = Inr (plaintext, hash, prefix) \<and>
      insert_row K (created_row env spec hash prefix) db = Inr (snd (Create K env spec db)))"
proof (cases "(spec_TenantID spec = '''' \<or> \<not> Valid (spec_Role spec)) \<or> fails_before (pg_fault env 0) \<or>
    \<not> is_ok (generateAPIKey (kl_sha256 K) (pg_rand env))")
  case True
  then show ?thesis
    by (auto simp: Create_def fails_before_def exec_def split: sum.splits prod.splits fault.splits)
next
  case False
  then obtain plaintext hash prefix where
    gen: "generateAPIKey (kl_sha256 K) (pg_rand env) = Inr (plaintext, hash, prefix)"
    by (auto simp: is_ok_iff)
  let ?ins = "insert_row K (created_row env spec hash prefix) db"
  let ?x = "exec (pg_fault env 0) (map_sum id (Pair ()) ?ins) db"
  have "snd (Create K env spec db) = snd ?x"
    using False gen by (simp add: Create_def created_row_def split: prod.splits sum.splits)
  moreover have "snd ?x = db \<or> ?ins = Inr (snd ?x)"
    using exec_snd [of "pg_fault env 0" "map_sum id (Pair ()) ?ins" db] by (cases ?ins) auto
  ultimately show ?thesis using False gen by auto
qed

lemma Revoke_effect:
  "snd (Revoke K env t i db) = db \<or>
   (\<not> fails_before (pg_fault env 0) \<and> (\<exists>i' t'. kl_uuid K i = Some i' \<and> kl_uuid K t = Some t' \<and>
      snd (Revoke K env t i db) =
        update_rows (revoke_where i' t') (\<lambda>r. r\<lparr>row_revoked_at := Some (pg_now env)\<rparr>) db))"
  by (auto simp: Revoke_def exec_def fails_before_def
      split: sum.splits option.splits if_splits prod.splits fault.splits)

lemma call_statement_ok:
  assumes "call_ok K call st db" and "call_statement K call held pend st db = Some (st', db')"
  shows "call_ok K call st' db'"
proof (cases call rule: call_cases)
  case (rotate t i env)
  then show ?thesis
    using assms
    by (cases st)
       (auto simp: rotate_statement_def row_loaded_def row_inserted_def query_Inr insert_row_iff
         commit_rotation_def Let_def split: sum.splits option.splits if_splits prod.splits)
qed (use assms in \<open>auto simp: resolve_statement_def create_statement_def revoke_statement_def Let_def
    split: session.splits sum.splits option.splits if_splits prod.splits\<close>)

lemma row_loaded_by_id:
  "row_loaded K env t i row db \<Longrightarrow> kl_uuid K i = Some (row_id row)"
  by (auto simp: row_loaded_def select_owned_def find_Some_iff split: option.splits)

lemma commit_spares:
  assumes "kl_uuid K i = Some x" and "\<not> held x" and "\<forall>q \<in> set pend. \<not> collide q new"
  shows "spares held pend db (commit_rotation K env i new db)"
  unfolding spares_def commit_rotation_def Let_def
  using assms
  by (intro exI [of _ "\<lambda>r. Some (row_id r) = kl_uuid K i"]
      exI [of _ "\<lambda>r. r\<lparr>row_revoked_at := Some (pg_now env)\<rparr>"] exI [of _ "[new]"]) auto

lemma call_statement_spares:
  assumes ok: "call_ok K call st db" and lock: "\<forall>x. holds st = Some x \<longrightarrow> \<not> held x"
    and pend: "\<forall>p q. pending st = Some p \<longrightarrow> q \<in> set pend \<longrightarrow> \<not> collide q p"
    and step: "call_statement K call held pend st db = Some (st', db')"
  shows "spares held pend db db'"
proof (cases call rule: call_cases)
  case (resolve k env)
  with step show ?thesis
    by (auto simp: resolve_statement_def Let_def intro!: spares_update
        split: session.splits sum.splits option.splits if_splits)
next
  case (create spec env)
  with step have db': "db' = snd (Create K env spec db)" "\<not> create_waits K env pend spec db"
    by (auto simp: create_statement_def split: session.splits if_splits prod.splits)
  show ?thesis
  proof (cases "db' = db")
    case False
    with Create_effect [of K env spec db] db' obtain plaintext hash prefix
      where "generateAPIKey (kl_sha256 K) (pg_rand env) = Inr (plaintext, hash, prefix)"
        and ins: "insert_row K (created_row env spec hash prefix) db = Inr db'"
        and "\<not> insert_waits K pend (created_row env spec hash prefix) db"
      by (auto simp: create_waits_def)
    then have "\<forall>p \<in> set pend. \<not> collide p (stored_row K (created_row env spec hash prefix))"
      by (auto simp: insert_waits_def list_ex_iff)
    with ins show ?thesis
      unfolding spares_def insert_row_iff
      by (intro exI [of _ "\<lambda>_. False"] exI [of _ id] exI [of _ "[stored_row K (created_row env spec hash prefix)]"])
         (simp add: update_rows_def)
  qed simp
next
  case (rotate t i env)
  with step ok lock pend show ?thesis
    by (cases st)
       (auto simp: rotate_statement_def Let_def exec_def dest!: row_loaded_by_id intro!: commit_spares
         split: sum.splits option.splits if_splits prod.splits fault.splits)
next
  case (revoke t i env)
  with step have db': "db' = snd (Revoke K env t i db)" "\<not> revoke_waits K env held t i db"
    by (auto simp: revoke_statement_def split: session.splits if_splits prod.splits)
  with Revoke_effect [of K env t i db] show ?thesis
    by (auto simp: revoke_waits_def list_ex_iff intro!: spares_update)
qed

lemma call_ok_spared:
  assumes ok: "call_ok K call st db" and sp: "spares held pend db db'"
    and "\<forall>x. holds st = Some x \<longrightarrow> held x" and "\<forall>p. pending st = Some p \<longrightarrow> p \<in> set pend"
  shows "call_ok K call st db'"
proof (cases call rule: call_cases)
  case (rotate t i env)
  have load: "row_loaded K env t i row db'" if "row_loaded K env t i row db" "held (row_id row)" for row
    using that select_owned_spared [OF sp] by (simp add: row_loaded_def)
  have ins: "row_inserted K env t i row new plaintext db'"
    if "row_inserted K env t i row new plaintext db" "new \<in> set pend" for row new plaintext
  proof -
    have "acceptable K r db' \<and> new = stored_row K r" if "acceptable K r db \<and> new = stored_row K r" for r
      using that acceptable_spared [OF sp, of K r new] \<open>new \<in> set pend\<close>
      by (simp add: collide_def stored_row_def)
    with that(1) show ?thesis
      unfolding row_inserted_def insert_rotated_iff by (simp add: acceptable_update) blast
  qed
  from rotate assms load ins show ?thesis by (cases st) auto
qed (use assms in auto)

lemmas statement_defs = resolve_statement_def create_statement_def revoke_statement_def rotate_statement_def

lemma call_statement_locks:
  assumes "call_ok K call st db" and "call_statement K call held pend st db = Some (st', db')" and "holds st' = Some x"
  shows "holds st = Some x \<or> \<not> held x"
  using assms
  by (cases call rule: call_cases; cases st)
     (auto simp: statement_defs Let_def split: sum.splits option.splits if_splits prod.splits)

lemma call_statement_inserts:
  assumes "call_ok K call st db" and "call_statement K call held pend st db = Some (st', db')"
    and "pending st' = Some p" and "q \<in> set pend"
  shows "\<not> collide q p"
  using assms
  by (cases call rule: call_cases; cases st)
     (auto simp: statement_defs Let_def query_Inr insert_row_last insert_waits_def list_ex_iff
       split: sum.splits option.splits if_splits prod.splits)

lemma call_statement_silent:
  assumes "call_ok K call st db" and "call_statement K call held pend st db = Some (st', db')"
    and "decided st' = None \<or> decided st \<noteq> None"
  shows "decided st' = decided st \<and> key_view db' = key_view db"
  using assms
  by (cases call rule: call_cases; cases st)
     (auto simp: statement_defs Let_def exec_def key_view_def update_rows_def
       split: sum.splits option.splits if_splits prod.splits fault.splits)

lemma call_statement_left:
  assumes "call_ok K call st db" and "call_statement K call held pend st db = Some (st', db')"
  shows "statements_left st' < statements_left st"
  using assms
  by (cases call rule: call_cases; cases st)
     (auto simp: statement_defs Let_def split: sum.splits option.splits if_splits prod.splits)

lemma insert_waits_Nil [simp]: "\<not> insert_waits K [] r db"
  by (simp add: insert_waits_def)

lemma call_statement_writer:
  "call_ok K call st db \<Longrightarrow> pending st \<noteq> None \<Longrightarrow> call_statement K call held pend st db \<noteq> None"
  by (cases call rule: call_cases; cases st)
     (auto simp: statement_defs Let_def split: sum.splits option.splits if_splits prod.splits)

lemma call_statement_holder:
  "call_ok K call st db \<Longrightarrow> holds st \<noteq> None \<Longrightarrow> call_statement K call held [] st db \<noteq> None"
  by (cases call rule: call_cases; cases st)
     (auto simp: statement_defs Let_def split: sum.splits option.splits if_splits prod.splits)

lemma call_statement_free:
  "call_ok K call st db \<Longrightarrow> \<forall>r. st \<noteq> Returned r \<Longrightarrow> \<forall>x. \<not> held x \<Longrightarrow>
   call_statement K call held [] st db \<noteq> None"
  by (cases call rule: call_cases; cases st)
     (auto simp: statement_defs Let_def create_waits_def revoke_waits_def list_ex_iff
       split: sum.splits option.splits if_splits prod.splits)

lemma resolve_decides:
  assumes "resolve_statement K env held k Called db = Some (st', db')" and "decided st' = Some r"
  shows "r = Identified (fst (Resolve K env k db)) \<and> db' = db"
  using assms
  by (auto simp: resolve_statement_def Resolve_def Let_def
      split: sum.splits option.splits if_splits prod.splits)

lemma rotate_decides:
  assumes ok: "call_ok K (CallRotate t i, env) st db"
    and step: "rotate_statement K env held pend t i st db = Some (st', db')" and r: "decided st' = Some r"
  shows "r = Rotated (fst (Rotate K env t i db)) \<and> db' = snd (Rotate K env t i db)"
proof (cases st)
  case (Inserted row new plaintext)
  from ok obtain hash prefix where load: "pg_fault env 0 = NoFault" "pg_fault env 1 = NoFault"
      "pg_fault env 2 = NoFault" "pg_fault env 3 = NoFault"
      "select_owned K t i db = Inr (Some row)" "row_revoked_at row = None"
    and gen: "generateAPIKey (kl_sha256 K) (pg_rand env) = Inr (plaintext, hash, prefix)"
    and ins: "insert_row K (rotated_row env t row hash prefix) (revoke_by_id K env i db) =
          Inr (commit_rotation K env i new db)"
    using Inserted by (auto simp: row_loaded_def row_inserted_def)
  from ins have "new = stored_row K (rotated_row env t row hash prefix)"
    by (simp add: insert_rotated_iff)
  then have new: "row_id new = pg_new_id env" "row_key_prefix new = prefix" "row_created_at new = pg_now env"
    by (simp_all add: stored_row_def rotated_row_def)
  show ?thesis
    using step r load gen ins new unfolding Inserted rotated_row_def
    by (auto simp: rotate_statement_def Rotate_def split: prod.splits sum.splits)
next
  case (Loaded row)
  with ok step r show ?thesis
    by (cases "pg_fault env 2") (auto simp: rotate_statement_def Rotate_def row_loaded_def query_def)
qed (use ok step r in \<open>auto simp: rotate_statement_def Rotate_def row_loaded_def rotated_row_def query_Inr Let_def
    split: sum.splits option.splits if_splits prod.splits\<close>)

lemma call_statement_decides:
  assumes "call_ok K call st db" and "call_statement K call held pend st db = Some (st', db')"
    and "decided st = None" and "decided st' = Some r"
  shows "fst (perform K call db) = r \<and> key_view (snd (perform K call db)) = key_view db'"
proof (cases call rule: call_cases)
  case (resolve k env)
  with assms have "st = Called" by (cases st) auto
  with assms resolve resolve_decides [of K env held k db st' db' r] Resolve_view(2) [of K env k db]
  show ?thesis by (auto simp: split_beta)
next
  case (rotate t i env)
  with assms rotate_decides [of K t i env st db held pend st' db' r] show ?thesis
    by (auto simp: split_beta)
next
  case (create spec env)
  with assms show ?thesis
    by (auto simp: create_statement_def split: session.splits if_splits prod.splits)
next
  case (revoke t i env)
  with assms show ?thesis
    by (auto simp: revoke_statement_def split: session.splits if_splits prod.splits)
qed

lemma call_ok_Called [simp]: "call_ok K call Called db"
  by (cases call rule: call_cases) simp_all

interpretation store: sessions "\<lambda>i. call_statement K (calls i)" "\<lambda>i. perform K (calls i)" "\<lambda>i. call_ok K (calls i)"
  for K :: KeyLib and calls :: "nat \<Rightarrow> call \<times> PgEnv"
  by unfold_locales
     (simp, rule perform_view, assumption, rule call_statement_ok, assumption+,
      rule call_statement_spares, assumption+, rule call_ok_spared, assumption+,
      rule call_statement_locks, assumption+, rule call_statement_inserts, assumption+,
      rule call_statement_decides, assumption+, rule call_statement_silent, assumption+,
      rule call_statement_free, assumption+, rule call_statement_holder, assumption+,
      rule call_statement_writer, assumption+, rule call_statement_left, assumption+)

section \<open>Concurrent calls of the store\<close>

lemma store_calls_eq: "store_calls K calls = (\<lambda>i. call_statement K (calls ! i))"
  by (simp add: fun_eq_iff store_calls_def)

lemma pg_run_trans: "pg_run stmt n s' s'' \<Longrightarrow> pg_run stmt m s s' \<Longrightarrow> \<exists>k. pg_run stmt k s s''"
  by (induction rule: pg_run.induct) (blast intro: pg_run.intros)+

lemma pg_schedule_run: "\<exists>n. pg_run stmt n s (pg_schedule stmt is s)"
proof (induction "is" arbitrary: s)
  case Nil
  show ?case using pg_none [of stmt s] by auto
next
  case (Cons i "is")
  show ?case
  proof (cases "advance stmt i s")
    case (Some s')
    with Cons [of s'] pg_run_trans [OF _ pg_more [OF pg_none Some]] show ?thesis by simp blast
  qed (simp add: Cons)
qed

lemma store_linearized:
  assumes "pg_run (store_calls K calls) m (calls_begin (length calls) db) s"
    and "pg_run (store_calls K calls) m' s s'"
  shows "\<exists>order more. explains (\<lambda>i. perform K (calls ! i)) db order s \<and>
    explains (\<lambda>i. perform K (calls ! i)) db (order @ more) s'"
proof -
  from store.run_explained [OF assms(1) [unfolded store_calls_eq] store.consistent_begin store.explains_begin]
  obtain order where "consistent (\<lambda>i. call_ok K (calls ! i)) s"
    and order: "explains (\<lambda>i. perform K (calls ! i)) db order s" by auto
  from store.run_explained [OF assms(2) [unfolded store_calls_eq] this] order show ?thesis by blast
qed

lemma store_explained:
  assumes "pg_run (store_calls K calls) m (calls_begin (length calls) db) s"
  shows "\<exists>order. explains (\<lambda>i. perform K (calls ! i)) db order s"
  using store_linearized [OF assms pg_none] by blast

lemma store_progress:
  assumes "pg_run (store_calls K calls) m (calls_begin (length calls) db) s"
  shows "m \<le> 5 * length calls" and "all_returned s \<or> (\<exists>i s'. advance (store_calls K calls) i s = Some s')"
proof -
  note inv = store.run_left [OF assms [unfolded store_calls_eq] store.consistent_begin]
  from inv show "m \<le> 5 * length calls" by (simp add: calls_begin_def sum_list_replicate)
  from inv store.some_advance [of K "\<lambda>i. calls ! i" s]
  show "all_returned s \<or> (\<exists>i s'. advance (store_calls K calls) i s = Some s')"
    unfolding store_calls_eq by blast
qed

subsection \<open>One winner\<close>

text \<open>The key that a successful call takes out of use.\<close>

fun retires :: "KeyLib \<Rightarrow> call \<times> PgEnv \<Rightarrow> reply \<Rightarrow> string option" where
  "retires K (CallRotate t i, env) (Rotated (Inr k)) = kl_uuid K i"
| "retires K (CallRevoke t i, env) (Revoked None) = kl_uuid K i"
| "retires K call r = None"

lemma perform_step: "store_step K db (snd (perform K call db))"
  by (cases call rule: call_cases) (auto simp: split_beta intro: store_step.intros)

lemma in_turn_ok:
  "db_ok db \<Longrightarrow> db_ok (snd (in_turn (\<lambda>i. perform K (calls ! i)) order db)) \<and>
   evolves db (snd (in_turn (\<lambda>i. perform K (calls ! i)) order db))"
proof (induction order arbitrary: db)
  case (Cons i order)
  from store_step_ok [OF perform_step Cons.prems, of K "calls ! i"] Cons.IH [of "snd (perform K (calls ! i) db)"]
  show ?case by (auto simp: split_beta intro: evolves_trans)
qed simp

lemma in_turn_member:
  assumes "db_ok db" and "(i, r) \<in> set (fst (in_turn (\<lambda>i. perform K (calls ! i)) order db))"
  shows "\<exists>d. r = fst (perform K (calls ! i) d) \<and> db_ok d \<and> evolves db d"
  using assms
proof (induction order arbitrary: db)
  case (Cons k order)
  let ?db = "snd (perform K (calls ! k) db)"
  have ok: "db_ok ?db" "evolves db ?db" using store_step_ok [OF perform_step Cons.prems(1)] by blast+
  from Cons.prems(2) consider "i = k" "r = fst (perform K (calls ! k) db)"
    | "(i, r) \<in> set (fst (in_turn (\<lambda>i. perform K (calls ! i)) order ?db))" by (auto simp: split_beta)
  then show ?case
  proof cases
    case 1
    with Cons.prems(1) show ?thesis using evolves_refl by blast
  next
    case 2
    with Cons.IH [OF ok(1)] ok(2) show ?thesis by (blast intro: evolves_trans)
  qed
qed simp

definition key_live :: "string \<Rightarrow> Db \<Rightarrow> bool" where
  "key_live x db \<longleftrightarrow> (\<exists>r \<in> set (db_api_keys db). row_id r = x \<and> live r)"

lemma retires_live:
  assumes ok: "db_ok db" and "retires K call (fst (perform K call db)) = Some x"
  shows "key_live x db \<and> (\<exists>r \<in> set (db_api_keys (snd (perform K call db))). row_id r = x \<and> \<not> live r)"
proof (cases call rule: call_cases)
  case (rotate t i env)
  with assms(2) obtain key plain db' where run: "Rotate K env t i db = (Inr (key, plain), db')"
    and x: "kl_uuid K i = Some x"
    by (cases "Rotate K env t i db"; cases "fst (Rotate K env t i db)") auto
  from run obtain row where row: "select_owned K t i db = Inr (Some row)" "row_revoked_at row = None"
    by (auto simp: Rotate_def query_Inr split: sum.splits option.splits if_splits prod.splits)
  then have mem: "row \<in> set (db_api_keys db)" "row_id row = x"
    using x by (auto simp: select_owned_def find_Some_iff split: option.splits)
  with x have "kl_uuid K i = Some (row_id row)" by simp
  from ok run mem(1) this obtain n where "db_api_keys db' = map (\<lambda>y. if row_id y = row_id row
        then y\<lparr>row_revoked_at := Some (pg_now env)\<rparr> else y) (db_api_keys db) @ [n]"
    by (rule Rotate_rows)
  with mem have "row\<lparr>row_revoked_at := Some (pg_now env)\<rparr> \<in> set (db_api_keys db')" by force
  then have "\<exists>r \<in> set (db_api_keys db'). row_id r = x \<and> \<not> live r"
    by (rule rev_bexI) (simp add: mem(2) live_def)
  with rotate run row(2) mem show ?thesis by (auto simp: key_live_def live_def)
next
  case (revoke t i env)
  with assms(2) obtain db' where run: "Revoke K env t i db = (None, db')" and x: "kl_uuid K i = Some x"
    by (cases "Revoke K env t i db"; cases "fst (Revoke K env t i db)") auto
  from run obtain row where row: "row \<in> set (db_api_keys db)" "row_id row = x" "live row"
    by (rule Revoke_NoneD) (use x in \<open>auto simp: revoke_where_def live_def\<close>)
  then have "row\<lparr>row_revoked_at := Some (pg_now env)\<rparr> \<in> set (db_api_keys db')"
    using Revoke_revokes [OF ok run] x by simp
  then have "\<exists>r \<in> set (db_api_keys db'). row_id r = x \<and> \<not> live r"
    by (rule rev_bexI) (simp add: row(2) live_def)
  with row revoke run show ?thesis by (auto simp: key_live_def)
qed (use assms(2) in \<open>auto split: prod.splits\<close>)

lemma not_live_stays:
  assumes "db_ok db'" and "evolves db db'" and "r \<in> set (db_api_keys db)" and "\<not> live r"
  shows "\<not> key_live (row_id r) db'"
proof -
  from assms(2,3) obtain r' where "r' \<in> set (db_api_keys db')" "row_evolves r r'"
    by (rule evolves_member)
  then have "row_id r' = row_id r" "\<not> live r'"
    using assms(4) row_evolves_fields(1) unfolding live_def by (blast, metis row_evolves_def)
  with \<open>r' \<in> set (db_api_keys db')\<close> assms(1) show ?thesis
    unfolding key_live_def by (metis db_ok_id_unique)
qed

lemma in_turn_one_winner:
  assumes "db_ok db" and "(i, r) \<in> set (fst (in_turn (\<lambda>i. perform K (calls ! i)) order db))"
    and "(j, q) \<in> set (fst (in_turn (\<lambda>i. perform K (calls ! i)) order db))"
    and "retires K (calls ! i) r = Some x" and "retires K (calls ! j) q = Some x"
  shows "i = j"
  using assms
proof (induction order arbitrary: db i r j q)
  case (Cons k order)
  let ?db = "snd (perform K (calls ! k) db)"
  have ok: "db_ok ?db" using store_step_ok [OF perform_step Cons.prems(1)] by blast
  have no_more: False if "retires K (calls ! k) (fst (perform K (calls ! k) db)) = Some x"
      "(l, p) \<in> set (fst (in_turn (\<lambda>i. perform K (calls ! i)) order ?db))" "retires K (calls ! l) p = Some x" for l p
  proof -
    from retires_live [OF Cons.prems(1) that(1)] obtain y
      where y: "y \<in> set (db_api_keys ?db)" "row_id y = x" "\<not> live y" by blast
    from that(2) obtain d where "p = fst (perform K (calls ! l) d)" "db_ok d" "evolves ?db d"
      using in_turn_member [OF ok] by blast
    with retires_live [of d K "calls ! l" x] that(3) not_live_stays [OF _ _ y(1,3)] y(2)
    show False by auto
  qed
  from Cons.prems(2-) Cons.IH [OF ok] no_more show ?case by (auto simp: split_beta) blast+
qed simp

lemma store_one_winner:
  assumes "db_ok db" and "pg_run (store_calls K calls) m (calls_begin (length calls) db) s"
    and "i < length calls" and "j < length calls"
    and "ps_sessions s ! i = Returned r" and "ps_sessions s ! j = Returned q"
    and "retires K (calls ! i) r = Some x" and "retires K (calls ! j) q = Some x"
  shows "i = j"
proof -
  from store_explained [OF assms(2)] obtain order
    where order: "explains (\<lambda>i. perform K (calls ! i)) db order s" by blast
  have len: "length (ps_sessions s) = length calls"
    using store.sessions_kept [OF assms(2) [unfolded store_calls_eq]] by (simp add: calls_begin_def)
  have "(k, p) \<in> set (fst (in_turn (\<lambda>i. perform K (calls ! i)) order db))"
    if "k < length calls" "ps_sessions s ! k = Returned p" for k p
  proof -
    have "k \<in> set order" using order that len by (simp add: explains_def)
    then obtain p' where p': "(k, p') \<in> set (fst (in_turn (\<lambda>i. perform K (calls ! i)) order db))"
      by (blast dest: in_turn_replied)
    with order that have "p' = p" by (auto simp: explains_def)
    with p' show ?thesis by simp
  qed
  from in_turn_one_winner [OF assms(1) this [OF assms(3,5)] this [OF assms(4,6)] assms(7,8)] show ?thesis .
qed

subsection \<open>Rotation never leaves a gap\<close>

abbreviation live_keys :: "Db \<Rightarrow> nat" where
  "live_keys db \<equiv> length (filter live (db_api_keys db))"

lemma key_view_live: "key_view db = key_view db' \<Longrightarrow> live_keys db = live_keys db'"
proof -
  have "live_keys db = length (filter live (snd (key_view db)))" for db
    by (simp add: key_view_def filter_map comp_def live_def [abs_def])
  then show "key_view db = key_view db' \<Longrightarrow> live_keys db = live_keys db'" by simp
qed

lemma Rotate_live_keys:
  assumes ok: "db_ok db"
  shows "live_keys (snd (Rotate K env t i db)) = live_keys db"
proof (cases "snd (Rotate K env t i db) = db")
  case False
  with Rotate_db [of K env t i db] obtain row r where row: "select_owned K t i db = Inr (Some row)"
      "row_revoked_at row = None" and r: "row_revoked_at r = None"
    and ins: "insert_row K r (revoke_by_id K env i db) = Inr (snd (Rotate K env t i db))" by blast
  from row(1) have mem: "row \<in> set (db_api_keys db)" and "kl_uuid K i = Some (row_id row)"
    by (auto simp: select_owned_def find_Some_iff split: option.splits)
  then have "Suc (live_keys (revoke_by_id K env i db)) = live_keys db"
    using filter_live_revoke [OF _ mem, of "pg_now env"] ok row(2) by (simp add: db_ok_def live_def)
  with ins r show ?thesis by (simp add: insert_row_iff live_def stored_row_def)
qed simp

lemma in_turn_live_keys:
  assumes "db_ok db" and "\<And>i. i \<in> set order \<Longrightarrow> \<exists>env k t x. calls ! i = (CallResolve k, env) \<or> calls ! i = (CallRotate t x, env)"
  shows "live_keys (snd (in_turn (\<lambda>i. perform K (calls ! i)) order db)) = live_keys db"
  using assms
proof (induction order arbitrary: db)
  case (Cons i order)
  let ?db = "snd (perform K (calls ! i) db)"
  have "live_keys ?db = live_keys db"
    using Cons.prems(2) [of i] Rotate_live_keys [OF Cons.prems(1)] key_view_live [OF Resolve_view(2)]
    by (auto simp: split_beta)
  moreover have "live_keys (snd (in_turn (\<lambda>i. perform K (calls ! i)) order ?db)) = live_keys ?db"
    using store_step_ok [OF perform_step Cons.prems(1)] Cons.prems(2) by (intro Cons.IH) auto
  ultimately show ?case by (simp add: split_beta)
qed simp

lemma store_live_keys:
  assumes "db_ok db" and "pg_run (store_calls K calls) m (calls_begin (length calls) db) s"
    and "\<forall>c \<in> set calls. \<exists>env k t x. c = (CallResolve k, env) \<or> c = (CallRotate t x, env)"
  shows "live_keys (ps_db s) = live_keys db"
proof -
  from store_explained [OF assms(2)] obtain order
    where order: "explains (\<lambda>i. perform K (calls ! i)) db order s" by blast
  have "length (ps_sessions s) = length calls"
    using store.sessions_kept [OF assms(2) [unfolded store_calls_eq]] by (simp add: calls_begin_def)
  with order have "i < length calls" if "i \<in> set order" for i using that by (simp add: explains_def)
  with assms(3) have "live_keys (snd (in_turn (\<lambda>i. perform K (calls ! i)) order db)) = live_keys db"
    by (intro in_turn_live_keys [OF assms(1)]) (metis nth_mem)
  with order key_view_live show ?thesis unfolding explains_def by metis
qed

subsection \<open>A retired key is refused from then on\<close>

lemma in_turn_split:
  "fst (in_turn whole (xs @ ys) db) = fst (in_turn whole xs db) @ fst (in_turn whole ys (snd (in_turn whole xs db)))"
  by (induction xs arbitrary: db) (auto simp: split_beta)

lemma in_turn_retired:
  assumes "db_ok db" and "(i, r) \<in> set (fst (in_turn (\<lambda>i. perform K (calls ! i)) order db))"
    and "retires K (calls ! i) r = Some x"
  shows "\<exists>y \<in> set (db_api_keys (snd (in_turn (\<lambda>i. perform K (calls ! i)) order db))). row_id y = x \<and> \<not> live y"
  using assms
proof (induction order arbitrary: db)
  case (Cons k order)
  let ?db = "snd (perform K (calls ! k) db)"
  have ok: "db_ok ?db" using store_step_ok [OF perform_step Cons.prems(1)] by blast
  show ?case
  proof (cases "(i, r) \<in> set (fst (in_turn (\<lambda>i. perform K (calls ! i)) order ?db))")
    case True
    with Cons.IH [OF ok True] Cons.prems(3) show ?thesis by (simp add: split_beta)
  next
    case False
    with Cons.prems(2,3) have "retires K (calls ! k) (fst (perform K (calls ! k) db)) = Some x"
      by (auto simp: split_beta)
    from retires_live [OF Cons.prems(1) this] obtain y
      where y: "y \<in> set (db_api_keys ?db)" "row_id y = x" "\<not> live y" by blast
    from evolves_member [OF conjunct2 [OF in_turn_ok [OF ok]] y(1)] obtain y'
      where "y' \<in> set (db_api_keys (snd (in_turn (\<lambda>i. perform K (calls ! i)) order ?db)))" "row_evolves y y'"
      by blast
    moreover from this y(2,3) have "row_id y' = x" "\<not> live y'"
      using row_evolves_fields(1) unfolding live_def by (blast, metis row_evolves_def)
    ultimately show ?thesis by (auto simp: split_beta)
  qed
qed simp

lemma store_retired_refused:
  assumes ok: "db_ok db" and run: "pg_run (store_calls K calls) m (calls_begin (length calls) db) s"
    and run': "pg_run (store_calls K calls) m' s s'"
    and i: "i < length calls" "ps_sessions s ! i = Returned r" "retires K (calls ! i) r = Some (row_id row)"
    and row: "row \<in> set (db_api_keys db)" "row_key_hash row = hashAPIKey (kl_sha256 K) k"
    and j: "j < length calls" "calls ! j = (CallResolve k, env)" "ps_sessions s ! j = Called"
    and q: "ps_sessions s' ! j = Returned q"
  shows "\<exists>err. q = Identified (Inl err)"
proof -
  let ?w = "\<lambda>i. perform K (calls ! i)"
  from store_linearized [OF run run'] obtain order more
    where ex: "explains ?w db order s" and ex': "explains ?w db (order @ more) s'" by blast
  have len: "length (ps_sessions s) = length calls" "length (ps_sessions s') = length calls"
    using store.sessions_kept [OF run [unfolded store_calls_eq]] store.sessions_kept [OF run' [unfolded store_calls_eq]]
    by (simp_all add: calls_begin_def)
  have "i \<in> set order" "j \<notin> set order" "j \<in> set (order @ more)"
    using i j q len by (simp_all add: explains_settled [OF ex] explains_settled [OF ex'] del: set_append)
  then obtain p p' where p: "(i, p) \<in> set (fst (in_turn ?w order db))"
    and p': "(j, p') \<in> set (fst (in_turn ?w more (snd (in_turn ?w order db))))"
    using in_turn_replied [of i order ?w db] in_turn_replied [of j more ?w "snd (in_turn ?w order db)"] by auto
  from p ex i have "retires K (calls ! i) p = Some (row_id row)" by (auto simp: explains_def)
  from in_turn_retired [OF ok p this] obtain y
    where y: "y \<in> set (db_api_keys (snd (in_turn ?w order db)))" "row_id y = row_id row" "\<not> live y" by blast
  have d1: "db_ok (snd (in_turn ?w order db))" "evolves db (snd (in_turn ?w order db))"
    using in_turn_ok [OF ok] by blast+
  from evolves_member [OF d1(2) row(1)] obtain row'
    where row': "row' \<in> set (db_api_keys (snd (in_turn ?w order db)))" "row_evolves row row'" by blast
  have "y = row'" using db_ok_id_unique [OF d1(1) y(1) row'(1)] y(2) row_evolves_fields(1) [OF row'(2)] by simp
  from in_turn_member [OF d1(1) p'] obtain d
    where d: "p' = fst (perform K (calls ! j) d)" "db_ok d" "evolves (snd (in_turn ?w order db)) d" by blast
  from evolves_member [OF d(3) y(1)] obtain z where z: "z \<in> set (db_api_keys d)" "row_evolves y z" by blast
  have "row_key_hash z = hashAPIKey (kl_sha256 K) k"
    using row_evolves_fields(3) [OF z(2)] row_evolves_fields(3) [OF row'(2)] row(2) \<open>y = row'\<close> by simp
  moreover have "row_revoked_at z \<noteq> None" using z(2) y(3) unfolding live_def by (metis row_evolves_def)
  ultimately have "\<not> is_ok (fst (Resolve K env k d))" by (rule Resolve_revoked [OF d(2) z(1)])
  moreover have "q = p'" using explains_reply [OF ex', of j p'] p' q by (simp add: in_turn_split)
  ultimately show ?thesis
    using d(1) j(2) by (cases "fst (Resolve K env k d)") (auto simp: split_beta)
qed

end
