(* ===== verification/Concurrency_Properties.thy ===== *)
theory Concurrency_Properties
  imports Samples Key_Sessions
begin

text \<open>
  Properties of concurrent calls of the partner-key store, with their witnesses: what the row
  lock and the transaction of \<open>Rotate\<close> buy.
\<close>

section \<open>Linearisation\<close>

text \<open>C7: Concurrent calls of the key store behave as if each ran at once: however the SQL statements
  of any number of calls interleave, at every moment there is an order of the calls whose replies
  are settled that, run one whole call after the other, gives these replies and the committed
  table (but for last-used stamps); and as the run goes on the order only grows at its end, so
  that a call that returned before another began comes first.\<close>

theorem concurrent_calls_linearize:
  assumes "pg_run (store_calls K calls) m (calls_begin (length calls) db) s"
    and "pg_run (store_calls K calls) m' s s'"
  shows "\<exists>order more.
    explains (\<lambda>i. perform K (calls ! i)) db order s \<and>
    explains (\<lambda>i. perform K (calls ! i)) db (order @ more) s'"
  using assms by (rule store_linearized)

text \<open>Two rotations of one key and a request that presents its secret.\<close>

definition racing_calls :: "(call \<times> PgEnv) list" where
  "racing_calls =
     [(CallRotate ''t1'' ''k1'', sample_pg),
      (CallRotate ''t1'' ''k1'', sample_pg\<lparr>pg_new_id := ''k3'', pg_rand := Inr (replicate 32 8)\<rparr>),
      (CallResolve ''cp_01'', sample_pg),
      (CallResolve ''cp_01'', sample_pg)]"

abbreviation racing :: "nat list \<Rightarrow> pg_state" where
  "racing is \<equiv> pg_schedule (store_calls sample_keylib racing_calls) is
     (calls_begin (length racing_calls) (sample_db RoleAdmin))"

lemma racing_run:
  "\<exists>m. pg_run (store_calls sample_keylib racing_calls) m
     (calls_begin (length racing_calls) (sample_db RoleAdmin)) (racing is)"
  by (rule pg_schedule_run)

text \<open>Both begin, the first locks the row, the second waits, the request reads before the commit.\<close>

abbreviation first_commits :: "nat list" where
  "first_commits \<equiv> [0, 1, 0, 1, 2, 0, 0, 2, 0]"

theorem concurrent_calls_linearize_witness:
  "\<exists>order. explains (\<lambda>i. perform sample_keylib (racing_calls ! i)) (sample_db RoleAdmin) order
      (racing first_commits) \<and> set order = {0, 2}"
proof -
  obtain m where run: "pg_run (store_calls sample_keylib racing_calls) m
      (calls_begin (length racing_calls) (sample_db RoleAdmin)) (racing first_commits)"
    using racing_run by blast
  from concurrent_calls_linearize [OF run pg_none] obtain order
    where ex: "explains (\<lambda>i. perform sample_keylib (racing_calls ! i)) (sample_db RoleAdmin) order
      (racing first_commits)" by blast
  have "set order = set (filter (\<lambda>i. decided (ps_sessions (racing first_commits) ! i) \<noteq> None)
      [0..<length (ps_sessions (racing first_commits))])"
    using explains_settled [OF ex] by auto
  also have "filter (\<lambda>i. decided (ps_sessions (racing first_commits) ! i) \<noteq> None)
      [0..<length (ps_sessions (racing first_commits))] = [0, 2]"
    by code_simp
  finally have "set order = {0, 2}" by simp
  with ex show ?thesis by auto
qed

text \<open>C17: Nothing deadlocks and everything ends: a run of concurrent calls has at most five statements
  per call, and as long as some call has not returned, some call can issue its next statement.\<close>

theorem concurrent_calls_finish:
  assumes "pg_run (store_calls K calls) m (calls_begin (length calls) db) s"
  shows "m \<le> 5 * length calls \<and>
    (all_returned s \<or> (\<exists>i s'. advance (store_calls K calls) i s = Some s'))"
  using store_progress [OF assms] by simp

theorem concurrent_calls_finish_witness:
  "\<not> all_returned (racing [0, 1, 0]) \<and>
   (\<exists>i s'. advance (store_calls sample_keylib racing_calls) i (racing [0, 1, 0]) = Some s') \<and>
   advance (store_calls sample_keylib racing_calls) 1 (racing [0, 1, 0]) = None"
proof -
  obtain m where run: "pg_run (store_calls sample_keylib racing_calls) m
      (calls_begin (length racing_calls) (sample_db RoleAdmin)) (racing [0, 1, 0])"
    using racing_run by blast
  have "\<not> all_returned (racing [0, 1, 0])" by code_simp
  moreover have "Option.is_none (advance (store_calls sample_keylib racing_calls) 1 (racing [0, 1, 0]))"
    by code_simp
  ultimately show ?thesis
    using concurrent_calls_finish [OF run] by (simp add: Option.is_none_def)
qed

section \<open>Rotation and revocation\<close>

text \<open>C14: A key is retired once: of any number of concurrent rotations and revocations of one key, at
  most one succeeds.\<close>

theorem one_winner_per_key:
  assumes "db_ok db" and "pg_run (store_calls K calls) m (calls_begin (length calls) db) s"
    and "i < length calls" and "j < length calls" and "i \<noteq> j"
    and "ps_sessions s ! i = Returned r" and "retires K (calls ! i) r = Some x"
    and "ps_sessions s ! j = Returned q"
  shows "retires K (calls ! j) q \<noteq> Some x"
  using store_one_winner [OF assms(1-4,6,8,7)] assms(5) by blast

theorem one_winner_per_key_witness:
  "\<exists>q. ps_sessions (racing (first_commits @ [1])) ! 1 = Returned q \<and>
     retires sample_keylib (racing_calls ! 1) q \<noteq> Some ''k1''"
proof -
  let ?s = "racing (first_commits @ [1])"
  obtain m where run: "pg_run (store_calls sample_keylib racing_calls) m
      (calls_begin (length racing_calls) (sample_db RoleAdmin)) ?s"
    using racing_run by blast
  have "case (ps_sessions ?s ! 0, ps_sessions ?s ! 1) of
      (Returned r, Returned q) \<Rightarrow> retires sample_keylib (racing_calls ! 0) r = Some ''k1'' | _ \<Rightarrow> False"
    by code_simp
  then obtain r q where "ps_sessions ?s ! 0 = Returned r" "ps_sessions ?s ! 1 = Returned q"
      "retires sample_keylib (racing_calls ! 0) r = Some ''k1''"
    by (auto split: session.splits)
  with one_winner_per_key [OF sample_db_ok run, of 0 1 r "''k1''" q] show ?thesis
    by (simp add: racing_calls_def)
qed

text \<open>C15: Rotation leaves no gap: while any number of rotations run beside requests that present keys,
  faults included, every committed table has exactly as many live keys as at the start; there
  is never a window with the old and the new key both live, or with neither.\<close>

theorem rotation_leaves_no_gap:
  assumes "db_ok db" and "pg_run (store_calls K calls) m (calls_begin (length calls) db) s"
    and "\<forall>c \<in> set calls. \<exists>env k t x. c = (CallResolve k, env) \<or> c = (CallRotate t x, env)"
  shows "length (filter live (db_api_keys (ps_db s))) = length (filter live (db_api_keys db))"
  using assms by (rule store_live_keys)

theorem rotation_leaves_no_gap_witness:
  "length (db_api_keys (ps_db (racing first_commits))) = 2 \<and>
   length (filter live (db_api_keys (ps_db (racing first_commits)))) = 1"
proof -
  obtain m where run: "pg_run (store_calls sample_keylib racing_calls) m
      (calls_begin (length racing_calls) (sample_db RoleAdmin)) (racing first_commits)"
    using racing_run by blast
  have "length (db_api_keys (ps_db (racing first_commits))) = 2" by code_simp
  with rotation_leaves_no_gap [OF sample_db_ok run] show ?thesis
    by (simp add: racing_calls_def sample_db_def sample_row_def live_def)
qed

text \<open>C16: A retired key is refused at once: when a rotation or revocation has returned success, every
  lookup of the old secret that begins afterwards fails, whatever else is in flight.\<close>

theorem retired_key_refused:
  assumes "db_ok db" and "pg_run (store_calls K calls) m (calls_begin (length calls) db) s"
    and "pg_run (store_calls K calls) m' s s'"
    and "i < length calls" and "ps_sessions s ! i = Returned r" and "retires K (calls ! i) r = Some (row_id row)"
    and "row \<in> set (db_api_keys db)" and "row_key_hash row = hashAPIKey (kl_sha256 K) k"
    and "j < length calls" and "calls ! j = (CallResolve k, env)" and "ps_sessions s ! j = Called"
    and "ps_sessions s' ! j = Returned q"
  shows "\<exists>err. q = Identified (Inl err)"
  using assms by (rule store_retired_refused)

theorem retired_key_refused_witness:
  "\<exists>err. ps_sessions (pg_schedule (store_calls sample_keylib racing_calls) [3] (racing first_commits)) ! 3 =
     Returned (Identified (Inl err))"
proof -
  let ?stmt = "store_calls sample_keylib racing_calls"
  let ?s = "racing first_commits" and ?s' = "pg_schedule (store_calls sample_keylib racing_calls) [3] (racing first_commits)"
  obtain m m' where run: "pg_run ?stmt m (calls_begin (length racing_calls) (sample_db RoleAdmin)) ?s"
    and run': "pg_run ?stmt m' ?s ?s'"
    using racing_run [of first_commits] pg_schedule_run [of ?stmt ?s "[3]"] by blast
  have "case (ps_sessions ?s ! 0, ps_sessions ?s ! 3, ps_sessions ?s' ! 3) of
      (Returned r, Called, Returned q) \<Rightarrow> retires sample_keylib (racing_calls ! 0) r = Some ''k1'' | _ \<Rightarrow> False"
    by code_simp
  then obtain r q where *: "ps_sessions ?s ! 0 = Returned r" "ps_sessions ?s ! 3 = Called" "ps_sessions ?s' ! 3 = Returned q"
      "retires sample_keylib (racing_calls ! 0) r = Some ''k1''"
    by (auto split: session.splits)
  from retired_key_refused [OF sample_db_ok run run' _ *(1), of "sample_row RoleAdmin" "''cp_01''" 3 sample_pg q] *
  show ?thesis
    by (auto simp: racing_calls_def sample_db_def sample_row_def sample_keylib_def)
qed

end
