(* ===== verification/Rate_Fleet.thy ===== *)
theory Rate_Fleet
  imports Rate_Limit
begin

text \<open>
  The rate limit middleware of \<open>internal/gateway/middleware/ratelimit.go\<close> on a fleet of gateway
  instances that share one Redis server and have one in-memory fallback each. The comment on
  \<open>RateLimit\<close> accepts that a tenant on several instances gets a multiple of the limit while Redis
  is down; here that multiple is bounded, for every pattern of failing calls and for clocks that
  disagree by a known skew.
\<close>

section \<open>Definitions\<close>

text \<open>What the requests share, and the admissions: tenant, suffix and the clock reading they were judged by.\<close>

record 'r Fleet =
  fl_Redis :: "'r redis_limiter"
  fl_Mem :: "nat \<Rightarrow> MemoryLimiter"
  fl_Admitted :: "(string \<times> string \<times> int) list"

text \<open>A request: the instance it reaches, what its call of Redis and of the fallback would read.\<close>

record FleetRequest =
  fr_Instance :: nat
  fr_Redis :: "int \<times> string"
  fr_Now :: int
  fr_Ctx :: GinCtx

definition fleet_start :: "'r redis_limiter \<Rightarrow> 'r Fleet" where
  "fleet_start s = \<lparr>fl_Redis = s, fl_Mem = (\<lambda>_. NewMemoryLimiter), fl_Admitted = []\<rparr>"

definition fleet_primary ::
  "int \<times> string \<Rightarrow> string \<Rightarrow> string \<Rightarrow> int \<Rightarrow> int \<Rightarrow> 'r Fleet \<Rightarrow> (bool \<times> string option) \<times> 'r Fleet" where
  "fleet_primary e t x limit window w =
     (case redis_limiter_Allow e t x limit window (fl_Redis w) of (v, s) \<Rightarrow> (v, w\<lparr>fl_Redis := s\<rparr>))"

definition fleet_fallback ::
  "nat \<Rightarrow> int \<Rightarrow> string \<Rightarrow> string \<Rightarrow> int \<Rightarrow> int \<Rightarrow> 'r Fleet \<Rightarrow> (bool \<times> string option) \<times> 'r Fleet" where
  "fleet_fallback k now t x limit window w =
     (case MemoryLimiter_Allow now t x limit window (fl_Mem w k) of
        (v, m) \<Rightarrow> (v, w\<lparr>fl_Mem := (fl_Mem w)(k := m)\<rparr>))"

definition limit_suffix :: "GinCtx \<Rightarrow> string" where
  "limit_suffix c = ''ratelimit:'' @ FullPath c"

text \<open>The rest of the chain, which notes that it ran and by which limiter it was admitted.\<close>

definition fleet_next :: "FleetRequest \<Rightarrow> 'r Fleet handler" where
  "fleet_next q c w =
     (c, (case FromGin c of
            None \<Rightarrow> w
          | Some i \<Rightarrow> w\<lparr>fl_Admitted := fl_Admitted w @ [(id_TenantID i, limit_suffix c,
              if c_Keys c FallbackKey = Some (GBool True) then fr_Now q else fst (fr_Redis q))]\<rparr>))"

definition fleet_serve :: "int \<Rightarrow> int \<Rightarrow> FleetRequest \<Rightarrow> 'r Fleet \<Rightarrow> 'r Fleet" where
  "fleet_serve limit window q w =
     snd (RateLimit (fleet_primary (fr_Redis q)) (fleet_fallback (fr_Instance q) (fr_Now q))
            limit window (\<lambda>_ _ _ _ w. w) (fleet_next q) (fr_Ctx q) w)"

text \<open>
  The environment of a sequence of requests to \<open>n\<close> instances: clock readings in range and out of
  order by at most \<open>d\<close> across the fleet, fresh identifiers for the script's members, fresh gin
  contexts.
\<close>

definition fleet_env :: "nat \<Rightarrow> int \<Rightarrow> int \<Rightarrow> FleetRequest \<Rightarrow> 'r Fleet \<Rightarrow> bool" where
  "fleet_env n d T q w \<longleftrightarrow>
     fr_Instance q < n \<and> clock_ok (fst (fr_Redis q)) \<and> clock_ok (fr_Now q) \<and>
     T - d \<le> fst (fr_Redis q) \<and> max T (fst (fr_Redis q)) - d \<le> fr_Now q \<and>
     c_Keys (fr_Ctx q) FallbackKey = None \<and>
     (case FromGin (fr_Ctx q) of
        None \<Rightarrow> True
      | Some i \<Rightarrow> fresh_member (fr_Redis q) (id_TenantID i) (limit_suffix (fr_Ctx q)) (fl_Redis w))"

fun fleet_ok :: "nat \<Rightarrow> int \<Rightarrow> int \<Rightarrow> int \<Rightarrow> int \<Rightarrow> FleetRequest list \<Rightarrow> 'r Fleet \<Rightarrow> bool" where
  "fleet_ok n d limit window T [] w = True"
| "fleet_ok n d limit window T (q # qs) w =
     (fleet_env n d T q w \<and>
      fleet_ok n d limit window (max (max T (fst (fr_Redis q))) (fr_Now q)) qs (fleet_serve limit window q w))"

subsection \<open>Specification\<close>

definition admitted_clocks :: "string \<Rightarrow> string \<Rightarrow> 'r Fleet \<Rightarrow> int multiset" where
  "admitted_clocks t x w =
     mset (map (\<lambda>(_, _, a). a) (filter (\<lambda>(t', x', _). t' = t \<and> x' = x) (fl_Admitted w)))"

text \<open>Every admission is one of Redis or of one instance, and each of those tracks its own.\<close>

definition fleet_inv ::
  "nat \<Rightarrow> int \<Rightarrow> int \<Rightarrow> int \<Rightarrow> string \<Rightarrow> string \<Rightarrow> int \<Rightarrow> int multiset \<Rightarrow> (nat \<Rightarrow> int multiset) \<Rightarrow>
   'r Fleet \<Rightarrow> bool" where
  "fleet_inv n d W limit t x T R M w \<longleftrightarrow>
     redis_limiter_inv (fl_Redis w) \<and>
     tracks d W limit T R (redis_stamps (fst (fl_Redis w)) t x (snd (fl_Redis w))) \<and>
     (\<forall>k. tracks d W limit T (M k) (memory_stamps t x (fl_Mem w k))) \<and>
     admitted_clocks t x w = R + (\<Sum>k<n. M k)"

section \<open>Lemmas\<close>

lemma tracks_mono: "tracks d W limit T A S \<Longrightarrow> T \<le> T' \<Longrightarrow> tracks d W limit T' A S"
  using in_window_sub [of T W A S T' T]
  by (auto simp: tracks_def in_window_def intro: subset_mset.trans)

lemma sum_bump:
  fixes M :: "nat \<Rightarrow> int multiset"
  assumes "k < n"
  shows "(\<Sum>j<n. (M(k := add_mset a (M k))) j) = add_mset a (\<Sum>j<n. M j)"
  using assms by (simp add: sum.remove [of "{..<n}" k])

lemma size_filter_sum:
  fixes M :: "nat \<Rightarrow> int multiset"
  assumes "\<And>k. size (filter_mset P (M k)) \<le> b"
  shows "size (filter_mset P (\<Sum>k<n. M k)) \<le> n * b"
proof (induction n)
  case 0
  then show ?case by simp
next
  case (Suc n)
  with assms [of n] show ?case by simp
qed

lemma size_admissions:
  "size (filter_mset P (mset (map (\<lambda>(_, _, a). a) (filter (\<lambda>(t', x', _). t' = t \<and> x' = x) as)))) =
   length (filter (\<lambda>(t', x', a). t' = t \<and> x' = x \<and> P a) as)"
  by (induction as) auto

lemma fleet_inv_start:
  "redis_limiter_inv s \<Longrightarrow> fleet_inv n d W limit t x T {#} (\<lambda>_. {#}) (fleet_start s)"
  by (simp add: fleet_inv_def fleet_start_def tracks_empty admitted_clocks_def)

lemma admitted_clocks_snoc:
  "admitted_clocks t x (w\<lparr>fl_Admitted := fl_Admitted w @ [(t', x', a)]\<rparr>) =
     (if t' = t \<and> x' = x then add_mset a (admitted_clocks t x w) else admitted_clocks t x w)"
  by (simp add: admitted_clocks_def)

lemma admitted_clocks_frame:
  "admitted_clocks t x (w\<lparr>fl_Redis := s\<rparr>) = admitted_clocks t x w"
  "admitted_clocks t x (w\<lparr>fl_Mem := m\<rparr>) = admitted_clocks t x w"
  by (simp_all add: admitted_clocks_def)

text \<open>What serving a request does to the fleet, by the outcome of its call of Redis.\<close>

lemma fleet_serve_anonymous: "FromGin (fr_Ctx q) = None \<Longrightarrow> fleet_serve limit window q w = w"
  by (simp add: fleet_serve_def RateLimit_def)

lemma fleet_serve_primary:
  assumes "FromGin (fr_Ctx q) = Some i" and "c_Keys (fr_Ctx q) FallbackKey = None"
    and "redis_limiter_Allow (fr_Redis q) (id_TenantID i) (limit_suffix (fr_Ctx q)) limit window (fl_Redis w)
      = ((b, None), s)"
  shows "fleet_serve limit window q w =
    (if b then w\<lparr>fl_Redis := s, fl_Admitted := fl_Admitted w @
        [(id_TenantID i, limit_suffix (fr_Ctx q), fst (fr_Redis q))]\<rparr>
     else w\<lparr>fl_Redis := s\<rparr>)"
  using assms by (simp add: fleet_serve_def RateLimit_def fleet_primary_def limit_suffix_def fleet_next_def)

lemma fleet_serve_fallback:
  assumes "FromGin (fr_Ctx q) = Some i"
    and "redis_limiter_Allow (fr_Redis q) (id_TenantID i) (limit_suffix (fr_Ctx q)) limit window (fl_Redis w)
      = ((b, Some e), s)"
    and "MemoryLimiter_Allow (fr_Now q) (id_TenantID i) (limit_suffix (fr_Ctx q)) limit window
      (fl_Mem w (fr_Instance q)) = ((b', None), m)"
  shows "fleet_serve limit window q w =
    (if b' then w\<lparr>fl_Redis := s, fl_Mem := (fl_Mem w)(fr_Instance q := m), fl_Admitted := fl_Admitted w @
        [(id_TenantID i, limit_suffix (fr_Ctx q), fr_Now q)]\<rparr>
     else w\<lparr>fl_Redis := s, fl_Mem := (fl_Mem w)(fr_Instance q := m)\<rparr>)"
proof -
  have "FromGin (gin_Set FallbackKey (GBool True) (fr_Ctx q)) = Some i"
    using assms(1) by (simp add: FromGin_def FallbackKey_def GinKey_def)
  with assms show ?thesis
    by (simp add: fleet_serve_def RateLimit_def fleet_primary_def fleet_fallback_def limit_suffix_def
        fleet_next_def)
qed

lemma fleet_inv_later:
  "fleet_inv n d W limit t x T R M w \<Longrightarrow> T \<le> T' \<Longrightarrow> fleet_inv n d W limit t x T' R M w"
  by (auto simp: fleet_inv_def intro: tracks_mono)

text \<open>A request that the fallback judges, after the call of Redis failed.\<close>

lemma fleet_inv_fallback:
  assumes window: "int64_range window" "0 < Milliseconds window" and "0 \<le> d"
    and k: "fr_Instance q < n" and clk: "clock_ok (fr_Now q)" and late: "T - d \<le> fr_Now q"
    and i: "FromGin (fr_Ctx q) = Some i"
    and r: "redis_limiter_Allow (fr_Redis q) (id_TenantID i) (limit_suffix (fr_Ctx q)) limit window (fl_Redis w) =
      ((b, Some err), s)"
    and inv: "fleet_inv n d (Milliseconds window) limit t x T R M (w\<lparr>fl_Redis := s\<rparr>)"
  shows "\<exists>M'. fleet_inv n d (Milliseconds window) limit t x (max T (fr_Now q)) R M' (fleet_serve limit window q w)"
proof -
  let ?W = "Milliseconds window" and ?k = "fr_Instance q" and ?T = "max T (fr_Now q)"
  let ?t = "id_TenantID i" and ?x = "limit_suffix (fr_Ctx q)" and ?w = "fleet_serve limit window q w"
  have tm: "tracks d ?W limit T (M k) (memory_stamps t x (fl_Mem w k))" for k
    using inv by (simp add: fleet_inv_def)
  obtain b' m where f: "MemoryLimiter_Allow (fr_Now q) ?t ?x limit window (fl_Mem w ?k) = ((b', None), m)"
    using MemoryLimiter_Allow_spec(1) [OF clk window(1) refl refl] by (metis prod.collapse)
  define M' where "M' = (if b' \<and> ?t = t \<and> ?x = x then M(?k := add_mset (fr_Now q) (M ?k)) else M)"
  have "tracks d ?W limit ?T
      (if (b' \<and> (None :: string option) = None) \<and> ?t = t \<and> ?x = x then add_mset (fr_Now q) (M ?k) else M ?k)
      (memory_stamps t x m)"
    by (rule memory_limiter.allow_tracks_any [OF TrueI clk TrueI window \<open>0 \<le> d\<close> late f]) (rule tm)
  then have tm': "tracks d ?W limit ?T (M' k) (memory_stamps t x (((fl_Mem w)(?k := m)) k))" for k
    using tracks_mono [OF tm, of ?T k] by (auto simp: M'_def)
  note serve = fleet_serve_fallback [OF i _ f, of b err s]
  have st: "fl_Redis ?w = s" "fl_Mem ?w = (fl_Mem w)(?k := m)" using serve r by simp_all
  have "admitted_clocks t x ?w = R + (\<Sum>k<n. M' k)"
    using serve r inv sum_bump [OF k, of M "fr_Now q"]
    by (auto simp: fleet_inv_def M'_def admitted_clocks_frame
        admitted_clocks_snoc [of t x "w\<lparr>fl_Redis := s, fl_Mem := (fl_Mem w)(?k := m)\<rparr>", simplified])
  moreover have "redis_limiter_inv s" "tracks d ?W limit ?T R (redis_stamps (fst s) t x (snd s))"
    using inv by (auto simp: fleet_inv_def intro: tracks_mono)
  ultimately have "fleet_inv n d ?W limit t x ?T R M' ?w" using tm' unfolding fleet_inv_def st by simp
  then show ?thesis by blast
qed

lemma fleet_inv_step:
  assumes window: "int64_range window" "0 < Milliseconds window" and "0 \<le> d"
    and env: "fleet_env n d T q w"
    and inv: "fleet_inv n d (Milliseconds window) limit t x T R M w"
  shows "\<exists>R' M'. fleet_inv n d (Milliseconds window) limit t x (max (max T (fst (fr_Redis q))) (fr_Now q))
    R' M' (fleet_serve limit window q w)"
proof (cases "FromGin (fr_Ctx q)")
  case None
  then have "fleet_serve limit window q w = w" by (rule fleet_serve_anonymous)
  moreover have "T \<le> max (max T (fst (fr_Redis q))) (fr_Now q)" by simp
  ultimately show ?thesis using fleet_inv_later [OF inv] by metis
next
  case (Some i)
  let ?W = "Milliseconds window" and ?T = "max T (fst (fr_Redis q))"
  let ?t = "id_TenantID i" and ?x = "limit_suffix (fr_Ctx q)"
  have k: "fr_Instance q < n" and clk: "clock_ok (fst (fr_Redis q))" "clock_ok (fr_Now q)"
    and late: "T - d \<le> fst (fr_Redis q)" "?T - d \<le> fr_Now q" and key: "c_Keys (fr_Ctx q) FallbackKey = None"
    and fresh: "fresh_member (fr_Redis q) ?t ?x (fl_Redis w)"
    using env Some by (simp_all add: fleet_env_def)
  have ri: "redis_limiter_inv (fl_Redis w)" and
    tr: "tracks d ?W limit T R (redis_stamps (fst (fl_Redis w)) t x (snd (fl_Redis w)))" and
    tm: "\<And>k. tracks d ?W limit ?T (M k) (memory_stamps t x (fl_Mem w k))" and
    ac: "admitted_clocks t x w = R + (\<Sum>k<n. M k)"
    using inv by (auto simp: fleet_inv_def intro: tracks_mono)
  obtain b e s where r: "redis_limiter_Allow (fr_Redis q) ?t ?x limit window (fl_Redis w) = ((b, e), s)"
    by (metis prod.exhaust)
  have ri': "redis_limiter_inv s"
    using redis_limiter.allow_inv [OF ri clk(1) fresh window(2), of limit] r by simp
  note tr' = redis_limiter.allow_tracks_any [OF ri clk(1) fresh window \<open>0 \<le> d\<close> late(1) r tr]
  show ?thesis
  proof (cases e)
    case None
    let ?R = "if (b \<and> e = None) \<and> ?t = t \<and> ?x = x then add_mset (fst (fr_Redis q)) R else R"
    from None have "fleet_inv n d ?W limit t x ?T ?R M (fleet_serve limit window q w)"
      using fleet_serve_primary [OF Some key, of limit window w b s] r ri' tr' tm ac
      by (auto simp: fleet_inv_def admitted_clocks_frame
          admitted_clocks_snoc [of t x "w\<lparr>fl_Redis := s\<rparr>", simplified])
    then show ?thesis by (blast intro: fleet_inv_later max.cobounded1)
  next
    case e: (Some err)
    with ri' tr' tm ac have "fleet_inv n d ?W limit t x ?T R M (w\<lparr>fl_Redis := s\<rparr>)"
      by (simp add: fleet_inv_def admitted_clocks_frame)
    with fleet_inv_fallback [OF window \<open>0 \<le> d\<close> k clk(2) late(2) Some] r e show ?thesis by blast
  qed
qed

lemma fleet_inv_run:
  assumes "int64_range window" "0 < Milliseconds window" and "0 \<le> d"
    and "fleet_ok n d limit window T qs w"
    and "fleet_inv n d (Milliseconds window) limit t x T R M w"
  shows "\<exists>T' R' M'. fleet_inv n d (Milliseconds window) limit t x T' R' M' (fold (fleet_serve limit window) qs w)"
  using assms(4,5)
proof (induction qs arbitrary: T R M w)
  case Nil
  then show ?case by auto
next
  case (Cons q qs)
  with fleet_inv_step [OF assms(1-3), of n T q w limit t x R M] show ?case
    by (auto simp: fold_Cons)
qed

lemma fleet_inv_bound:
  assumes "fleet_inv n d W limit t x T R M w"
  shows "length (filter (\<lambda>(t', x', a). t' = t \<and> x' = x \<and> y - (W - d) < a \<and> a \<le> y) (fl_Admitted w))
    \<le> (n + 1) * nat limit"
proof -
  let ?P = "\<lambda>a. y - (W - d) < a \<and> a \<le> y"
  have "size (filter_mset ?P R) \<le> nat limit" "\<And>k. size (filter_mset ?P (M k)) \<le> nat limit"
    using assms by (simp_all add: fleet_inv_def tracks_def)
  with size_filter_sum [of ?P M "nat limit" n]
  have "size (filter_mset ?P (R + (\<Sum>k<n. M k))) \<le> (n + 1) * nat limit" by simp
  moreover have "R + (\<Sum>k<n. M k) = admitted_clocks t x w"
    using assms by (simp add: fleet_inv_def)
  ultimately have "size (filter_mset ?P (admitted_clocks t x w)) \<le> (n + 1) * nat limit" by simp
  moreover have "size (filter_mset ?P (admitted_clocks t x w)) =
      length (filter (\<lambda>(t', x', a). t' = t \<and> x' = x \<and> ?P a) (fl_Admitted w))"
    unfolding admitted_clocks_def by (rule size_admissions)
  ultimately show ?thesis by simp
qed

end
