(* ===== verification/Traffic_Properties.thy ===== *)
theory Traffic_Properties
  imports Samples Rate_Fleet
begin

text \<open>
  Properties of rate limiting, of the tenant-scoped Redis keys and of the idempotency
  middleware, with their witnesses.
\<close>

section \<open>Rate limiting\<close>

text \<open>C12: The in-memory limiter never admits more than the limit: for any sequence of calls of any
  tenants on any routes, the admissions of one tenant on one route in a window of the configured
  length, wherever it ends, are at most the limit. The clock is read before the mutex is taken,
  so readings may be out of order; the window is shorter by the disorder \<open>d\<close>, and by nothing when
  the readings are in order (\<open>d = 0\<close>).\<close>

theorem memory_window_bound:
  assumes "int64_range window" and "0 < Milliseconds window" and "0 \<le> d"
    and "\<forall>(now, t', x') \<in> set calls. clock_ok now" and "skew_ok d 0 (map fst calls)"
  shows "length (filter (\<lambda>(now, t', x'). t' = t \<and> x' = x \<and>
        y - (Milliseconds window - d) < now \<and> now \<le> y)
      (fst (run_allow (\<lambda>(now, t', x'). MemoryLimiter_Allow now t' x' limit window) calls NewMemoryLimiter)))
    \<le> nat limit"
proof -
  have "run_ok (\<lambda>(now, t', x'). MemoryLimiter_Allow now t' x' limit window) (\<lambda>(e, t', x') s. True) calls l" for l
    by (induction calls arbitrary: l) auto
  with assms show ?thesis
    by (intro memory_limiter.window_bound_count [where T = 0]) simp_all
qed

text \<open>Six calls of one tenant, the last two with a reading from before the fourth, and one of another.\<close>

definition late_calls :: "(int \<times> string \<times> string) list" where
  "late_calls = [(2, ''t'', ''r''), (2, ''t'', ''r''), (2, ''t'', ''r''), (12, ''t'', ''r''), (11, ''u'', ''r''),
     (11, ''t'', ''r''), (11, ''t'', ''r'')]"

theorem memory_window_bound_witness:
  "length (filter (\<lambda>(now, t', x'). t' = ''t'' \<and> x' = ''r'' \<and> 11 - (10 - 1) < now \<and> now \<le> 11)
     (fst (run_allow (\<lambda>(now, t', x'). MemoryLimiter_Allow now t' x' 3 (10 * Millisecond)) late_calls
        NewMemoryLimiter))) \<le> 3"
proof -
  have "Milliseconds (10 * Millisecond) = 10" "int64_range (10 * Millisecond)"
    by (simp_all add: Milliseconds_def quot_def duration_units int64_range_def)
  then show ?thesis
    using memory_window_bound [of "10 * Millisecond" 1 late_calls "''t''" "''r''" 11 3]
    by (simp add: clock_ok_def late_calls_def)
qed

text \<open>
  The disorder does cost: with the same calls the full window of ten milliseconds that ends at
  11 holds five admissions, although the limit is three.
\<close>

lemma late_readings_overshoot:
  "length (filter (\<lambda>(now, t', x'). t' = ''t'' \<and> 11 - 10 < now \<and> now \<le> 11)
     (fst (run_allow (\<lambda>(now, t', x'). MemoryLimiter_Allow now t' x' 3 (10 * Millisecond)) late_calls
        NewMemoryLimiter))) = 5"
  by code_simp

text \<open>C13: Degradation is bounded: over any sequence of requests to \<open>n\<close> gateway instances that share one
  Redis server, whichever calls of Redis fail, the middleware lets at most \<open>n + 1\<close> times the limit of
  a tenant's requests through to a route in any window (one limit of the shared server and one
  of each instance's fallback), up to the disorder of the clocks.\<close>

theorem fleet_degradation_bound:
  assumes "redis_limiter_inv s" and "int64_range window" and "0 < Milliseconds window" and "0 \<le> d"
    and "fleet_ok n d limit window 0 qs (fleet_start s)"
  shows "length (filter (\<lambda>(t', x', a). t' = t \<and> x' = x \<and> y - (Milliseconds window - d) < a \<and> a \<le> y)
      (fl_Admitted (fold (fleet_serve limit window) qs (fleet_start s)))) \<le> (n + 1) * nat limit"
proof -
  obtain T R M where "fleet_inv n d (Milliseconds window) limit t x T R M
      (fold (fleet_serve limit window) qs (fleet_start s))"
    using fleet_inv_run [OF assms(2-5) fleet_inv_start [OF assms(1)]] by blast
  then show ?thesis by (rule fleet_inv_bound)
qed

definition limited_ctx :: GinCtx where
  "limited_ctx = install_identity \<lparr>id_TenantID = ''t1'', id_UserID = ''k1'', id_Role = RoleAnalyst,
     id_Region = '''', id_SupplierID = ''''\<rparr> (fresh_ctx (sample_request ''GET'' ''/v1/inventory'' []))"

text \<open>A server that stops answering once it has an entry of the tenant, and three requests.\<close>

definition flaky_client :: "sample_redis RedisClient" where
  "flaky_client = sample_client\<lparr>rc_Eval := (\<lambda>script r.
     if sr_sets r (Key ''t1'' ''ratelimit:/v1/inventory'') = [] then (case script r of (v, r') \<Rightarrow> (Inr v, r'))
     else (Inl ''timeout'', r))\<rparr>"

lemma flaky_limiter_inv: "redis_limiter_inv (flaky_client, empty_redis)"
proof -
  have "redis_atomic_eval flaky_client"
    by (auto simp: redis_atomic_eval_def flaky_client_def split: prod.splits if_splits)
  moreover have "redis_sorted_sets flaky_client"
    using sample_client_sets by (simp add: redis_sorted_sets_def flaky_client_def)
  ultimately show ?thesis
    using sample_limiter_inv by (simp add: redis_limiter_inv_def redis_stamps_def flaky_client_def)
qed

definition fleet_requests :: "FleetRequest list" where
  "fleet_requests = map (\<lambda>(k, now, m). \<lparr>fr_Instance = k, fr_Redis = (now, m), fr_Now = now, fr_Ctx = limited_ctx\<rparr>)
     [(0, 5, ''a''), (0, 4, ''b''), (1, 6, ''c'')]"

theorem fleet_degradation_bound_witness:
  "length (filter (\<lambda>(t', x', a). t' = ''t1'' \<and> x' = ''ratelimit:/v1/inventory'' \<and> 10 - (10 - 1) < a \<and> a \<le> 10)
      (fl_Admitted (fold (fleet_serve 1 (10 * Millisecond)) fleet_requests (fleet_start (flaky_client, empty_redis)))))
     = 3 \<and>
   length (filter (\<lambda>(t', x', a). t' = ''t1'' \<and> x' = ''ratelimit:/v1/inventory'' \<and> 10 - (10 - 1) < a \<and> a \<le> 10)
      (fl_Admitted (fold (fleet_serve 1 (10 * Millisecond)) fleet_requests (fleet_start (flaky_client, empty_redis)))))
     \<le> (2 + 1) * 1"
proof
  show "length (filter (\<lambda>(t', x', a). t' = ''t1'' \<and> x' = ''ratelimit:/v1/inventory'' \<and> 10 - (10 - 1) < a \<and> a \<le> 10)
      (fl_Admitted (fold (fleet_serve 1 (10 * Millisecond)) fleet_requests (fleet_start (flaky_client, empty_redis)))))
     = 3"
    by code_simp
  have "Milliseconds (10 * Millisecond) = 10" "int64_range (10 * Millisecond)"
    by (simp_all add: Milliseconds_def quot_def duration_units int64_range_def)
  moreover have "fleet_ok 2 1 1 (10 * Millisecond) 0 fleet_requests (fleet_start (flaky_client, empty_redis))"
    by code_simp
  ultimately show "length (filter (\<lambda>(t', x', a). t' = ''t1'' \<and> x' = ''ratelimit:/v1/inventory'' \<and>
        10 - (10 - 1) < a \<and> a \<le> 10)
      (fl_Admitted (fold (fleet_serve 1 (10 * Millisecond)) fleet_requests (fleet_start (flaky_client, empty_redis)))))
     \<le> (2 + 1) * 1"
    using fleet_degradation_bound [OF flaky_limiter_inv, of "10 * Millisecond" 1 2 1 fleet_requests
        "''t1''" "''ratelimit:/v1/inventory''" 10]
    by simp
qed

text \<open>C32: The in-memory limiter admits a call exactly when fewer than the limit of the stored
  admissions are in the window that ends now, and then stores exactly those and the new one: the
  compaction that overwrites the slice while reading it is a filter, and no clock value in range
  overflows the cutoff.\<close>

theorem memory_allow_exact:
  assumes "clock_ok now" and "int64_range window"
  shows "(let kept = in_window now (Milliseconds window) (memory_stamps t x l);
              admitted = (int (size kept) < limit) in
    fst (MemoryLimiter_Allow now t x limit window l) = (admitted, None) \<and>
    memory_stamps t x (snd (MemoryLimiter_Allow now t x limit window l)) =
      (if admitted then add_mset now kept else kept))"
  using MemoryLimiter_Allow_spec [OF assms refl refl, where t = t and x = x and l = l and limit = limit] by (simp add: Let_def)

theorem memory_allow_exact_witness:
  "clock_ok 20 \<and>
   fst (MemoryLimiter_Allow 20 ''t'' ''r'' 2 (10 * Millisecond)
     \<lparr>ml_windows = [''t|r'' \<mapsto> [5, 12, 15]]\<rparr>) = (False, None)"
proof
  show ck: "clock_ok 20" by (simp add: clock_ok_def)
  have "int64_range (10 * Millisecond)" "Milliseconds (10 * Millisecond) = 10"
    by (simp_all add: Milliseconds_def quot_def duration_units int64_range_def)
  with memory_allow_exact [OF ck, of "10 * Millisecond" "''t''" "''r''"
      "\<lparr>ml_windows = [''t|r'' \<mapsto> [5, 12, 15]]\<rparr>" 2]
  show "fst (MemoryLimiter_Allow 20 ''t'' ''r'' 2 (10 * Millisecond)
     \<lparr>ml_windows = [''t|r'' \<mapsto> [5, 12, 15]]\<rparr>) = (False, None)"
    by (simp add: Let_def memory_stamps_def memory_key_def in_window_def)
qed

section \<open>Redis keys\<close>

text \<open>Entries of different tenants never share a key as long as the identifiers contain no colon (lemma
  \<open>Key_inj\<close>). With a colon in one they do: two different tenants, each with an idempotency suffix of
  its own, can share one entry.\<close>

lemma redis_keys_collide:
  "Key ''a'' ''idem:/v1/orders:x:idem:/v1/orders:y'' = Key ''a:idem:/v1/orders:x'' ''idem:/v1/orders:y'' \<and>
   ''a'' \<noteq> ''a:idem:/v1/orders:x''"
  by (simp add: Key_def)

section \<open>Idempotency\<close>

text \<open>C23: A retry of a stored request is answered from the store: over Redis, once the first
  request ran with an outcome below 500 and the write of its response succeeded, any request of
  the same tenant, route and key gets the stored status, bytes and content type, the rest of the
  chain is not run (the result is the same for every \<open>next'\<close>) and nothing changes.\<close>

theorem retry_is_replayed:
  assumes "json_roundtrip H" and "redis_reads_back (fst w1)" and "0 < ttl"
    and "GetHeader c HeaderIdempotencyKey \<noteq> ''''" and "FromGin c = Some actor"
    and "next c w = (c', w1)" and "200 \<le> c_Status c'" and "c_Status c' < 500"
    and "ValidString (captured H c c')" and "ValidString (content_type H c')"
    and "\<And>v. fst (redis_set (id_TenantID actor) (idem_suffix c) v ttl w1) = None"
    and "redis_get (id_TenantID actor) (idem_suffix c) w = Inl ErrCacheMiss"
    and "Idempotency H redis_get redis_set ttl emit next c w = (r1, w2)"
    and "FromGin d = Some actor'" and "id_TenantID actor' = id_TenantID actor"
    and "c_Request d = c_Request c"
    and "answers (redis_get (id_TenantID actor') (idem_suffix d) w2)"
  shows "r1 = c' \<and> Idempotency H redis_get redis_set ttl emit next' d w2 =
    (replay \<lparr>sr_Status = c_Status c', sr_Body = captured H c c', sr_ContentType = content_type H c'\<rparr> d, w2)"
proof -
  have req: "GetHeader d HeaderIdempotencyKey \<noteq> ''''"
    "Key (id_TenantID actor') (idem_suffix d) = Key (id_TenantID actor) (idem_suffix c)"
    using assms(4,15,16) by (simp_all add: GetHeader_def idem_suffix_def)
  show ?thesis
    by (rule redis_cache.retry_replays [OF assms(1-14) req assms(17)])
qed

definition idem_env :: "sample_redis RedisClient \<times> sample_redis" where
  "idem_env = (sample_client, empty_redis)"

definition created :: "(sample_redis RedisClient \<times> sample_redis) handler" where
  "created c w = (gin_JSON 201 (JObject []) c, w)"

definition ok_handler :: "(sample_redis RedisClient \<times> sample_redis) handler" where
  "ok_handler c w = (gin_JSON 200 JNull c, w)"

definition drop_log :: "(sample_redis RedisClient \<times> sample_redis) emitter" where
  "drop_log lg l m as w = w"

theorem retry_is_replayed_witness:
  "c_Status (fst (Idempotency sample_http redis_get redis_set 5 drop_log ok_handler limited_ctx
     (snd (Idempotency sample_http redis_get redis_set 5 drop_log created limited_ctx idem_env)))) = 201"
proof -
  let ?i = "\<lparr>id_TenantID = ''t1'', id_UserID = ''k1'', id_Role = RoleAnalyst, id_Region = '''',
     id_SupplierID = ''''\<rparr>"
  let ?c' = "gin_JSON 201 (JObject []) limited_ctx"
  have i: "FromGin limited_ctx = Some ?i" by (simp add: limited_ctx_def)
  have run: "created limited_ctx idem_env = (?c', idem_env)" by (simp add: created_def)
  have miss: "redis_get (id_TenantID ?i) (idem_suffix limited_ctx) idem_env = Inl ErrCacheMiss"
    by (simp add: redis_get_def Redis_Get_def idem_env_def sample_client_def empty_redis_def)
  have body: "ValidString (captured sample_http limited_ctx ?c')"
    "ValidString (content_type sample_http ?c')"
    by (simp_all add: captured_def content_type_def limited_ctx_def fresh_ctx_def sample_http_def
        ValidString.simps utf8_head_def in_range_def)
  have key: "GetHeader limited_ctx HeaderIdempotencyKey \<noteq> ''''"
    by (simp add: limited_ctx_def fresh_ctx_def sample_request_def GetHeader_def HeaderIdempotencyKey_def)
  obtain r1 w2 where first: "Idempotency sample_http redis_get redis_set 5 drop_log created limited_ctx
      idem_env = (r1, w2)"
    by (metis prod.exhaust)
  have "fst w2 = sample_client"
    using first run key i miss
    by (auto simp: Idempotency_def idem_lookup_def idem_store_def Let_def drop_log_def redis_set_def
        idem_env_def split: option.splits prod.splits if_splits)
  then have up: "answers (redis_get (id_TenantID ?i) (idem_suffix limited_ctx) w2)"
    by (auto simp: answers_def redis_get_def Redis_Get_def sample_client_def split: option.splits)
  have stored: "fst (redis_set (id_TenantID ?i) (idem_suffix limited_ctx) v 5 idem_env) = None" for v
    by (simp add: redis_set_def Redis_Set_def idem_env_def sample_client_def)
  have client: "redis_reads_back (fst idem_env)"
    by (simp add: idem_env_def sample_client_strings)
  from retry_is_replayed [OF sample_http_roundtrip client _ key i run _ _ body stored miss first i refl refl up,
      of ok_handler]
  show ?thesis by (simp add: first)
qed

text \<open>C35: Two requests with the same key that are in flight together both execute: the lookup and
  the store are separate accesses, so when both look up before either stores, the handler runs
  twice and neither request is answered from the store.\<close>

theorem concurrent_duplicates_both_run:
  assumes "GetHeader c HeaderIdempotencyKey \<noteq> ''''" and "FromGin c = Some actor"
    and "get (id_TenantID actor) (idem_suffix c) w = Inl ErrCacheMiss"
    and "next c w = (c1, w1)" and "next c w1 = (c2, w2)"
  shows "idem_schedule (idem_advance H get put ttl emit next) [0, 1, 0, 1] ([Arrived c, Arrived c], w) =
    ([Ran c c1, Ran c c2], w2)"
  using assms by (simp add: idem_lookup_def)

definition counting :: "(int \<times> sample_redis RedisClient \<times> sample_redis) handler" where
  "counting c w = (gin_JSON 201 (JObject []) c, (fst w + 1, snd w))"

theorem concurrent_duplicates_both_run_witness:
  "fst (snd (idem_schedule (idem_advance sample_http (\<lambda>t x w. redis_get t x (snd w))
      (\<lambda>t x v ttl w. case redis_set t x v ttl (snd w) of (e, s) \<Rightarrow> (e, fst w, s)) 5
      (\<lambda>lg l m as w. w) counting) [0, 1, 0, 1] ([Arrived limited_ctx, Arrived limited_ctx], 0, idem_env))) = 2"
proof -
  let ?i = "\<lparr>id_TenantID = ''t1'', id_UserID = ''k1'', id_Role = RoleAnalyst, id_Region = '''',
     id_SupplierID = ''''\<rparr>"
  have key: "GetHeader limited_ctx HeaderIdempotencyKey \<noteq> ''''"
    by (simp add: limited_ctx_def fresh_ctx_def sample_request_def GetHeader_def HeaderIdempotencyKey_def)
  have i: "FromGin limited_ctx = Some ?i" by (simp add: limited_ctx_def)
  have miss: "redis_get (id_TenantID ?i) (idem_suffix limited_ctx) (snd (0, idem_env)) = Inl ErrCacheMiss"
    by (simp add: redis_get_def Redis_Get_def idem_env_def sample_client_def empty_redis_def)
  from concurrent_duplicates_both_run [OF key i, of "\<lambda>t x w. redis_get t x (snd w)"
      "(0, idem_env)" counting, OF miss counting_def counting_def]
  show ?thesis by simp
qed

end
