(* ===== verification/Rate_Expiry.thy ===== *)
theory Rate_Expiry
  imports Rate_Limit
begin

text \<open>
  The Redis limiter of \<open>internal/gateway/middleware/ratelimit.go\<close> as time passes at the server. The
  script lets the whole set of a tenant and route expire (\<open>PEXPIRE\<close>), by the server's clock, while
  the admissions in it are stamped by the gateways' clocks. Here the expiry is shown to forget
  nothing that still counts: with clocks within a tolerance of the server's, every window that is
  shorter by twice the tolerance holds at most the limit.
\<close>

section \<open>Definitions\<close>

text \<open>Calls, each after a delay at the server, and those that were admitted.\<close>

fun run_timed ::
  "('e \<Rightarrow> 's \<Rightarrow> (bool \<times> string option) \<times> 's) \<Rightarrow> (int \<Rightarrow> 's \<Rightarrow> 's) \<Rightarrow> (int \<times> 'e) list \<Rightarrow> 's \<Rightarrow> 'e list \<times> 's" where
  "run_timed f elapse [] s = ([], s)"
| "run_timed f elapse ((d, e) # es) s =
     (case f e (elapse d s) of
        ((ok, err), s') \<Rightarrow>
          (case run_timed f elapse es s' of
             (admitted, s'') \<Rightarrow> (if ok \<and> err = None then e # admitted else admitted, s'')))"

fun timed_run_ok ::
  "('e \<Rightarrow> 's \<Rightarrow> (bool \<times> string option) \<times> 's) \<Rightarrow> (int \<Rightarrow> 's \<Rightarrow> 's) \<Rightarrow> ('e \<Rightarrow> 's \<Rightarrow> bool) \<Rightarrow>
   (int \<times> 'e) list \<Rightarrow> 's \<Rightarrow> bool" where
  "timed_run_ok f elapse P [] s = True"
| "timed_run_ok f elapse P ((d, e) # es) s =
     (P e (elapse d s) \<and> timed_run_ok f elapse P es (snd (f e (elapse d s))))"

text \<open>Delays are not negative, and every reading is within \<open>\<delta>\<close> of the server's time, \<open>\<sigma>\<close> so far.\<close>

fun near :: "int \<Rightarrow> int \<Rightarrow> (int \<times> int) list \<Rightarrow> bool" where
  "near \<delta> \<sigma> [] = True"
| "near \<delta> \<sigma> ((d, now) # es) = (0 \<le> d \<and> \<bar>now - (\<sigma> + d)\<bar> \<le> \<delta> \<and> near \<delta> (\<sigma> + d) es)"

text \<open>
  What the lifetime of a set guarantees at the server's time \<open>\<sigma>\<close>: a set with admissions has one, of
  at most the window, and when it has passed all of them are out of the window.
\<close>

definition lives :: "int \<Rightarrow> int \<Rightarrow> int \<Rightarrow> int multiset \<Rightarrow> int option \<Rightarrow> bool" where
  "lives \<delta> W \<sigma> S ttl \<longleftrightarrow> S = {#} \<or> (\<exists>n. ttl = Some n \<and> n \<le> W \<and> (\<forall>a \<in># S. a \<le> \<sigma> + n - W + \<delta>))"

section \<open>The interface\<close>

lemma lives_empty [simp]: "lives \<delta> W \<sigma> {#} ttl"
  by (simp add: lives_def)

lemma lives_sub: "lives \<delta> W \<sigma> S ttl \<Longrightarrow> S' \<subseteq># S \<Longrightarrow> lives \<delta> W \<sigma> S' ttl"
  by (auto simp: lives_def dest: mset_subset_eqD)

lemma lives_renewed:
  assumes "lives \<delta> W \<sigma> S ttl" and "S' \<subseteq># add_mset now S" and "now \<le> \<sigma> + \<delta>"
  shows "lives \<delta> W \<sigma> S' (Some W)"
proof -
  have "a \<le> \<sigma> + \<delta>" if "a \<in># S'" for a
  proof -
    from mset_subset_eqD [OF assms(2) that] have "a = now \<or> a \<in># S" by simp
    with assms(1,3) show ?thesis by (auto simp: lives_def)
  qed
  then show ?thesis by (simp add: lives_def)
qed

lemma lives_elapse:
  assumes "lives \<delta> W \<sigma> S ttl" and "0 \<le> d"
  shows "lives \<delta> W (\<sigma> + d) (if rt_gone d ttl then {#} else S) (rt_left d ttl)"
  using assms by (auto simp: lives_def rt_gone_def rt_left_def split: option.splits)

lemma tracks_elapse:
  assumes tr: "tracks (2 * \<delta>) W limit (\<sigma> + \<delta>) A S" and "lives \<delta> W \<sigma> S ttl" and "0 \<le> d"
  shows "tracks (2 * \<delta>) W limit (\<sigma> + d + \<delta>) A (if rt_gone d ttl then {#} else S)"
proof -
  have sub: "in_window (\<sigma> + d + \<delta>) W A \<subseteq># in_window (\<sigma> + \<delta>) W A"
    unfolding in_window_def using assms(3) by (intro filter_mset_mono_strong) auto
  have stored: "in_window (\<sigma> + d + \<delta>) W A \<subseteq># S"
    using tr sub unfolding tracks_def by (blast intro: subset_mset.trans)
  have "in_window (\<sigma> + d + \<delta>) W A = {#}" if gone: "rt_gone d ttl"
  proof (rule ccontr)
    assume "in_window (\<sigma> + d + \<delta>) W A \<noteq> {#}"
    then obtain a where a: "a \<in># in_window (\<sigma> + d + \<delta>) W A" by blast
    then have "a \<in># S" by (rule mset_subset_eqD [OF stored])
    with assms(2) gone have "a \<le> \<sigma> + d - W + \<delta>"
      by (auto simp: lives_def rt_gone_def split: option.splits)
    with a show False by (simp add: in_window_def)
  qed
  with stored tr assms(3) show ?thesis by (auto simp: tracks_def)
qed

locale expiring_limiter = limiter allow clock env_ok stamps inv
  for allow :: "'e \<Rightarrow> string \<Rightarrow> string \<Rightarrow> int \<Rightarrow> int \<Rightarrow> 's \<Rightarrow> (bool \<times> string option) \<times> 's"
    and clock :: "'e \<Rightarrow> int"
    and env_ok :: "'e \<Rightarrow> string \<Rightarrow> string \<Rightarrow> 's \<Rightarrow> bool"
    and stamps :: "string \<Rightarrow> string \<Rightarrow> 's \<Rightarrow> int multiset"
    and inv :: "'s \<Rightarrow> bool" +
  fixes elapse :: "int \<Rightarrow> 's \<Rightarrow> 's"
    and lifetime :: "string \<Rightarrow> string \<Rightarrow> 's \<Rightarrow> int option"
  assumes elapse_inv: "inv s \<Longrightarrow> 0 \<le> d \<Longrightarrow> inv (elapse d s)"
    and elapse_stamps: "inv s \<Longrightarrow> 0 \<le> d \<Longrightarrow>
      stamps t x (elapse d s) = (if rt_gone d (lifetime t x s) then {#} else stamps t x s)"
    and elapse_lifetime: "inv s \<Longrightarrow> 0 \<le> d \<Longrightarrow> lifetime t x (elapse d s) = rt_left d (lifetime t x s)"
    and allow_lifetime:
      "inv s \<Longrightarrow> clock_ok (clock e) \<Longrightarrow> env_ok e t x s \<Longrightarrow> 0 < Milliseconds window \<Longrightarrow>
       allow e t x limit window s = (reply, s') \<Longrightarrow>
       stamps t' x' s' = {#} \<or>
       stamps t' x' s' \<subseteq># stamps t' x' s \<and> lifetime t' x' s' = lifetime t' x' s \<or>
       stamps t' x' s' \<subseteq># add_mset (clock e) (stamps t' x' s) \<and> lifetime t' x' s' = Some (Milliseconds window)"
begin

lemma timed_tracks:
  assumes "inv s" and "int64_range window" and "0 < Milliseconds window" and "0 \<le> \<delta>"
    and "\<forall>(d, e, t', x') \<in> set calls. clock_ok (clock e)"
    and "near \<delta> \<sigma> (map (\<lambda>(d, e, _). (d, clock e)) calls)"
    and "timed_run_ok (\<lambda>(e, t', x'). allow e t' x' limit window) elapse (\<lambda>(e, t', x'). env_ok e t' x') calls s"
    and "tracks (2 * \<delta>) (Milliseconds window) limit (\<sigma> + \<delta>) A (stamps t x s)"
    and "lives \<delta> (Milliseconds window) \<sigma> (stamps t x s) (lifetime t x s)"
  shows "\<exists>T' S'. tracks (2 * \<delta>) (Milliseconds window) limit T'
    (A + mset (map (\<lambda>call. clock (fst call)) (filter (\<lambda>call. snd call = (t, x))
      (fst (run_timed (\<lambda>(e, t', x'). allow e t' x' limit window) elapse calls s))))) S'"
  using assms
proof (induction calls arbitrary: s A \<sigma>)
  case Nil
  then show ?case by auto
next
  case (Cons call calls)
  let ?W = "Milliseconds window"
  obtain d e t' x' where c: "call = (d, e, t', x')" by (cases call)
  let ?s = "elapse d s"
  obtain b m s' where run: "allow e t' x' limit window ?s = ((b, m), s')" by (metis prod.exhaust)
  have env: "env_ok e t' x' ?s" and clk: "clock_ok (clock e)" and d: "0 \<le> d"
    and now: "\<bar>clock e - (\<sigma> + d)\<bar> \<le> \<delta>" and rest: "near \<delta> (\<sigma> + d) (map (\<lambda>(d, e, _). (d, clock e)) calls)"
      "timed_run_ok (\<lambda>(e, t', x'). allow e t' x' limit window) elapse (\<lambda>(e, t', x'). env_ok e t' x') calls s'"
    using Cons.prems(5-7) c run by auto
  have inv: "inv ?s" by (rule elapse_inv [OF Cons.prems(1) d])
  have inv': "inv s'" using allow_inv [OF inv clk env Cons.prems(3), of limit] run by simp
  have tr: "tracks (2 * \<delta>) ?W limit (\<sigma> + d + \<delta>) A (stamps t x ?s)"
    using tracks_elapse [OF Cons.prems(8,9) d] elapse_stamps [OF Cons.prems(1) d] by simp
  have lv: "lives \<delta> ?W (\<sigma> + d) (stamps t x ?s) (lifetime t x ?s)"
    using lives_elapse [OF Cons.prems(9) d] elapse_stamps [OF Cons.prems(1) d]
      elapse_lifetime [OF Cons.prems(1) d] by simp
  define A' where "A' = (if (b \<and> m = None) \<and> t' = t \<and> x' = x then add_mset (clock e) A else A)"
  have "tracks (2 * \<delta>) ?W limit (max (\<sigma> + d + \<delta>) (clock e)) A' (stamps t x s')"
    unfolding A'_def using now Cons.prems(4)
    by (intro allow_tracks_any [OF inv clk env Cons.prems(2,3) _ _ run tr]) auto
  moreover have "max (\<sigma> + d + \<delta>) (clock e) = \<sigma> + d + \<delta>" using now by auto
  ultimately have tr': "tracks (2 * \<delta>) ?W limit (\<sigma> + d + \<delta>) A' (stamps t x s')" by simp
  have lv': "lives \<delta> ?W (\<sigma> + d) (stamps t x s') (lifetime t x s')"
    using allow_lifetime [OF inv clk env Cons.prems(3) run, of t x] lives_sub [OF lv]
      lives_renewed [OF lv, of "stamps t x s'" "clock e"] now
    by auto
  from Cons.IH [OF inv' Cons.prems(2-4) _ rest tr' lv'] Cons.prems(5)
  obtain T' S' where "tracks (2 * \<delta>) ?W limit T'
      (A' + mset (map (\<lambda>call. clock (fst call)) (filter (\<lambda>call. snd call = (t, x))
        (fst (run_timed (\<lambda>(e, t', x'). allow e t' x' limit window) elapse calls s'))))) S'"
    by auto
  moreover have "A' + mset (map (\<lambda>call. clock (fst call)) (filter (\<lambda>call. snd call = (t, x))
        (fst (run_timed (\<lambda>(e, t', x'). allow e t' x' limit window) elapse calls s')))) =
      A + mset (map (\<lambda>call. clock (fst call)) (filter (\<lambda>call. snd call = (t, x))
        (fst (run_timed (\<lambda>(e, t', x'). allow e t' x' limit window) elapse (call # calls) s))))"
    using run by (auto simp: A'_def c split: prod.splits)
  ultimately show ?case by metis
qed

lemma timed_window_bound:
  assumes "inv s" and "int64_range window" and "0 < Milliseconds window" and "0 \<le> \<delta>"
    and "\<forall>(d, e, t', x') \<in> set calls. clock_ok (clock e)"
    and "near \<delta> \<sigma> (map (\<lambda>(d, e, _). (d, clock e)) calls)"
    and "timed_run_ok (\<lambda>(e, t', x'). allow e t' x' limit window) elapse (\<lambda>(e, t', x'). env_ok e t' x') calls s"
    and "stamps t x s = {#}"
  shows "length (filter (\<lambda>(e, t', x'). t' = t \<and> x' = x \<and>
        y - (Milliseconds window - 2 * \<delta>) < clock e \<and> clock e \<le> y)
      (fst (run_timed (\<lambda>(e, t', x'). allow e t' x' limit window) elapse calls s))) \<le> nat limit"
proof -
  let ?adm = "fst (run_timed (\<lambda>(e, t', x'). allow e t' x' limit window) elapse calls s)"
  obtain T' S' where "tracks (2 * \<delta>) (Milliseconds window) limit T'
      ({#} + mset (map (\<lambda>call. clock (fst call)) (filter (\<lambda>call. snd call = (t, x)) ?adm))) S'"
    using timed_tracks [OF assms(1-7) tracks_empty, of t x] assms(8) by auto
  then show ?thesis using tracks_count by simp
qed

end

section \<open>The Redis limiter provides it\<close>

definition redis_elapse :: "'r RedisTime \<Rightarrow> int \<Rightarrow> 'r redis_limiter \<Rightarrow> 'r redis_limiter" where
  "redis_elapse R d s = (fst s, rt_elapse R d (snd s))"

definition redis_lifetime :: "'r RedisTime \<Rightarrow> string \<Rightarrow> string \<Rightarrow> 'r redis_limiter \<Rightarrow> int option" where
  "redis_lifetime R t x s = rt_PTTL R (Key t x) (snd s)"

definition redis_timed_inv :: "'r RedisTime \<Rightarrow> 'r redis_limiter \<Rightarrow> bool" where
  "redis_timed_inv R s \<longleftrightarrow> redis_limiter_inv s \<and> redis_sets_expire (fst s) R"

lemma redis_sets_expireD:
  assumes "redis_sets_expire C R"
  shows "0 < ms \<Longrightarrow> rc_ZRANGE C k r \<noteq> [] \<Longrightarrow> rt_PTTL R k (rc_PEXPIRE C k ms r) = Some ms"
    and "rc_ZRANGE C k (rc_ZREMRANGEBYSCORE C k lo hi r) \<noteq> [] \<Longrightarrow>
        rt_PTTL R k (rc_ZREMRANGEBYSCORE C k lo hi r) = rt_PTTL R k r"
    and "k' \<noteq> k \<Longrightarrow> rt_PTTL R k' (rc_ZREMRANGEBYSCORE C k lo hi r) = rt_PTTL R k' r"
    and "k' \<noteq> k \<Longrightarrow> rt_PTTL R k' (rc_ZADD C k s m r) = rt_PTTL R k' r"
    and "k' \<noteq> k \<Longrightarrow> rt_PTTL R k' (rc_PEXPIRE C k ms r) = rt_PTTL R k' r"
    and "0 \<le> d \<Longrightarrow> rc_ZRANGE C k (rt_elapse R d r) = (if rt_gone d (rt_PTTL R k r) then [] else rc_ZRANGE C k r)"
    and "0 \<le> d \<Longrightarrow> rt_PTTL R k (rt_elapse R d r) = rt_left d (rt_PTTL R k r)"
  using assms unfolding redis_sets_expire_def by simp_all

text \<open>The script renews the lifetime when it admits, and else leaves it to a set that is still there.\<close>

lemma script_lifetime:
  assumes C: "redis_sorted_sets C" and R: "redis_sets_expire C R" and "0 < W"
    and fresh: "member \<notin> fst ` set (rc_ZRANGE C k r)"
    and nonneg: "\<forall>p \<in> set (rc_ZRANGE C k r). 0 \<le> snd p"
    and run: "slidingWindowScript C k now W limit member r = (v, r')"
  shows "rc_ZRANGE C k r' = [] \<or>
    mset (rc_ZRANGE C k r') \<subseteq># mset (rc_ZRANGE C k r) \<and> rt_PTTL R k r' = rt_PTTL R k r \<or>
    mset (rc_ZRANGE C k r') \<subseteq># add_mset (member, now) (mset (rc_ZRANGE C k r)) \<and> rt_PTTL R k r' = Some W"
    and "k' \<noteq> k \<Longrightarrow> rt_PTTL R k' r' = rt_PTTL R k' r"
proof -
  define r1 where "r1 = rc_ZREMRANGEBYSCORE C k 0 (now - W) r"
  let ?b = "rc_ZCARD C k r1 < limit"
  have eq: "(v, r') = (if ?b then (1, rc_PEXPIRE C k W (rc_ZADD C k now member r1)) else (0, r1))"
    using run by (cases ?b) (auto simp: slidingWindowScript_def Let_def r1_def [symmetric])
  have sub: "mset (rc_ZRANGE C k r1) \<subseteq># mset (rc_ZRANGE C k r)"
    unfolding r1_def redis_sorted_setsD(1) [OF C] by (rule multiset_filter_subset)
  then have fresh1: "member \<notin> fst ` set (rc_ZRANGE C k r1)"
    using fresh set_mset_mono [OF sub] by auto
  have add: "mset (rc_ZRANGE C k (rc_ZADD C k now member r1)) = add_mset (member, now) (mset (rc_ZRANGE C k r1))"
    by (rule redis_sorted_setsD(3) [OF C fresh1])
  show "rc_ZRANGE C k r' = [] \<or>
    mset (rc_ZRANGE C k r') \<subseteq># mset (rc_ZRANGE C k r) \<and> rt_PTTL R k r' = rt_PTTL R k r \<or>
    mset (rc_ZRANGE C k r') \<subseteq># add_mset (member, now) (mset (rc_ZRANGE C k r)) \<and> rt_PTTL R k r' = Some W"
  proof (cases ?b)
    case True
    have "rc_ZRANGE C k (rc_ZADD C k now member r1) \<noteq> []" using add by auto
    from redis_sets_expireD(1) [OF R assms(3) this] redis_sorted_setsD(4) [OF C assms(3)] add sub True eq
    show ?thesis by simp
  next
    case False
    with eq sub redis_sets_expireD(2) [OF R, of k 0 "now - W" r] show ?thesis by (auto simp: r1_def)
  qed
  show "rt_PTTL R k' r' = rt_PTTL R k' r" if "k' \<noteq> k"
    using eq redis_sets_expireD(3-5) [OF R that] by (auto simp: r1_def split: if_splits)
qed

lemma redis_allow_lifetime:
  assumes inv: "redis_timed_inv R s" and fresh: "fresh_member e t x s" and W: "0 < Milliseconds window"
    and run: "redis_limiter_Allow e t x limit window s = (reply, s')"
  shows "redis_stamps (fst s') t' x' (snd s') = {#} \<or>
    redis_stamps (fst s') t' x' (snd s') \<subseteq># redis_stamps (fst s) t' x' (snd s) \<and>
      redis_lifetime R t' x' s' = redis_lifetime R t' x' s \<or>
    redis_stamps (fst s') t' x' (snd s') \<subseteq># add_mset (fst e) (redis_stamps (fst s) t' x' (snd s)) \<and>
      redis_lifetime R t' x' s' = Some (Milliseconds window)"
proof -
  obtain C r where s: "s = (C, r)" by (cases s)
  obtain now member where e: "e = (now, member)" by (cases e)
  let ?script = "slidingWindowScript C (Key t x) now (Milliseconds window) limit member"
  have C: "redis_sorted_sets C" "redis_atomic_eval C" "redis_sets_expire C R"
    and nonneg: "\<forall>p \<in> set (rc_ZRANGE C (Key t x) r). 0 \<le> snd p"
    using inv by (auto simp: redis_timed_inv_def redis_limiter_inv_def redis_stamps_def s)
  have mem: "member \<notin> fst ` set (rc_ZRANGE C (Key t x) r)" using fresh by (simp add: fresh_member_def s e)
  obtain v q where q: "?script r = (v, q)" by (cases "?script r")
  obtain w r' where ev: "rc_Eval C ?script r = (w, r')" by (cases "rc_Eval C ?script r")
  then have r': "r' = r \<or> r' = q"
    using C(2) q unfolding redis_atomic_eval_def by (cases w) (metis snd_conv)+
  have s': "s' = (C, r')"
    using run ev by (auto simp: redis_limiter_Allow_def RedisLimiter_Allow_def Redis_Eval_def s e split: sum.splits)
  show ?thesis
  proof (cases "r' = r")
    case True
    then show ?thesis by (simp add: s s' redis_lifetime_def)
  next
    case False
    then have r'q: "r' = q" using r' by blast
    note script = script_lifetime [OF C(1,3) W mem nonneg q]
    show ?thesis
    proof (cases "Key t' x' = Key t x")
      case True
      from script(1) show ?thesis
        using image_mset_subseteq_mono [of _ _ snd]
        by (fastforce simp: True s s' e r'q redis_stamps_def redis_lifetime_def)
    next
      case other: False
      have "rc_ZRANGE C (Key t' x') q = rc_ZRANGE C (Key t' x') r"
        using slidingWindowScript_spec(3) [OF C(1) W mem nonneg refl refl q other] .
      with script(2) [OF other] show ?thesis
        by (simp add: s s' r'q redis_stamps_def redis_lifetime_def)
    qed
  qed
qed

lemma redis_elapse_stamps:
  assumes "redis_timed_inv R s" and "0 \<le> d"
  shows "redis_stamps (fst (redis_elapse R d s)) t x (snd (redis_elapse R d s)) =
    (if rt_gone d (redis_lifetime R t x s) then {#} else redis_stamps (fst s) t x (snd s))"
  using assms redis_sets_expireD(6) [of "fst s" R d "Key t x" "snd s"]
  by (simp add: redis_timed_inv_def redis_elapse_def redis_lifetime_def redis_stamps_def)

interpretation redis_expiring: expiring_limiter redis_limiter_Allow fst fresh_member
    "\<lambda>t x s. redis_stamps (fst s) t x (snd s)" "redis_timed_inv R" "redis_elapse R" "redis_lifetime R"
  for R :: "'r RedisTime"
proof (unfold_locales, goal_cases)
  case (1 s e t x window limit)
  have "fst (snd (redis_limiter_Allow e t x limit window s)) = fst s"
    by (simp add: redis_limiter_Allow_def split: prod.splits)
  with 1 redis_limiter.allow_inv [of s e t x window limit] show ?case by (simp add: redis_timed_inv_def)
next
  case (2 s e t x window limit b s')
  then show ?case using redis_limiter.allow_reply [of s e t x window limit b s'] by (simp add: redis_timed_inv_def)
next
  case (3 s e t x window t' x' limit)
  then show ?case using redis_limiter.allow_keeps [of s e t x window t' x' limit] by (simp add: redis_timed_inv_def)
next
  case (4 s d)
  then have "\<forall>a \<in># redis_stamps (fst s) t x (rt_elapse R d (snd s)). 0 \<le> a" for t x
    using redis_elapse_stamps [OF 4] by (auto simp: redis_elapse_def redis_timed_inv_def redis_limiter_inv_def split: if_splits)
  with 4 show ?case by (simp add: redis_timed_inv_def redis_limiter_inv_def redis_elapse_def)
next
  case (5 s d t x)
  then show ?case by (rule redis_elapse_stamps)
next
  case (6 s d t x)
  then show ?case using redis_sets_expireD(7) [of "fst s" R d] by (simp add: redis_timed_inv_def redis_elapse_def redis_lifetime_def)
next
  case (7 s e t x window limit reply s' t' x')
  then show ?case by (intro redis_allow_lifetime)
qed

end
