(* ===== verification/Timed_Samples.thy ===== *)
theory Timed_Samples
  imports Samples Rate_Expiry
begin

text \<open>
  A Redis server with expiry, shown to behave as documented: every key has its string, its sorted set
  and the time it has left, and time passing removes what has expired. The witnesses of the
  properties about time use it.
\<close>

record timed_redis =
  tr_strings :: "string \<Rightarrow> string option"
  tr_sets :: "string \<Rightarrow> (string \<times> int) list"
  tr_left :: "string \<Rightarrow> int option"

definition tr_put :: "string \<Rightarrow> string \<Rightarrow> int \<Rightarrow> timed_redis \<Rightarrow> timed_redis" where
  "tr_put k v ttl r = r\<lparr>tr_strings := (tr_strings r)(k := Some v), tr_sets := (tr_sets r)(k := []),
     tr_left := (tr_left r)(k := if 0 < Milliseconds ttl then Some (Milliseconds ttl) else None)\<rparr>"

definition tr_delete :: "string \<Rightarrow> timed_redis \<Rightarrow> timed_redis" where
  "tr_delete k r = r\<lparr>tr_strings := (tr_strings r)(k := None), tr_sets := (tr_sets r)(k := []),
     tr_left := (tr_left r)(k := None)\<rparr>"

definition tr_present :: "string \<Rightarrow> timed_redis \<Rightarrow> bool" where
  "tr_present k r \<longleftrightarrow> tr_strings r k \<noteq> None \<or> tr_sets r k \<noteq> []"

text \<open>A set that loses its last member is deleted.\<close>

definition tr_remove :: "string \<Rightarrow> int \<Rightarrow> int \<Rightarrow> timed_redis \<Rightarrow> timed_redis" where
  "tr_remove k lo hi r =
     (let rest = filter (\<lambda>(m, s). \<not> (lo \<le> s \<and> s \<le> hi)) (tr_sets r k)
      in if rest = [] \<and> tr_sets r k \<noteq> [] then tr_delete k r else r\<lparr>tr_sets := (tr_sets r)(k := rest)\<rparr>)"

definition timed_client :: "timed_redis RedisClient" where
  "timed_client = \<lparr>
     rc_Ping = (\<lambda>r. None),
     rc_Get = (\<lambda>k r. case tr_strings r k of None \<Rightarrow> RNil | Some v \<Rightarrow> RVal v),
     rc_SetNX = (\<lambda>k v ttl r. if tr_present k r then (Inr False, r) else (Inr True, tr_put k v ttl r)),
     rc_Set = (\<lambda>k v ttl r. (None, tr_put k v ttl r)),
     rc_Eval = (\<lambda>script r. case script r of (v, r') \<Rightarrow> (Inr v, r')),
     rc_ZREMRANGEBYSCORE = tr_remove,
     rc_ZCARD = (\<lambda>k r. int (length (tr_sets r k))),
     rc_ZADD = (\<lambda>k s m r. r\<lparr>tr_sets := (tr_sets r)
        (k := filter (\<lambda>p. fst p \<noteq> m) (tr_sets r k) @ [(m, s)])\<rparr>),
     rc_PEXPIRE = (\<lambda>k ms r. if \<not> tr_present k r then r else if 0 < ms then r\<lparr>tr_left := (tr_left r)(k := Some ms)\<rparr>
        else tr_delete k r),
     rc_ZRANGE = (\<lambda>k r. tr_sets r k)\<rparr>"

definition timed_server :: "timed_redis RedisTime" where
  "timed_server = \<lparr>
     rt_elapse = (\<lambda>d r. \<lparr>tr_strings = (\<lambda>k. if rt_gone d (tr_left r k) then None else tr_strings r k),
        tr_sets = (\<lambda>k. if rt_gone d (tr_left r k) then [] else tr_sets r k),
        tr_left = (\<lambda>k. rt_left d (tr_left r k))\<rparr>),
     rt_value = (\<lambda>k r. tr_strings r k),
     rt_PTTL = (\<lambda>k r. tr_left r k)\<rparr>"

definition timed_empty :: timed_redis where
  "timed_empty = \<lparr>tr_strings = (\<lambda>_. None), tr_sets = (\<lambda>_. []), tr_left = (\<lambda>_. None)\<rparr>"

lemmas timed_redis_defs = timed_client_def timed_server_def tr_put_def tr_delete_def tr_present_def tr_remove_def

lemma timed_client_eval: "redis_atomic_eval timed_client"
  by (auto simp: redis_atomic_eval_def timed_client_def split: prod.splits)

lemma timed_remove_sets: "tr_sets (tr_remove k lo hi r) k = filter (\<lambda>(m, s). \<not> (lo \<le> s \<and> s \<le> hi)) (tr_sets r k)"
  by (simp add: tr_remove_def tr_delete_def Let_def)

lemma timed_client_sets: "redis_sorted_sets timed_client"
  unfolding redis_sorted_sets_def
proof (intro conjI allI impI)
  fix k s m and r :: timed_redis
  assume "m \<notin> fst ` set (rc_ZRANGE timed_client k r)"
  then have "filter (\<lambda>p. fst p \<noteq> m) (tr_sets r k) = tr_sets r k"
    by (auto simp: timed_client_def filter_id_conv)
  then show "mset (rc_ZRANGE timed_client k (rc_ZADD timed_client k s m r)) =
      add_mset (m, s) (mset (rc_ZRANGE timed_client k r))"
    by (simp add: timed_client_def)
qed (auto simp: timed_redis_defs Let_def filter_empty_conv)

lemma timed_expires: "redis_expires timed_client timed_server"
  unfolding redis_expires_def
  by (intro conjI allI impI) (auto simp: timed_redis_defs rt_entry_def rt_gone_def rt_left_def Let_def split: option.splits)

lemma timed_sets_expire: "redis_sets_expire timed_client timed_server"
  unfolding redis_sets_expire_def
  by (intro conjI allI impI) (auto simp: timed_redis_defs Let_def)

lemma timed_limiter_inv: "redis_timed_inv timed_server (timed_client, timed_empty)"
  by (simp add: redis_timed_inv_def redis_limiter_inv_def timed_client_eval timed_client_sets timed_sets_expire
      redis_stamps_def)
     (simp add: timed_client_def timed_empty_def)

text \<open>The deployment over it.\<close>

definition timed_world :: "Role \<Rightarrow> timed_redis World" where
  "timed_world role = (initial_world (timed_client, timed_empty) [''t1'', ''t2''])\<lparr>w_Db := sample_db role\<rparr>"

end
