(* ===== verification/Gateway_Responses.thy ===== *)
theory Gateway_Responses
  imports Gateway
begin

text \<open>
  What a request gets back and leaves in the log, whatever route it takes through the gateway
  of \<open>internal/gateway/router.go\<close>. A contract on handlers, kept by every middleware of the pipeline
  and met by every handler at its end: the response is one of a few shapes, the correlation id
  goes with it, and the log only grows.
\<close>

section \<open>Definitions\<close>

text \<open>The status that belongs to a machine code of the error envelope.\<close>

definition error_status :: "string \<Rightarrow> int" where
  "error_status code =
     (if code = CodeUnauthorized then 401
      else if code = CodeForbidden then 403
      else if code = ''not_found'' then 404
      else if code = CodeConflict then 409
      else if code = CodeRateLimited then 429
      else if code = CodeInternal then 500
      else 400)"

text \<open>
  The shapes of a response of a handler: one JSON document, nothing, an error envelope, a replay; and
  the framework's own answer when no route matched.
\<close>

definition document :: "GinCtx \<Rightarrow> bool" where
  "document c \<longleftrightarrow> (c_Status c = 200 \<or> c_Status c = 201) \<and> (\<exists>j. c_Written c = [BodyJSON j])"

definition no_content :: "GinCtx \<Rightarrow> bool" where
  "no_content c \<longleftrightarrow> c_Status c = 204 \<and> c_Written c = []"

definition page_not_found :: "GinCtx \<Rightarrow> bool" where
  "page_not_found c \<longleftrightarrow> \<not> c_Aborted c \<and> c_Status c = 404 \<and>
     c_Written c = [BodyData ''text/plain'' ''404 page not found'']"

definition envelope :: "string \<Rightarrow> GinCtx \<Rightarrow> bool" where
  "envelope rid c \<longleftrightarrow> c_Aborted c \<and> (\<exists>code msg. c_Status c = error_status code \<and>
     c_Written c = [BodyJSON (ErrorBody \<lparr>ed_Code = code, ed_Message = msg, ed_RequestID = rid\<rparr>)])"

definition replayed :: "GinCtx \<Rightarrow> bool" where
  "replayed c \<longleftrightarrow> c_Aborted c \<and> c_Header c ''Idempotent-Replay'' = Some ''true'' \<and>
     (\<exists>ctype b. c_Written c = [BodyData ctype b])"

definition response_ok :: "string \<Rightarrow> GinCtx \<Rightarrow> bool" where
  "response_ok rid c \<longleftrightarrow> document c \<or> no_content c \<or> envelope rid c \<or> replayed c"

definition answered :: "Deps \<Rightarrow> Request \<Rightarrow> string \<Rightarrow> GinCtx \<Rightarrow> bool" where
  "answered D r rid c \<longleftrightarrow> (if routed D r then response_ok rid c else page_not_found c)"

text \<open>A context that carries the correlation id: for handlers, for the client and in its logger.\<close>

definition traced :: "Logger \<Rightarrow> string \<Rightarrow> GinCtx \<Rightarrow> bool" where
  "traced base rid c \<longleftrightarrow> get_string c RequestIDKey = rid \<and> c_Header c HeaderRequestID = Some rid \<and>
     (\<exists>as. logger_FromContext (c_Context c) = slog_With base ((''request_id'', AStr rid) # as))"

text \<open>The contract of a handler that is entered with nothing written yet.\<close>

definition proper :: "Logger \<Rightarrow> string \<Rightarrow> 'r World handler \<Rightarrow> bool" where
  "proper base rid h \<longleftrightarrow> (\<forall>c w. traced base rid c \<longrightarrow> c_Written c = [] \<longrightarrow>
     traced base rid (fst (h c w)) \<and> response_ok rid (fst (h c w)) \<and> log_grows w (snd (h c w)))"

section \<open>Lemmas\<close>

subsection \<open>The correlation id\<close>

lemma header_names_distinct [simp]: "HeaderRequestID \<noteq> ''Idempotent-Replay''" "''Idempotent-Replay'' \<noteq> HeaderRequestID"
  by (simp_all add: HeaderRequestID_def)

lemma traced_gin [simp]:
  "traced b rid (gin_JSON n j c) = traced b rid c"
  "traced b rid (gin_Data n t d c) = traced b rid c"
  "traced b rid (gin_Status n c) = traced b rid c"
  "traced b rid (gin_Abort c) = traced b rid c"
  "traced b rid (gin_NotFound c) = traced b rid c"
  "traced b rid (Abort n code m c) = traced b rid c"
  "k \<noteq> RequestIDKey \<Longrightarrow> traced b rid (gin_Set k v c) = traced b rid c"
  "h \<noteq> HeaderRequestID \<Longrightarrow> traced b rid (gin_Header h x c) = traced b rid c"
  by (simp_all add: traced_def get_string_def gin_Status_def gin_NotFound_def)

lemma traced_errors [simp]:
  "traced b rid (Unauthorized m c) = traced b rid c" "traced b rid (BadRequest m c) = traced b rid c"
  "traced b rid (Internal m c) = traced b rid c" "traced b rid (writeStoreError e c) = traced b rid c"
  by (simp_all add: abort_defs writeStoreError_def split: auth_error.splits)

lemma traced_replay [simp]: "traced b rid (replay sr c) = traced b rid c"
  by (simp add: replay_def)

lemma traced_expose [simp]: "traced b rid (expose_decision d c) = traced b rid c"
  by (simp add: expose_decision_def)

lemma slog_With_With: "slog_With (slog_With lg as) bs = slog_With lg (as @ bs)"
  by (simp add: slog_With_def)

lemma traced_identity: "traced b rid c \<Longrightarrow> traced b rid (install_identity i c)"
  by (auto simp: traced_def install_identity_def Let_def get_string_def slog_With_With)

lemma traced_entry: "traced (d_Logger D) (request_id (ev_uuid ev) (fresh_ctx r)) (entry_ctx D ev r)"
  by (auto simp: traced_def entry_ctx_def)

subsection \<open>Shapes\<close>

lemma document_JSON: "c_Written c = [] \<Longrightarrow> n = 200 \<or> n = 201 \<Longrightarrow> response_ok rid (gin_JSON n j c)"
  by (auto simp: response_ok_def document_def)

lemma envelope_Abort:
  "c_Written c = [] \<Longrightarrow> traced b rid c \<Longrightarrow> n = error_status code \<Longrightarrow> response_ok rid (Abort n code m c)"
  by (auto simp: response_ok_def envelope_def Abort_written traced_def)

lemma envelope_errors:
  assumes "c_Written c = []" and "traced b rid c"
  shows "response_ok rid (Unauthorized m c)" and "response_ok rid (BadRequest m c)"
    and "response_ok rid (Internal m c)" and "response_ok rid (writeStoreError e c)"
  using assms
  by (auto simp: abort_defs writeStoreError_def error_status_def code_defs split: auth_error.splits
      intro: envelope_Abort)

lemma empty_Status: "c_Written c = [] \<Longrightarrow> response_ok rid (gin_Status 204 c)"
  by (simp add: response_ok_def no_content_def)

lemma answered_NotFound:
  "c_Written c = [] \<Longrightarrow> \<not> c_Aborted c \<Longrightarrow> \<not> routed D r \<Longrightarrow> answered D r rid (gin_NotFound c)"
  by (simp add: answered_def page_not_found_def gin_NotFound_def)

lemma replayed_replay: "c_Written c = [] \<Longrightarrow> response_ok rid (replay sr c)"
  by (simp add: response_ok_def replayed_def)

subsection \<open>Handlers\<close>

lemma properI:
  "(\<And>c w. traced base rid c \<Longrightarrow> c_Written c = [] \<Longrightarrow>
     traced base rid (fst (h c w)) \<and> response_ok rid (fst (h c w)) \<and> log_grows w (snd (h c w))) \<Longrightarrow>
   proper base rid h"
  by (simp add: proper_def)

lemma properD:
  assumes "proper base rid h" and "traced base rid c" and "c_Written c = []"
  shows "traced base rid (fst (h c w))" and "response_ok rid (fst (h c w))" and "log_grows w (snd (h c w))"
  using assms by (simp_all add: proper_def)

lemma proper_answer:
  "(\<And>c. traced base rid c \<Longrightarrow> c_Written c = [] \<Longrightarrow> traced base rid (f c) \<and> response_ok rid (f c)) \<Longrightarrow>
   proper base rid (\<lambda>c w. (f c, w))"
  by (simp add: proper_def)

lemma proper_public:
  "(m, p, h) \<in> set (public_routes L D ev) \<Longrightarrow> proper base rid h"
  by (auto simp: public_routes_def auth_Register_def handleHealth_def issueToken_def refresh_def Let_def document_JSON
      envelope_errors split: option.splits sum.splits auth_error.splits intro!: properI)

lemma proper_stub: "proper base rid stub_handle"
  by (rule properI) (auto simp: stub_handle_def Let_def document_JSON intro: log_grows_same)

lemma proper_Create: "proper base rid (APIKeyHandler_Create b (\<lambda>spec. on_db (F spec)))"
proof (rule properI)
  fix c and w :: "'r World"
  assume c: "traced base rid c" "c_Written c = []"
  then show "traced base rid (fst (APIKeyHandler_Create b (\<lambda>spec. on_db (F spec)) c w)) \<and>
      response_ok rid (fst (APIKeyHandler_Create b (\<lambda>spec. on_db (F spec)) c w)) \<and>
      log_grows w (snd (APIKeyHandler_Create b (\<lambda>spec. on_db (F spec)) c w))"
    by (auto simp: APIKeyHandler_Create_def case_prod_beta document_JSON envelope_errors
        split: option.splits sum.splits intro: log_grows_same)
qed

lemma proper_List: "proper base rid (APIKeyHandler_List G)"
  by (rule properI) (auto simp: APIKeyHandler_List_def document_JSON envelope_errors split: option.splits sum.splits)

lemma proper_Rotate: "proper base rid (APIKeyHandler_Rotate (\<lambda>t i. on_db (F t i)))"
  by (rule properI)
     (auto simp: APIKeyHandler_Rotate_def case_prod_beta document_JSON envelope_errors
       split: option.splits sum.splits intro: log_grows_same)

lemma proper_Revoke: "proper base rid (APIKeyHandler_Revoke (\<lambda>t i. on_db (F t i)))"
  by (rule properI)
     (auto simp: APIKeyHandler_Revoke_def case_prod_beta empty_Status envelope_errors
       split: option.splits sum.splits intro: log_grows_same)

subsection \<open>Middlewares\<close>

lemma proper_Enforce:
  fixes k :: "'r World handler"
  assumes "proper base rid k"
  shows "proper base rid (gw_Enforce L D ev a t k)"
proof (rule properI)
  fix c and w :: "'r World"
  assume c: "traced base rid c" "c_Written c = []"
  show "traced base rid (fst (gw_Enforce L D ev a t k c w)) \<and> response_ok rid (fst (gw_Enforce L D ev a t k c w)) \<and>
      log_grows w (snd (gw_Enforce L D ev a t k c w))"
  proof (cases "FromGin c")
    case None
    with c show ?thesis by (simp add: gw_Enforce_def Enforce_def envelope_errors)
  next
    case (Some i)
    let ?d = "Evaluate (d_Engine D) (ev_select ev)
      (enforce_input a t (Some (queryResourceExtractor (l_ParseFloat L))) c i)"
    let ?w = "snd (w_Write (d_Auditor D) (ev_audit_now ev) (enforce_record a t (in_Resource (enforce_input a t
      (Some (queryResourceExtractor (l_ParseFloat L))) c i)) ?d c i) w)"
    have run: "gw_Enforce L D ev a t k c w =
        (if \<not> dec_Allow ?d
         then (Abort 403 CodeForbidden (''denied by policy: '' @ dec_Reason ?d) (expose_decision ?d c), ?w)
         else k (expose_decision ?d c) ?w)"
      using Some by (simp add: gw_Enforce_def Enforce_def Let_def)
    have grows: "log_grows w ?w" by (rule log_grows_Write)
    have c': "traced base rid (expose_decision ?d c)" "c_Written (expose_decision ?d c) = []"
      using c by simp_all
    from properD [OF assms c', of ?w] grows envelope_Abort [OF c'(2,1), of 403 CodeForbidden] c'
    show ?thesis
      unfolding run by (auto simp: error_status_def code_defs intro: log_grows_trans)
  qed
qed

lemma log_grows_idem_store: "log_grows w (idem_store H w_Set ttl w_emit c c' w)"
proof -
  have "log_grows w (w_emit lg lvl ''failed to persist idempotent response'' as (snd (w_Set t x v ttl w)))"
    for lg lvl as t x v
    by (rule log_grows_trans [OF log_grows_same [OF log_frames(3)] log_grows_emit]) simp
  then show ?thesis
    by (auto simp: idem_store_def Let_def case_prod_beta log_frames split: option.splits intro: log_grows_same)
qed

lemma proper_Idempotency:
  fixes k :: "'r World handler"
  assumes "proper base rid k"
  shows "proper base rid (gw_Idempotency L D k)"
proof (rule properI)
  fix c and w :: "'r World"
  assume c: "traced base rid c" "c_Written c = []"
  obtain out w1 where look: "idem_lookup (l_Http L) w_Get w_emit c w = (out, w1)"
    by (metis prod.exhaust)
  have w1: "log_grows w w1"
    using look by (auto simp: idem_lookup_def split: if_splits option.splits sum.splits cache_error.splits
        intro!: log_grows_emit)
  have ans: "traced base rid c' \<and> response_ok rid c'" if "out = Answer c'" for c'
    using look that c envelope_Abort [OF c(2,1), of 400 CodeIdempotency]
    by (auto simp: idem_lookup_def envelope_errors replayed_replay error_status_def code_defs
        split: if_splits option.splits sum.splits cache_error.splits)
  note k = properD [OF assms c, of w1]
  have "log_grows w (snd (k c w1))" by (rule log_grows_trans [OF w1 k(3)])
  then have stored: "log_grows w (idem_store H w_Set ttl w_emit c c' (snd (k c w1)))" for H ttl c'
    by (rule log_grows_trans [OF _ log_grows_idem_store])
  show "traced base rid (fst (gw_Idempotency L D k c w)) \<and> response_ok rid (fst (gw_Idempotency L D k c w)) \<and>
      log_grows w (snd (gw_Idempotency L D k c w))"
    using look ans w1 k stored
    by (cases out) (auto simp: gw_Idempotency_def Idempotency_def case_prod_beta intro: log_grows_trans)
qed

lemma traced_carries: "carries c c1 \<Longrightarrow> traced base rid c \<Longrightarrow> traced base rid c1"
  by (simp add: carries_def traced_def)

lemma envelope_busy:
  "c_Written c = [] \<Longrightarrow> traced base rid c \<Longrightarrow> response_ok rid (Abort 429 CodeRateLimited m c)"
  by (rule envelope_Abort) (auto simp: error_status_def code_defs)

lemma log_resolveIdentity:
  "w_Log (snd (resolveIdentity J iss now (resolver L D ev) c w)) = w_Log w"
  by (auto simp: resolveIdentity_def resolver_def Let_def split: option.splits)

lemma proper_v1:
  fixes k :: "'r World handler"
  assumes "proper base rid k"
  shows "proper base rid (v1 L D ev k)"
proof (rule properI)
  fix c and w :: "'r World"
  assume c: "traced base rid c" "c_Written c = []"
  obtain reply w0 where res: "resolveIdentity (l_Jwt L) (d_Issuer D) (ev_auth_now ev) (resolver L D ev) c w
      = (reply, w0)"
    by (metis prod.exhaust)
  have g0: "log_grows w w0" using res log_resolveIdentity by (metis log_grows_same snd_conv)
  show "traced base rid (fst (v1 L D ev k c w)) \<and> response_ok rid (fst (v1 L D ev k c w)) \<and>
      log_grows w (snd (v1 L D ev k c w))"
  proof (cases reply)
    case (Inl err)
    with res have "v1 L D ev k c w = (Unauthorized (auth_message err) c, w0)"
      by (simp add: v1_def Authenticate_refused)
    with c g0 show ?thesis by (simp add: envelope_errors)
  next
    case (Inr i)
    define c0 where "c0 = install_identity i c"
    let ?R = "RateLimit (w_redis_Allow (ev_limit ev)) (w_memory_Allow (ev_mem_now ev))
          (gc_RateLimitRequests (cfg_Gateway (d_Config D)))
          (gc_RateLimitWindow (cfg_Gateway (d_Config D))) w_emit k c0 w0"
    have v1: "v1 L D ev k c w = ?R"
      using res Inr by (simp add: v1_def Authenticate_accepted c0_def)
    have c0: "FromGin c0 = Some i" "traced base rid c0" "c_Written c0 = []"
      using c by (simp_all add: c0_def traced_identity)
    from c0(1) show ?thesis
      unfolding v1
    proof (cases rule: RateLimit_phase [where w = w0 and e = "ev_limit ev" and now = "ev_mem_now ev"
          and limit = "gc_RateLimitRequests (cfg_Gateway (d_Config D))"
          and window = "gc_RateLimitWindow (cfg_Gateway (d_Config D))"])
      case (refused c1 w1)
      have "traced base rid c1" "c_Written c1 = []"
        using traced_carries [OF refused(2) c0(2)] refused(2) c0(3) by (simp_all add: carries_def)
      with refused(3,4) g0 show "traced base rid (fst ?R) \<and> response_ok rid (fst ?R) \<and> log_grows w (snd ?R)"
        by (auto intro: log_grows_trans envelope_busy)
    next
      case (admitted c1 w1)
      have "traced base rid c1" "c_Written c1 = []"
        using traced_carries [OF admitted(2) c0(2)] admitted(2) c0(3) by (simp_all add: carries_def)
      from properD [OF assms this, of w1] admitted(3,4) g0
      show "traced base rid (fst ?R) \<and> response_ok rid (fst ?R) \<and> log_grows w (snd ?R)"
        by (auto intro: log_grows_trans)
    qed
  qed
qed

subsection \<open>Whole requests\<close>

lemma proper_protected: "(m, p, h) \<in> set (protected_routes L D ev) \<Longrightarrow> proper base rid h"
  unfolding protected_routes_def registerStubRoutes_def registerAPIKeyRoutes_def
  by (auto split: if_splits intro!: proper_Idempotency proper_Enforce proper_stub proper_Create proper_List
      proper_Rotate proper_Revoke)

lemma proper_matched: "routed D r \<Longrightarrow> proper base rid (matched L D ev r :: 'r World handler)"
proof (cases rule: matched_cases [of L D ev r, where 'r = 'r])
  case none
  moreover assume "routed D r"
  ultimately show ?thesis by simp
next
  case (public h)
  then show ?thesis using proper_public by simp
next
  case (protected h)
  then show ?thesis using proper_protected proper_v1 by metis
qed

definition access_line :: "Deps \<Rightarrow> Env \<Rightarrow> string \<Rightarrow> (string \<times> attr) list \<Rightarrow> GinCtx \<Rightarrow> log_line" where
  "access_line D ev rid as c =
     \<lparr>ln_Sink = lg_Sink (d_Logger D), ln_Level = LevelInfo, ln_Msg = ''request'',
      ln_Attrs = lg_Attrs (d_Logger D) @ (''request_id'', AStr rid) # as @ access_attrs (ev_latency ev) c\<rparr>"

lemma ServeHTTP_answers:
  fixes w :: "'r World"
  assumes "rid = request_id (ev_uuid ev) (fresh_ctx r)" and "ServeHTTP L D ev r w = (c', w')"
  shows "traced (d_Logger D) rid c' \<and> answered D r rid c' \<and>
    (\<exists>ls as. w_Log w' = w_Log w @ ls @
        (if lg_Level (d_Logger D) \<le> LevelInfo then [access_line D ev rid as c'] else []) \<and>
      (\<forall>l \<in> set ls. ln_Msg l \<noteq> ''request''))"
proof -
  obtain c1 w1 where run: "matched L D ev r (entry_ctx D ev r) w = (c1, w1)"
    by (metis prod.exhaust)
  have e: "c_Written (entry_ctx D ev r) = []" "\<not> c_Aborted (entry_ctx D ev r)"
    by (simp_all add: entry_ctx_def install_request_id_def fresh_ctx_def Let_def)
  have "traced (d_Logger D) rid c1 \<and> answered D r rid c1 \<and> log_grows w w1"
  proof (cases "routed D r")
    case True
    from properD [OF proper_matched [where L = L and ev = ev, OF True] traced_entry e(1), where w = w] run assms(1) True
    show ?thesis by (simp add: answered_def)
  next
    case False
    with run matched_unrouted [OF False, of L ev "entry_ctx D ev r" w] traced_entry [of D ev r] assms(1)
      answered_NotFound [OF e False] show ?thesis by auto
  qed
  then have tr: "traced (d_Logger D) rid c1" and ok: "answered D r rid c1" and "log_grows w w1" by simp_all
  obtain as where lg: "logger_FromContext (c_Context c1) = slog_With (d_Logger D) ((''request_id'', AStr rid) # as)"
    using tr by (auto simp: traced_def)
  obtain ls where ls: "w_Log w1 = w_Log w @ ls" "\<forall>l \<in> set ls. ln_Msg l \<noteq> ''request''"
    using \<open>log_grows w w1\<close> by (auto simp: log_grows_def)
  have c': "c' = c1" "w' = w_emit (logger_FromContext (c_Context c1)) LevelInfo ''request''
      (access_attrs (ev_latency ev) c1) w1"
    using assms(2) run by (auto simp: ServeHTTP_eq)
  have "w_Log w' = w_Log w @ ls @
      (if lg_Level (d_Logger D) \<le> LevelInfo then [access_line D ev rid as c'] else [])"
    using ls lg by (simp add: c' w_emit_def slog_Log_def access_line_def)
  with tr ok ls(2) c'(1) show ?thesis by blast
qed

end
