(* ===== verification/Gateway_Runs.thy ===== *)
theory Gateway_Runs
  imports Gateway_Responses
begin

text \<open>
  The gateway of \<open>internal/gateway/router.go\<close> over time: any sequence of requests, each in an
  environment of its own, and what holds of the world and of the audit trail after it. The
  trail accounts for every handler call and for every key of the table.
\<close>

section \<open>Definitions\<close>

definition serve_all :: "Libs \<Rightarrow> Deps \<Rightarrow> (Env \<times> Request) list \<Rightarrow> 'r World \<Rightarrow> 'r World" where
  "serve_all L D = fold (\<lambda>(ev, r) w. snd (ServeHTTP L D ev r w))"

subsection \<open>Specification\<close>

text \<open>The records that stand for a handler call, and for adding or revoking a key of a tenant.\<close>

definition ran :: "AuditRecord \<Rightarrow> bool" where
  "ran rec \<longleftrightarrow> au_PolicyDecision rec = DecisionAllow \<and> au_ResourceType rec \<noteq> ''api_key''"

definition key_record :: "KeyLib \<Rightarrow> (Action \<Rightarrow> bool) \<Rightarrow> string \<Rightarrow> AuditRecord \<Rightarrow> bool" where
  "key_record K P t rec \<longleftrightarrow> au_PolicyDecision rec = DecisionAllow \<and> au_ResourceType rec = ''api_key'' \<and>
     P (au_Action rec) \<and> au_ActorRole rec = RoleAdmin \<and> kl_uuid K (au_TenantID rec) = Some t"

definition accounted :: "KeyLib \<Rightarrow> 'r World \<Rightarrow> bool" where
  "accounted K w \<longleftrightarrow> db_ok (w_Db w) \<and>
     w_Calls w = of_nat (length (filter ran (audit_trail (w_Log w)))) \<and>
     (\<forall>t. length (tenant_view t (w_Db w)) \<le>
            length (filter (key_record K adds_key t) (audit_trail (w_Log w))) \<and>
          length (filter (\<lambda>r. \<not> live r) (tenant_view t (w_Db w))) \<le>
            length (filter (key_record K revokes_key t) (audit_trail (w_Log w))))"

text \<open>A complete audit record: who, what, when, and a rule that made the decision.\<close>

definition named_by :: "Engine \<Rightarrow> Effect \<Rightarrow> string \<Rightarrow> bool" where
  "named_by e eff name \<longleftrightarrow> (\<exists>\<rho> \<in> set (eng_rules e). rule_Effect \<rho> = eff \<and> rule_ID \<rho> = name)"

definition record_ok :: "Engine \<Rightarrow> AuditRecord \<Rightarrow> bool" where
  "record_ok e rec \<longleftrightarrow> Valid (au_ActorRole rec) \<and> au_Timestamp rec \<noteq> None \<and>
     (au_Action rec, au_ResourceType rec) \<in> (\<lambda>(_, _, a, t). (a, t)) ` set route_policy \<and>
     (au_PolicyDecision rec = DecisionAllow \<and> named_by e EffectAllow (au_PolicyRuleMatched rec) \<or>
      au_PolicyDecision rec = DecisionDeny \<and>
        (named_by e EffectDeny (au_PolicyRuleMatched rec) \<or>
         au_PolicyRuleMatched rec \<in> {RuleCrossTenantDeny, RuleDefaultDeny, RuleEvalTimeout}))"

section \<open>Lemmas\<close>

lemma serve_all_simps [simp]:
  "serve_all L D [] w = w"
  "serve_all L D (q # qs) w = serve_all L D qs (snd (ServeHTTP L D (fst q) (snd q) w))"
  by (simp_all add: serve_all_def case_prod_beta)

text \<open>What holds at the start and is kept by every request holds after any sequence of them.\<close>

lemma serve_all_invariant:
  assumes "\<And>ev r w c' w'. I w \<Longrightarrow> ServeHTTP L D ev r w = (c', w') \<Longrightarrow> I w'" and "I w"
  shows "I (serve_all L D qs w)"
  using assms(2)
proof (induction qs arbitrary: w)
  case (Cons q qs)
  obtain c' w' where "ServeHTTP L D (fst q) (snd q) w = (c', w')" by (metis prod.exhaust)
  with Cons assms(1) show ?case by simp
qed simp

subsection \<open>One request\<close>

text \<open>The effect of a request on the world, by the record it leaves.\<close>

lemma ServeHTTP_effect:
  fixes w :: "'r World"
  assumes "ServeHTTP L D ev r w = (c', w')"
  obtains (quiet) "quiet w w'"
  | (served) i a t where "(req_Method r, req_FullPath r, a, t) \<in> set route_policy" "Valid (id_Role i)"
      "served L D ev r i a t w w'"
  using ServeHTTP_served [OF assms] by blast

lemma route_record_simps [simp]:
  "au_PolicyDecision (route_record L D ev a t r i) = decision_string (route_decision L D ev a t r i)"
  "au_ResourceType (route_record L D ev a t r i) = t"
  "au_Action (route_record L D ev a t r i) = a"
  "au_ActorRole (route_record L D ev a t r i) = id_Role i"
  "au_TenantID (route_record L D ev a t r i) = id_TenantID i"
  "au_PolicyRuleMatched (route_record L D ev a t r i) = dec_RuleMatched (route_decision L D ev a t r i)"
  "au_Timestamp (route_record L D ev a t r i) = Some (ev_audit_now ev)"
  by (simp_all add: route_record_def stamp_def enforce_record_def)

lemma decision_string_Allow [simp]: "decision_string d = DecisionAllow \<longleftrightarrow> dec_Allow d"
  by (simp add: decision_string_def DecisionAllow_def DecisionDeny_def)

lemma decision_string_Deny [simp]: "decision_string d = DecisionDeny \<longleftrightarrow> \<not> dec_Allow d"
  by (simp add: decision_string_def DecisionAllow_def DecisionDeny_def)

text \<open>With the default rules only admins may change keys.\<close>

lemma key_change_admin:
  assumes "eng_rules (d_Engine D) = DefaultRules" and "dec_Allow (route_decision L D ev a ''api_key'' r i)"
    and "adds_key a \<or> revokes_key a"
  shows "id_Role i = RoleAdmin"
proof -
  have "access_matrix (route_input L a ''api_key'' r i)"
    using assms(1,2) by (simp add: route_decision_def Evaluate_Allow_iff DefaultRules_deny_overrides)
  moreover have "a \<noteq> ActionRead"
    using assms(3) by (auto simp: adds_key_def revokes_key_def action_defs)
  ultimately show ?thesis
    by (auto simp: access_matrix_def Let_def route_input_def split: if_splits)
qed

lemma accounted_quiet: "accounted K w \<Longrightarrow> quiet w w' \<Longrightarrow> accounted K w'"
  by (auto simp: accounted_def quiet_def tenant_view_def intro: grows_db_ok)

lemma accounted_served:
  assumes acc: "accounted (l_Key L) w" and srv: "served L D ev r i a t w w'"
    and "audit_enabled (d_Auditor D)" and "eng_rules (d_Engine D) = DefaultRules"
  shows "accounted (l_Key L) w'"
proof -
  let ?K = "l_Key L" and ?rec = "route_record L D ev a t r i"
  have trail: "audit_trail (w_Log w') = audit_trail (w_Log w) @ [?rec]" and ok: "db_ok (w_Db w')"
    using srv acc assms(3) by (auto simp: served_def accounted_def intro: grows_db_ok)
  show ?thesis
  proof (cases "dec_Allow (route_decision L D ev a t r i) \<and> t = ''api_key''")
    case False
    then have "key_view (w_Db w') = key_view (w_Db w)"
      "w_Calls w' = w_Calls w + (if ran ?rec then 1 else 0)"
      using srv by (auto simp: served_def ran_def split: if_splits)
    with acc ok trail show ?thesis
      by (auto simp: accounted_def tenant_view_def intro: le_SucI)
  next
    case True
    then have kb: "keys_by ?K (id_TenantID i) (adds_key a) (revokes_key a) (w_Db w) (w_Db w')"
      and calls: "w_Calls w' = w_Calls w" and not_ran: "\<not> ran ?rec"
      using srv by (auto simp: served_def ran_def)
    have role: "adds_key a \<or> revokes_key a \<Longrightarrow> id_Role i = RoleAdmin"
      using key_change_admin [OF assms(4)] True by blast
    have view: "length (tenant_view t' (w_Db w')) \<le> length (tenant_view t' (w_Db w)) +
          (if key_record ?K adds_key t' ?rec then 1 else 0) \<and>
        length (filter (\<lambda>r. \<not> live r) (tenant_view t' (w_Db w'))) \<le>
          length (filter (\<lambda>r. \<not> live r) (tenant_view t' (w_Db w))) +
          (if key_record ?K revokes_key t' ?rec then 1 else 0)" for t'
    proof (cases "kl_uuid ?K (id_TenantID i) = Some t'")
      case own: True
      with kb acc role True show ?thesis by (auto simp: keys_by_def accounted_def key_record_def)
    next
      case other: False
      with kb acc show ?thesis by (auto simp: keys_by_def accounted_def)
    qed
    have old: "length (tenant_view t' (w_Db w)) \<le>
          length (filter (key_record ?K adds_key t') (audit_trail (w_Log w))) \<and>
        length (filter (\<lambda>r. \<not> live r) (tenant_view t' (w_Db w))) \<le>
          length (filter (key_record ?K revokes_key t') (audit_trail (w_Log w)))" for t'
      using acc by (simp add: accounted_def)
    have "length (tenant_view t' (w_Db w')) \<le>
          length (filter (key_record ?K adds_key t') (audit_trail (w_Log w'))) \<and>
        length (filter (\<lambda>r. \<not> live r) (tenant_view t' (w_Db w'))) \<le>
          length (filter (key_record ?K revokes_key t') (audit_trail (w_Log w')))" for t'
      using view [of t'] old [of t'] by (auto simp: trail)
    with acc ok calls not_ran show ?thesis by (simp add: accounted_def trail)
  qed
qed

lemma ServeHTTP_accounted:
  assumes "audit_enabled (d_Auditor D)" and "eng_rules (d_Engine D) = DefaultRules"
    and "accounted (l_Key L) w" and "ServeHTTP L D ev r w = (c', w')"
  shows "accounted (l_Key L) w'"
  using assms(4)
  by (cases rule: ServeHTTP_effect) (use assms accounted_quiet accounted_served in blast)+

lemma accounted_initial: "accounted K (initial_world rdb tenants)"
proof -
  have "tenant_view t (initial_db tenants) = []" for t
    by (simp add: tenant_view_def key_view_def initial_db_def)
  then show ?thesis by (simp add: accounted_def initial_world_def)
qed

subsection \<open>Complete records\<close>

lemma evaluateRules_named:
  "dec_Allow (evaluateRules e i) \<Longrightarrow> named_by e EffectAllow (dec_RuleMatched (evaluateRules e i))"
  "\<not> dec_Allow (evaluateRules e i) \<Longrightarrow>
   named_by e EffectDeny (dec_RuleMatched (evaluateRules e i)) \<or>
   dec_RuleMatched (evaluateRules e i) = RuleDefaultDeny"
  by (auto simp: evaluateRules_def named_by_def dest!: first_match_SomeD split: option.splits)

lemma Evaluate_named:
  "dec_Allow (Evaluate e sel i) \<Longrightarrow> named_by e EffectAllow (dec_RuleMatched (Evaluate e sel i))"
  "\<not> dec_Allow (Evaluate e sel i) \<Longrightarrow>
   named_by e EffectDeny (dec_RuleMatched (Evaluate e sel i)) \<or>
   dec_RuleMatched (Evaluate e sel i) \<in> {RuleCrossTenantDeny, RuleDefaultDeny, RuleEvalTimeout}"
  using evaluateRules_named [of e i]
  by (cases "cross_tenant i"; auto simp: Evaluate_cross_tenant Evaluate_within_tenant split: if_splits)+

lemma route_record_ok:
  assumes "(m, p, a, t) \<in> set route_policy" and "Valid (id_Role i)"
  shows "record_ok (d_Engine D) (route_record L D ev a t r i)"
proof -
  have "(a, t) \<in> (\<lambda>(_, _, a, t). (a, t)) ` set route_policy"
    using assms(1) by force
  with assms(2) Evaluate_named [of "d_Engine D" "ev_select ev" "route_input L a t r i"] show ?thesis
    unfolding record_ok_def
    by (cases "dec_Allow (route_decision L D ev a t r i)") (simp_all add: route_decision_def)
qed

text \<open>The trail only grows, by at most one record per request, and by complete records.\<close>

lemma ServeHTTP_trail:
  fixes w :: "'r World"
  assumes "ServeHTTP L D ev r w = (c', w')"
  shows "\<exists>rs. audit_trail (w_Log w') = audit_trail (w_Log w) @ rs \<and> length rs \<le> 1 \<and>
    (\<forall>rec \<in> set rs. record_ok (d_Engine D) rec)"
  using assms
proof (cases rule: ServeHTTP_effect)
  case quiet
  then show ?thesis by (simp add: quiet_def)
next
  case (served i a t)
  with route_record_ok [OF served(1,2)] show ?thesis
    by (simp add: served_def)
qed

lemma serve_all_trail:
  "\<exists>rs. audit_trail (w_Log (serve_all L D qs w)) = audit_trail (w_Log w) @ rs \<and> length rs \<le> length qs \<and>
    (\<forall>rec \<in> set rs. record_ok (d_Engine D) rec)"
proof (induction qs arbitrary: w)
  case Nil
  then show ?case by simp
next
  case (Cons q qs)
  obtain c' w' where step: "ServeHTTP L D (fst q) (snd q) w = (c', w')" by (metis prod.exhaust)
  obtain rs1 where rs1: "audit_trail (w_Log w') = audit_trail (w_Log w) @ rs1" "length rs1 \<le> 1"
      "\<forall>rec \<in> set rs1. record_ok (d_Engine D) rec"
    using ServeHTTP_trail [OF step] by blast
  obtain rs2 where rs2: "audit_trail (w_Log (serve_all L D qs w')) = audit_trail (w_Log w') @ rs2"
      "length rs2 \<le> length qs" "\<forall>rec \<in> set rs2. record_ok (d_Engine D) rec"
    using Cons.IH by blast
  from rs1 rs2 step show ?case
    by (intro exI [of _ "rs1 @ rs2"]) auto
qed

subsection \<open>The access log\<close>

definition access_lines :: "log_line list \<Rightarrow> log_line list" where
  "access_lines lines = filter (\<lambda>l. ln_Msg l = ''request'') lines"

lemma ServeHTTP_access:
  fixes w :: "'r World"
  assumes "lg_Level (d_Logger D) \<le> LevelInfo" and "ServeHTTP L D ev r w = (c', w')"
  shows "\<exists>as. access_lines (w_Log w') = access_lines (w_Log w) @
    [access_line D ev (request_id (ev_uuid ev) (fresh_ctx r)) as c']"
proof -
  obtain ls as where "w_Log w' = w_Log w @ ls @ [access_line D ev (request_id (ev_uuid ev) (fresh_ctx r)) as c']"
    and "\<forall>l \<in> set ls. ln_Msg l \<noteq> ''request''"
    using ServeHTTP_answers [OF refl assms(2)] assms(1) by auto
  then show ?thesis by (simp add: access_lines_def access_line_def)
qed

lemma serve_all_access:
  assumes "lg_Level (d_Logger D) \<le> LevelInfo"
  shows "length (access_lines (w_Log (serve_all L D qs w))) = length (access_lines (w_Log w)) + length qs"
proof (induction qs arbitrary: w)
  case Nil
  then show ?case by simp
next
  case (Cons q qs)
  obtain c' w' where step: "ServeHTTP L D (fst q) (snd q) w = (c', w')" by (metis prod.exhaust)
  from ServeHTTP_access [OF assms step] Cons.IH [of w'] step show ?case by auto
qed

subsection \<open>The key table\<close>

lemma ServeHTTP_grows: "ServeHTTP L D ev r w = (c', w') \<Longrightarrow> grows (w_Db w) (w_Db w')"
  by (erule ServeHTTP_effect) (simp_all add: quiet_def served_def)

lemma serve_all_grows: "grows (w_Db w) (w_Db (serve_all L D qs w))"
proof (rule serve_all_invariant [where I = "\<lambda>w'. grows (w_Db w) (w_Db w')"])
  show "grows (w_Db w) (w_Db w'')" if "grows (w_Db w) (w_Db w')" "ServeHTTP L D ev r w' = (c', w'')"
    for ev r w' c' w''
    using that ServeHTTP_grows grows_trans by blast
qed simp

text \<open>A key whose secret has the given digest is in the table, and revoked.\<close>

definition revoked_key :: "string \<Rightarrow> Db \<Rightarrow> bool" where
  "revoked_key h db \<longleftrightarrow> db_ok db \<and>
     (\<exists>row \<in> set (db_api_keys db). row_key_hash row = h \<and> row_revoked_at row \<noteq> None)"

lemma revoked_key_grows: "revoked_key h db \<Longrightarrow> grows db db' \<Longrightarrow> revoked_key h db'"
proof -
  assume "revoked_key h db" and g: "grows db db'"
  then obtain row where row: "db_ok db" "row \<in> set (db_api_keys db)" "row_key_hash row = h"
      "row_revoked_at row \<noteq> None"
    by (auto simp: revoked_key_def)
  with g have ok: "db_ok db'" "evolves db db'" by (simp_all add: grows_def)
  from ok(2) row(2) obtain row' where "row' \<in> set (db_api_keys db')" "row_evolves row row'"
    by (rule evolves_member)
  with ok(1) row(3,4) row_evolves_fields [of row row'] show "revoked_key h db'"
    by (auto simp: revoked_key_def)
qed

lemma presented_revoked:
  assumes "revoked_key (hashAPIKey (kl_sha256 (l_Key L)) secret) (w_Db w)"
    and "bearerToken (GetHeader (fresh_ctx r) ''Authorization'') = None"
    and "GetHeader (fresh_ctx r) HeaderAPIKey = secret"
  shows "\<not> is_ok (presented L D ev r w)"
proof -
  have "\<not> is_ok (fst (Resolve (l_Key L) (ev_resolve ev) secret (w_Db w)))"
    using assms(1) unfolding revoked_key_def by (metis Resolve_revoked)
  moreover have "GetHeader (entry_ctx D ev r) k = GetHeader (fresh_ctx r) k" for k
    by (simp add: GetHeader_def entry_ctx_def)
  ultimately show ?thesis
    using assms(2,3) by (simp add: presented_def resolveIdentity_def resolver_def Let_def)
qed

lemma matched_revoke:
  assumes "d_APIKeys D" and "req_Method r = ''DELETE''" and "req_FullPath r = ''/v1/api-keys/:id''"
  shows "matched L D ev r = v1 L D ev (gw_Enforce L D ev ActionDelete ''api_key''
    (APIKeyHandler_Revoke (\<lambda>t i. on_db (Revoke (l_Key L) (ev_store ev) t i))))"
  using assms by (simp add: matched_def NewRouter_def public_routes_def auth_Register_def protected_routes_def
      registerStubRoutes_def registerAPIKeyRoutes_def)

lemma grows_row:
  assumes "grows db db'" and "db_ok db" and "row \<in> set (db_api_keys db)"
  obtains row' where "row' \<in> set (db_api_keys db')" "row_id row' = row_id row"
    "row_key_hash row' = row_key_hash row"
proof -
  have "evolves db db'" using assms(1,2) by (simp add: grows_def)
  then obtain row' where "row' \<in> set (db_api_keys db')" "row_evolves row row'"
    using assms(3) by (rule evolves_member)
  with row_evolves_fields [OF this(2)] that show thesis by simp
qed

lemma handler_Revoke_204:
  assumes "c_Status (fst (APIKeyHandler_Revoke (\<lambda>t i. on_db (Revoke K env t i)) c w)) = 204"
    and "FromGin c = Some i" and "db_ok (w_Db w)" and "row \<in> set (db_api_keys (w_Db w))"
    and "kl_uuid K (Param c ''id'') = Some (row_id row)"
  shows "revoked_key (row_key_hash row)
    (w_Db (snd (APIKeyHandler_Revoke (\<lambda>t i. on_db (Revoke K env t i)) c w)))"
proof -
  obtain e db' where rv: "Revoke K env (id_TenantID i) (Param c ''id'') (w_Db w) = (e, db')"
    by (metis prod.exhaust)
  have "e = None"
    using assms(1,2) rv
    by (auto simp: APIKeyHandler_Revoke_def on_db_def writeStoreError_status split: option.splits auth_error.splits)
  from Revoke_revokes [OF assms(3) rv [unfolded this] assms(4,5)]
  have "\<exists>row' \<in> set (db_api_keys db'). row_key_hash row' = row_key_hash row \<and> row_revoked_at row' \<noteq> None"
    by (rule bexI [rotated]) simp
  moreover have "db_ok db'"
    using grows_db_ok [OF grows_step [OF step_Revoke] assms(3)] rv by (metis snd_conv)
  ultimately show ?thesis
    using assms(2) rv \<open>e = None\<close> by (simp add: APIKeyHandler_Revoke_def on_db_def revoked_key_def)
qed

text \<open>An answer 204 to a revocation means that the key is revoked.\<close>

lemma ServeHTTP_revoke:
  fixes w :: "'r World"
  assumes "d_APIKeys D" and "req_Method r = ''DELETE''" and "req_FullPath r = ''/v1/api-keys/:id''"
    and "ServeHTTP L D ev r w = (c', w')" and "c_Status c' = 204" and "db_ok (w_Db w)"
    and "row \<in> set (db_api_keys (w_Db w))"
    and "kl_uuid (l_Key L) (Param (fresh_ctx r) ''id'') = Some (row_id row)"
  shows "revoked_key (row_key_hash row) (w_Db w')"
proof -
  let ?k = "APIKeyHandler_Revoke (\<lambda>t i. on_db (Revoke (l_Key L) (ev_store ev) t i)) :: 'r World handler"
  let ?h = "gw_Enforce L D ev ActionDelete ''api_key'' ?k"
  have m: "matched L D ev r = v1 L D ev ?h" by (rule matched_revoke [OF assms(1-3)])
  have "entry_ctx D ev r = entry_ctx D ev r" ..
  then show ?thesis
  proof (cases rule: v1_phase [where w = w and L = L])
    case (refused c1 w1)
    with m have "matched L D ev r (entry_ctx D ev r) w = (c1, w1)" by simp
    from ServeHTTP_result [OF this assms(4)] refused(2) assms(5) show ?thesis by auto
  next
    case (admitted i c1 w1)
    let ?allow = "dec_Allow (route_decision L D ev ActionDelete ''api_key'' r i)"
    obtain c2 w2 where c2: "FromGin c2 = Some i" "c_Request c2 = r"
      and aud: "audited D (route_record L D ev ActionDelete ''api_key'' r i) w1 w2"
      and run: "\<And>k. gw_Enforce L D ev ActionDelete ''api_key'' k c1 w1 = (if ?allow then k c2 w2
        else (Abort 403 CodeForbidden (''denied by policy: '' @
          dec_Reason (route_decision L D ev ActionDelete ''api_key'' r i)) c2, w2))"
      using gw_Enforce_phase [OF admitted(4-6)] by metis
    obtain c3 w3 where h: "?h c1 w1 = (c3, w3)" by (metis prod.exhaust)
    with m admitted(8) have "matched L D ev r (entry_ctx D ev r) w = (c3, w3)" by simp
    from ServeHTTP_result [OF this assms(4)] have fin: "c' = c3" "quiet w3 w'" by simp_all
    then have k: "?k c2 w2 = (c3, w3)"
      using h run [of ?k] assms(5) by (auto split: if_splits)
    have g: "grows (w_Db w) (w_Db w2)"
      using admitted(1) aud by (auto simp: quiet_def audited_def intro: grows_trans)
    obtain row2 where row2: "row2 \<in> set (db_api_keys (w_Db w2))" "row_id row2 = row_id row"
        "row_key_hash row2 = row_key_hash row"
      using grows_row [OF g assms(6,7)] by blast
    have "Param c2 ''id'' = Param (fresh_ctx r) ''id''"
      using c2(2) by (simp add: Param_def fresh_ctx_def)
    with handler_Revoke_204 [of "l_Key L" "ev_store ev" c2 w2 i row2] k c2(1) row2 assms(5,8)
      grows_db_ok [OF g assms(6)] fin(1)
    have "revoked_key (row_key_hash row) (w_Db w3)" by simp
    then show ?thesis
      using fin(2) by (auto simp: quiet_def intro: revoked_key_grows)
  qed
qed

end
