(* ===== verification/Gateway_Expiry.thy ===== *)
theory Gateway_Expiry
  imports Gateway_Runs
begin

text \<open>
  The response store of the gateway as time passes: requests of
  \<open>internal/gateway/router.go\<close> with time elapsing at the Redis server between them. A response that
  the idempotency middleware stored survives every request in between, whatever route it takes,
  and is replayed until its time to live has passed.
\<close>

section \<open>Definitions\<close>

text \<open>Time passes at the server.\<close>

definition aged :: "'r RedisTime \<Rightarrow> int \<Rightarrow> 'r World \<Rightarrow> 'r World" where
  "aged R d w = w\<lparr>w_Redis := (fst (w_Redis w), rt_elapse R d (snd (w_Redis w)))\<rparr>"

text \<open>Requests, each after a delay and in an environment of its own.\<close>

fun serve_timed :: "Libs \<Rightarrow> Deps \<Rightarrow> 'r RedisTime \<Rightarrow> (int \<times> Env \<times> Request) list \<Rightarrow> 'r World \<Rightarrow> 'r World" where
  "serve_timed L D R [] w = w"
| "serve_timed L D R ((d, ev, r) # qs) w =
     serve_timed L D R qs (snd (ServeHTTP L D ev r (aged R d w)))"

definition elapsed :: "(int \<times> Env \<times> Request) list \<Rightarrow> int" where
  "elapsed qs = sum_list (map fst qs)"

subsection \<open>Specification\<close>

text \<open>A tenant id that the key structure of the cache separates from every other: uuids are.\<close>

definition separable :: "string \<Rightarrow> bool" where
  "separable t \<longleftrightarrow> CHR '':'' \<notin> set t"

text \<open>Delays are not negative, and the identities that present themselves have such tenants.\<close>

fun timed_ok :: "Libs \<Rightarrow> Deps \<Rightarrow> 'r RedisTime \<Rightarrow> (int \<times> Env \<times> Request) list \<Rightarrow> 'r World \<Rightarrow> bool" where
  "timed_ok L D R [] w = True"
| "timed_ok L D R ((d, ev, r) # qs) w =
     (0 \<le> d \<and>
      (case presented L D ev r (aged R d w) of Inl err \<Rightarrow> True | Inr i \<Rightarrow> separable (id_TenantID i)) \<and>
      timed_ok L D R qs (snd (ServeHTTP L D ev r (aged R d w))))"

text \<open>The key of the store for a tenant's order with an idempotency key.\<close>

definition order_key :: "string \<Rightarrow> string \<Rightarrow> string" where
  "order_key tenant key = Key tenant (''idem:/v1/orders:'' @ key)"

text \<open>A decodable response under a key, with the time it has left.\<close>

definition cached :: "Libs \<Rightarrow> 'r RedisTime \<Rightarrow> string \<Rightarrow> storedResponse \<Rightarrow> int \<Rightarrow> 'r redis_limiter \<Rightarrow> bool" where
  "cached L R k sr n s \<longleftrightarrow> redis_expires (fst s) R \<and> redis_atomic_eval (fst s) \<and>
     (\<exists>v. rt_entry R k (snd s) = (Some v, Some n) \<and> hl_Unmarshal (l_Http L) v = Some sr)"

section \<open>Lemmas\<close>

lemma redis_expires_Get:
  "redis_expires C R \<Longrightarrow> rc_Get C k r = (case rt_value R k r of None \<Rightarrow> RNil | Some v \<Rightarrow> RVal v) \<or>
     (\<exists>e. rc_Get C k r = RErr e)"
  unfolding redis_expires_def by (drule conjunct1) (elim allE)

lemma redis_expires_Set:
  "redis_expires C R \<Longrightarrow> rc_Set C k v ttl r = (None, r') \<Longrightarrow> 0 < Milliseconds ttl \<Longrightarrow>
   rt_entry R k r' = (Some v, Some (Milliseconds ttl))"
  unfolding redis_expires_def by (drule conjunct2, drule conjunct1) simp

lemma redis_expires_elapse:
  "redis_expires C R \<Longrightarrow> 0 \<le> d \<Longrightarrow> rt_PTTL R k r = Some n \<Longrightarrow>
   rt_entry R k (rt_elapse R d r) = (if d < n then (rt_value R k r, Some (n - d)) else (None, None))"
  unfolding redis_expires_def by blast

lemma idem_ratelimit_distinct:
  "separable t \<Longrightarrow> separable t' \<Longrightarrow> Key t (''idem:'' @ x) \<noteq> Key t' (''ratelimit:'' @ y)"
  by (simp add: Key_inj separable_def)

lemma script_entry:
  assumes "redis_expires C R" and "k' \<noteq> k"
  shows "rt_entry R k' (snd (slidingWindowScript C k now window limit member r)) = rt_entry R k' r"
  using assms unfolding redis_expires_def slidingWindowScript_def Let_def by auto

lemma limiter_entry:
  assumes "redis_expires (fst s) R" and "redis_atomic_eval (fst s)" and "k' \<noteq> Key t x"
  shows "fst (snd (redis_limiter_Allow e t x limit window s)) = fst s \<and>
    rt_entry R k' (snd (snd (redis_limiter_Allow e t x limit window s))) = rt_entry R k' (snd s)"
proof -
  let ?script = "slidingWindowScript (fst s) (Key t x) (fst e) (Milliseconds window) limit (snd e)"
  obtain v r' where ev: "rc_Eval (fst s) ?script (snd s) = (v, r')" by (cases "rc_Eval (fst s) ?script (snd s)")
  with assms(2) have "r' = snd s \<or> r' = snd (?script (snd s))"
    unfolding redis_atomic_eval_def by (cases v) (metis snd_conv)+
  then have "rt_entry R k' r' = rt_entry R k' (snd s)"
    using script_entry [OF assms(1,3)] by auto
  then show ?thesis
    using ev by (auto simp: redis_limiter_Allow_def RedisLimiter_Allow_def Redis_Eval_def Let_def split: prod.splits sum.splits)
qed

lemma cached_limited:
  assumes "cached L R k sr n s" and "k \<noteq> Key (id_TenantID i) (''ratelimit:'' @ req_FullPath r)"
  shows "cached L R k sr n (rate_limited D ev r i s)"
  using assms limiter_entry [of s R k] by (simp add: cached_def rate_limited_def)

lemma cached_Get:
  assumes "cached L R (Key t x) sr n (w_Redis w)"
  shows "(\<exists>v. w_Get t x w = Inr v \<and> hl_Unmarshal (l_Http L) v = Some sr) \<or> (\<exists>e. w_Get t x w = Inl (CacheErr e))"
proof -
  from assms obtain v where "rt_value R (Key t x) (snd (w_Redis w)) = Some v" "hl_Unmarshal (l_Http L) v = Some sr"
    and "redis_expires (fst (w_Redis w)) R" by (auto simp: cached_def rt_entry_def)
  then have "rc_Get (fst (w_Redis w)) (Key t x) (snd (w_Redis w)) = RVal v \<or>
      (\<exists>e. rc_Get (fst (w_Redis w)) (Key t x) (snd (w_Redis w)) = RErr e)"
    using redis_expires_Get [of "fst (w_Redis w)" R "Key t x" "snd (w_Redis w)"] by simp
  with \<open>hl_Unmarshal (l_Http L) v = Some sr\<close> show ?thesis
    by (auto simp: w_Get_def redis_get_def Redis_Get_def)
qed

lemma cached_Set:
  assumes "cached L R k sr n (w_Redis w)" and "k \<noteq> Key t x"
  shows "cached L R k sr n (w_Redis (snd (w_Set t x v ttl w)))"
  using assms unfolding cached_def redis_expires_def
  by (auto simp: w_Set_def redis_set_def Redis_Set_def split: prod.splits) (metis snd_conv)+

lemma redis_emit [simp]: "w_Redis (w_emit lg lvl msg as w) = w_Redis w"
  by (simp add: w_emit_def)

lemma redis_Write [simp]: "w_Redis (snd (w_Write a now rec w)) = w_Redis w"
  by (simp add: snd_w_Write)

lemma redis_Enforce:
  assumes "\<And>c w. w_Redis (snd (k c w)) = w_Redis w"
  shows "w_Redis (snd (gw_Enforce L D ev a t k c w)) = w_Redis w"
  using assms by (auto simp: gw_Enforce_def Enforce_def Let_def split: option.splits)

lemma cached_idem_store:
  assumes "cached L R k sr n (w_Redis w)" and "\<And>i. FromGin c = Some i \<Longrightarrow> k \<noteq> Key (id_TenantID i) (idem_suffix c)"
  shows "cached L R k sr n (w_Redis (idem_store H w_Set ttl w_emit c c' w))"
  using assms cached_Set [OF assms(1)]
  by (auto simp: idem_store_def Let_def split: option.splits prod.splits) (metis snd_conv)+

text \<open>The middleware does not overwrite a decodable response: it replays it, or runs without storing.\<close>

lemma cached_Idempotency:
  assumes "cached L R k sr n (w_Redis w)" and "\<And>c w. w_Redis (snd (next c w)) = w_Redis w"
  shows "cached L R k sr n (w_Redis (snd (gw_Idempotency L D next c w)))"
proof -
  let ?look = "idem_lookup (l_Http L) w_Get w_emit c w"
  obtain out w1 where look: "?look = (out, w1)" by (cases ?look)
  then have w1: "w_Redis w1 = w_Redis w"
    by (auto simp: idem_lookup_def split: if_splits option.splits sum.splits cache_error.splits)
  have other: "k \<noteq> Key (id_TenantID i) (idem_suffix c)" if "out = Execute" "FromGin c = Some i" for i
  proof
    assume "k = Key (id_TenantID i) (idem_suffix c)"
    with cached_Get [of L R "id_TenantID i" "idem_suffix c" sr n w] assms(1) look that show False
      by (auto simp: idem_lookup_def split: if_splits option.splits)
  qed
  show ?thesis
  proof (cases out)
    case Execute
    obtain c' w2 where run: "next c w1 = (c', w2)" by (cases "next c w1")
    then have "w_Redis w2 = w_Redis w" using assms(2) [of c w1] w1 by simp
    with cached_idem_store [of L R k sr n w2 c] assms(1) other Execute look run show ?thesis
      by (simp add: gw_Idempotency_def Idempotency_def)
  qed (use look w1 assms in \<open>simp_all add: gw_Idempotency_def Idempotency_def\<close>)
qed

lemma serve_keeps_cached:
  fixes w :: "'r World"
  assumes c: "cached L R k sr n (w_Redis w)" and k: "k = Key t (''idem:'' @ x)" and t: "separable t"
    and pres: "\<And>i. presented L D ev r w = Inr i \<Longrightarrow> separable (id_TenantID i)"
  shows "cached L R k sr n (w_Redis (snd (ServeHTTP L D ev r w)))"
proof -
  have lim: "cached L R k sr n (rate_limited D ev r i (w_Redis w))" if "presented L D ev r w = Inr i" for i
    using cached_limited [OF c] idem_ratelimit_distinct [OF t pres [OF that]] k by simp
  have "cached L R k sr n (w_Redis (snd (matched L D ev r (entry_ctx D ev r) w)))"
  proof (cases rule: matched_cases [of L D ev r, where 'r = 'r])
    case none
    with c show ?thesis by simp
  next
    case (public h)
    with public_quiet [OF public(1)] c show ?thesis by simp
  next
    case (protected h)
    from protected(1) obtain a u g where g: "modest (l_Key L) a u g"
      and h: "h = gw_Enforce L D ev a u g \<or> h = gw_Idempotency L D (gw_Enforce L D ev a u g)"
      by (rule protected_shape)
    have "entry_ctx D ev r = entry_ctx D ev r" ..
    then show ?thesis
    proof (cases rule: v1_phase [where w = w and L = L])
      case (refused c1 w1)
      with protected(2) lim c show ?thesis by (cases "presented L D ev r w") simp_all
    next
      case (admitted i c1 w1)
      have "cached L R k sr n (w_Redis w1)" using lim admitted(2,9) by simp
      moreover have "w_Redis (snd (gw_Enforce L D ev a u g c w)) = w_Redis w" for c and w :: "'r World"
        by (rule redis_Enforce) (rule modest_redis [OF g])
      ultimately show ?thesis
        using h protected(2) admitted(8) cached_Idempotency [of L R k sr n w1 "gw_Enforce L D ev a u g" D c1] by auto
    qed
  qed
  then show ?thesis by (simp add: ServeHTTP_eq split_beta)
qed

lemma cached_aged:
  assumes "cached L R k sr n (w_Redis w)" and "0 \<le> d" and "d < n"
  shows "cached L R k sr (n - d) (w_Redis (aged R d w))"
proof -
  from assms(1) obtain v where "rt_value R k (snd (w_Redis w)) = Some v" "rt_PTTL R k (snd (w_Redis w)) = Some n"
    "hl_Unmarshal (l_Http L) v = Some sr" and ex: "redis_expires (fst (w_Redis w)) R"
    by (auto simp: cached_def rt_entry_def)
  moreover from this have "rt_entry R k (rt_elapse R d (snd (w_Redis w))) = (Some v, Some (n - d))"
    using redis_expires_elapse [OF ex assms(2)] assms(3) by simp
  ultimately show ?thesis using assms(1) by (simp add: cached_def aged_def)
qed

lemma elapsed_Cons [simp]: "elapsed ((d, ev, r) # qs) = d + elapsed qs"
  by (simp add: elapsed_def)

lemma elapsed_nonneg: "timed_ok L D R qs w \<Longrightarrow> 0 \<le> elapsed qs"
  by (induction qs arbitrary: w) (auto simp: elapsed_def)

lemma timed_keeps_cached:
  fixes w :: "'r World"
  assumes "cached L R k sr n (w_Redis w)" and "k = Key t (''idem:'' @ x)" and "separable t"
    and "timed_ok L D R qs w" and "elapsed qs < n"
  shows "cached L R k sr (n - elapsed qs) (w_Redis (serve_timed L D R qs w))"
  using assms(1,4,5)
proof (induction qs arbitrary: n w)
  case Nil
  then show ?case by (simp add: elapsed_def)
next
  case (Cons q qs)
  obtain d ev r where q: "q = (d, ev, r)" by (cases q)
  let ?w = "snd (ServeHTTP L D ev r (aged R d w))"
  have ok: "0 \<le> d" "timed_ok L D R qs ?w" using Cons.prems(2) q by simp_all
  have "d < n" using Cons.prems(3) q elapsed_nonneg [OF ok(2)] by simp
  from cached_aged [OF Cons.prems(1) ok(1) this] have "cached L R k sr (n - d) (w_Redis ?w)"
    using Cons.prems(2) q by (intro serve_keeps_cached [OF _ assms(2,3)]) (auto split: sum.splits)
  from Cons.IH [OF this ok(2)] Cons.prems(3) q show ?case by (simp add: diff_diff_eq)
qed

text \<open>A request for a response that is stored: limited, or answered with it.\<close>

lemma serve_replays:
  fixes w :: "'r World"
  assumes c: "cached L R (order_key t key) sr n (w_Redis w)" and t: "separable t"
    and r: "is_order_create r" and key: "GetHeader (fresh_ctx r) HeaderIdempotencyKey = key" "key \<noteq> ''''"
    and pres: "presented L D ev r w = Inr i" "id_TenantID i = t"
    and up: "\<And>e. rc_Get (fst (w_Redis w)) (order_key t key) (snd (rate_limited D ev r i (w_Redis w))) \<noteq> RErr e"
    and run: "ServeHTTP L D ev r w = (c', w')"
  shows "quiet w w' \<and> (c_Status c' = 429 \<or>
    c_Status c' = sr_Status sr \<and> response_bytes (l_Http L) c' = sr_Body sr \<and>
    content_type (l_Http L) c' = sr_ContentType sr \<and> c_Header c' ''Idempotent-Replay'' = Some ''true'')"
proof -
  obtain c2 w2 where mt: "matched L D ev r (entry_ctx D ev r) w = (c2, w2)"
    by (cases "matched L D ev r (entry_ctx D ev r) w")
  have c': "c' = c2" and q: "quiet w2 w'" using run mt by (auto simp: ServeHTTP_eq intro: quiet_emit)
  have "(req_Method r, req_FullPath r, ActionCreate, ''order'') \<in> set route_policy"
    using r by (simp add: is_order_create_def route_policy_def)
  then obtain g where g: "(matched L D ev r :: 'r World handler) = v1 L D ev (gw_Idempotency L D g)"
    by (rule matched_guarded [of r ActionCreate "''order''" D L ev, where 'r = 'r]) (use r in auto)
  have "entry_ctx D ev r = entry_ctx D ev r" ..
  then have "quiet w w2 \<and> (c_Status c2 = 429 \<or>
    c_Status c2 = sr_Status sr \<and> response_bytes (l_Http L) c2 = sr_Body sr \<and>
    content_type (l_Http L) c2 = sr_ContentType sr \<and> c_Header c2 ''Idempotent-Replay'' = Some ''true'')"
  proof (cases rule: v1_phase [where w = w and L = L])
    case (refused c1 w1)
    with mt g pres(1) show ?thesis by auto
  next
    case (admitted j c1 w1)
    have j: "j = i" using admitted(2) pres(1) by simp
    have suffix: "idem_suffix c1 = ''idem:/v1/orders:'' @ key" "GetHeader c1 HeaderIdempotencyKey = key"
      using admitted(5) r key by (simp_all add: idem_suffix_def GetHeader_def is_order_create_def fresh_ctx_def)
    have "cached L R (order_key t key) sr n (w_Redis w1)"
      using cached_limited [OF c, of i r] idem_ratelimit_distinct [OF t t, of "''/v1/orders:'' @ key"] pres(2) admitted(9) j
      by (simp add: order_key_def)
    moreover have "fst (w_Redis w1) = fst (w_Redis w)"
      using admitted(9) by (simp add: rate_limited_def redis_limiter_Allow_def split: prod.splits)
    with up admitted(9) j have "w_Get t (idem_suffix c1) w1 \<noteq> Inl (CacheErr e)" for e
      by (auto simp: w_Get_def redis_get_def Redis_Get_def suffix order_key_def split: redis_reply.splits)
    ultimately obtain v where "w_Get (id_TenantID j) (idem_suffix c1) w1 = Inr v" "hl_Unmarshal (l_Http L) v = Some sr"
      using cached_Get [of L R t "idem_suffix c1" sr n w1] pres(2) j suffix(1) by (auto simp: order_key_def)
    from Idempotency_hit [where get = w_Get, OF _ admitted(4) this] suffix(2) key(2)
    have "gw_Idempotency L D g c1 w1 = (replay sr c1, w1)" by (simp add: gw_Idempotency_def)
    with mt g admitted(1,8) have "c2 = replay sr c1" "quiet w w2" by auto
    with admitted(7,10) show ?thesis by (simp add: response_bytes_replay content_type_replay)
  qed
  with c' q show ?thesis by (blast intro: quiet_trans)
qed

text \<open>Once the time to live has passed the store misses again.\<close>

lemma expired_misses:
  assumes "cached L R k sr n (w_Redis w)" and "0 \<le> d" and "n \<le> d" and "k = Key t x"
  shows "w_Get t x (aged R d w) = Inl ErrCacheMiss \<or> (\<exists>e. w_Get t x (aged R d w) = Inl (CacheErr e))"
proof -
  from assms(1) have "rt_PTTL R k (snd (w_Redis w)) = Some n" and ex: "redis_expires (fst (w_Redis w)) R"
    by (auto simp: cached_def rt_entry_def)
  from redis_expires_elapse [OF ex assms(2) this(1)] assms(3)
  have "rt_value R k (rt_elapse R d (snd (w_Redis w))) = None" by (simp add: rt_entry_def)
  with redis_expires_Get [OF ex, of k "rt_elapse R d (snd (w_Redis w))"]
  have "rc_Get (fst (w_Redis w)) k (rt_elapse R d (snd (w_Redis w))) = RNil \<or>
      (\<exists>e. rc_Get (fst (w_Redis w)) k (rt_elapse R d (snd (w_Redis w))) = RErr e)" by simp
  then show ?thesis using assms(4) by (auto simp: w_Get_def redis_get_def Redis_Get_def aged_def)
qed

subsection \<open>The first request\<close>

lemma matched_order:
  "is_order_create r \<Longrightarrow>
   matched L D ev r = v1 L D ev (gw_Idempotency L D (gw_Enforce L D ev ActionCreate ''order'' stub_handle))"
  by (simp add: is_order_create_def matched_def NewRouter_def public_routes_def auth_Register_def
      protected_routes_def registerStubRoutes_def)

lemma redis_stub [simp]: "w_Redis (snd (stub_handle c w)) = w_Redis w"
  by (simp add: stub_handle_def Let_def)

text \<open>What a middleware that missed leaves in the store, when the write succeeds.\<close>

lemma stored_cached:
  assumes ex: "redis_expires (fst (w_Redis w)) R" "redis_atomic_eval (fst (w_Redis w))"
    and ttl: "0 < Milliseconds ttl" and H: "json_roundtrip (l_Http L)"
    and actor: "FromGin c = Some i" and fresh: "c_Written c = []"
    and status: "200 \<le> c_Status c'" "c_Status c' < 500"
    and valid: "ValidString (response_bytes (l_Http L) c')" "ValidString (content_type (l_Http L) c')"
    and set_ok: "\<And>v. fst (rc_Set (fst (w_Redis w)) (Key (id_TenantID i) (idem_suffix c)) v ttl (snd (w_Redis w))) = None"
  shows "cached L R (Key (id_TenantID i) (idem_suffix c))
    \<lparr>sr_Status = c_Status c', sr_Body = response_bytes (l_Http L) c', sr_ContentType = content_type (l_Http L) c'\<rparr>
    (Milliseconds ttl) (w_Redis (idem_store (l_Http L) w_Set ttl w_emit c c' w))"
proof -
  let ?k = "Key (id_TenantID i) (idem_suffix c)"
  let ?sr = "\<lparr>sr_Status = c_Status c', sr_Body = response_bytes (l_Http L) c',
      sr_ContentType = content_type (l_Http L) c'\<rparr>"
  obtain b where b: "hl_Marshal (l_Http L) ?sr = Some b" "hl_Unmarshal (l_Http L) b = Some ?sr"
    using H valid unfolding json_roundtrip_def by (metis storedResponse.select_convs(2,3))
  obtain r' where set: "rc_Set (fst (w_Redis w)) ?k b ttl (snd (w_Redis w)) = (None, r')"
    using set_ok by (metis prod.exhaust_sel)
  then have "w_Redis (idem_store (l_Http L) w_Set ttl w_emit c c' w) = (fst (w_Redis w), r')"
    using actor status b(1) fresh
    by (simp add: idem_store_def Let_def captured_fresh w_Set_def redis_set_def Redis_Set_def)
  moreover have "rt_entry R ?k r' = (Some b, Some (Milliseconds ttl))"
    by (rule redis_expires_Set [OF ex(1) set ttl])
  ultimately show ?thesis using ex b(2) by (simp add: cached_def)
qed

text \<open>Behind the enforcement, an order handler that ran answered 201.\<close>

lemma order_ran:
  fixes w :: "'r World"
  assumes r: "is_order_create r" and c: "FromGin c = Some i" "c_Request c = r"
      "get_string c RequestIDKey = get_string (entry_ctx D ev r) RequestIDKey"
    and g: "gw_Enforce L D ev ActionCreate ''order'' stub_handle c w = (c', w')" and ran: "w_Calls w' \<noteq> w_Calls w"
  shows "c_Status c' = 201"
proof -
  let ?d = "route_decision L D ev ActionCreate ''order'' r i"
  from c obtain c2 w2 where c2: "c_Request c2 = r" and "audited D (route_record L D ev ActionCreate ''order'' r i) w w2"
    and e: "\<And>k. gw_Enforce L D ev ActionCreate ''order'' k c w =
      (if dec_Allow ?d then k c2 w2 else (Abort 403 CodeForbidden (''denied by policy: '' @ dec_Reason ?d) c2, w2))"
    by (rule gw_Enforce_phase [where w = w and L = L and a = ActionCreate and t = "''order''"]) metis
  with g ran have "(c', w') = stub_handle c2 w2" by (auto simp: audited_def split: if_splits)
  then show ?thesis using r c2 by (auto simp: stub_handle_def Let_def is_order_create_def)
qed

text \<open>An order creation that finds no stored response and that the engine denies.\<close>

lemma serve_order_denied:
  fixes w :: "'r World"
  assumes r: "is_order_create r" and key: "GetHeader (fresh_ctx r) HeaderIdempotencyKey = key" "key \<noteq> ''''"
    and pres: "presented L D ev r w = Inr i"
    and deny: "\<not> dec_Allow (route_decision L D ev ActionCreate ''order'' r i)"
    and miss: "rc_Get (fst (w_Redis w)) (order_key (id_TenantID i) key) (snd (rate_limited D ev r i (w_Redis w))) = RNil"
    and run: "ServeHTTP L D ev r w = (c', w')"
  shows "c_Status c' = 429 \<and> quiet w w' \<or>
    c_Status c' = 403 \<and> audited D (route_record L D ev ActionCreate ''order'' r i) w w'"
proof -
  let ?g = "gw_Enforce L D ev ActionCreate ''order'' stub_handle :: 'r World handler"
  let ?d = "route_decision L D ev ActionCreate ''order'' r i"
  obtain c2 w2 where mt: "matched L D ev r (entry_ctx D ev r) w = (c2, w2)"
    by (cases "matched L D ev r (entry_ctx D ev r) w")
  have c': "c' = c2" and q: "quiet w2 w'" using run mt by (auto simp: ServeHTTP_eq intro: quiet_emit)
  have "entry_ctx D ev r = entry_ctx D ev r" ..
  then show ?thesis
  proof (cases rule: v1_phase [where w = w and L = L])
    case (refused c1 w1)
    with mt c' q pres show ?thesis by (auto simp: matched_order [OF r] intro: quiet_trans)
  next
    case (admitted j c1 w1)
    have j: "j = i" using admitted(2) pres by simp
    have hdr: "idem_suffix c1 = ''idem:/v1/orders:'' @ key" "GetHeader c1 HeaderIdempotencyKey = key"
      using admitted(5) r key by (simp_all add: idem_suffix_def GetHeader_def is_order_create_def fresh_ctx_def)
    have "fst (w_Redis w1) = fst (w_Redis w)"
      using admitted(9) by (simp add: rate_limited_def redis_limiter_Allow_def split: prod.splits)
    then have "w_Get (id_TenantID i) (idem_suffix c1) w1 = Inl ErrCacheMiss"
      using miss admitted(9) j by (simp add: w_Get_def redis_get_def Redis_Get_def hdr order_key_def)
    then have idem: "gw_Idempotency L D ?g c1 w1 = (case ?g c1 w1 of (c3, w3) \<Rightarrow>
        (c3, idem_store (l_Http L) w_Set (gc_IdempotencyTTL (cfg_Gateway (d_Config D))) w_emit c1 c3 w3))"
      using Idempotency_miss [where get = w_Get, OF _ admitted(4)] hdr(2) key(2) j by (simp add: gw_Idempotency_def)
    obtain c3 w3 where aud: "audited D (route_record L D ev ActionCreate ''order'' r i) w1 w3"
      and g: "?g c1 w1 = (Abort 403 CodeForbidden (''denied by policy: '' @ dec_Reason ?d) c3, w3)"
      using gw_Enforce_phase [OF admitted(4-6), where w = w1 and L = L and a = ActionCreate and t = "''order''"]
        deny j by metis
    have "c2 = Abort 403 CodeForbidden (''denied by policy: '' @ dec_Reason ?d) c3" and "quiet w3 w2"
      using idem g mt admitted(8) quiet_idem_store [of w3] by (auto simp: matched_order [OF r])
    then show ?thesis
      using c' audited_quiet [OF audited_quiet [OF quiet_audited [OF admitted(1) aud]] q] by simp
  qed
qed

lemma serve_first_cached:
  fixes w :: "'r World"
  assumes ex: "redis_expires (fst (w_Redis w)) R" "redis_atomic_eval (fst (w_Redis w))"
    and ttl: "0 < Milliseconds (gc_IdempotencyTTL (cfg_Gateway (d_Config D)))" and H: "json_roundtrip (l_Http L)"
    and r: "is_order_create r" and key: "GetHeader (fresh_ctx r) HeaderIdempotencyKey = key" "key \<noteq> ''''"
    and pres: "presented L D ev r w = Inr i"
    and miss: "rc_Get (fst (w_Redis w)) (order_key (id_TenantID i) key) (snd (rate_limited D ev r i (w_Redis w))) = RNil"
    and set_ok: "\<And>v. fst (rc_Set (fst (w_Redis w)) (order_key (id_TenantID i) key) v
        (gc_IdempotencyTTL (cfg_Gateway (d_Config D))) (snd (rate_limited D ev r i (w_Redis w)))) = None"
    and run: "ServeHTTP L D ev r w = (c', w')" and ran: "w_Calls w' \<noteq> w_Calls w"
    and valid: "ValidString (response_bytes (l_Http L) c')" "ValidString (content_type (l_Http L) c')"
  shows "c_Status c' = 201 \<and> cached L R (order_key (id_TenantID i) key)
    \<lparr>sr_Status = c_Status c', sr_Body = response_bytes (l_Http L) c', sr_ContentType = content_type (l_Http L) c'\<rparr>
    (Milliseconds (gc_IdempotencyTTL (cfg_Gateway (d_Config D)))) (w_Redis w')"
proof -
  let ?g = "gw_Enforce L D ev ActionCreate ''order'' stub_handle :: 'r World handler"
  obtain c2 w2 where mt: "matched L D ev r (entry_ctx D ev r) w = (c2, w2)"
    by (cases "matched L D ev r (entry_ctx D ev r) w")
  have c': "c' = c2" and w': "w_Redis w' = w_Redis w2" "w_Calls w' = w_Calls w2"
    using run mt by (auto simp: ServeHTTP_eq w_emit_def)
  have "entry_ctx D ev r = entry_ctx D ev r" ..
  then show ?thesis
  proof (cases rule: v1_phase [where w = w and L = L])
    case (refused c1 w1)
    with mt ran w'(2) show ?thesis by (simp add: matched_order [OF r] quiet_def)
  next
    case (admitted j c1 w1)
    have j: "j = i" using admitted(2) pres by simp
    have hdr: "idem_suffix c1 = ''idem:/v1/orders:'' @ key" "GetHeader c1 HeaderIdempotencyKey = key"
      using admitted(5) r key by (simp_all add: idem_suffix_def GetHeader_def is_order_create_def fresh_ctx_def)
    have k: "Key (id_TenantID i) (idem_suffix c1) = order_key (id_TenantID i) key"
      by (simp add: hdr order_key_def)
    have client: "fst (w_Redis w1) = fst (w_Redis w)"
      using admitted(9) by (simp add: rate_limited_def redis_limiter_Allow_def split: prod.splits)
    then have "w_Get (id_TenantID i) (idem_suffix c1) w1 = Inl ErrCacheMiss"
      using miss admitted(9) j by (simp add: w_Get_def redis_get_def Redis_Get_def k)
    then have idem: "gw_Idempotency L D ?g c1 w1 = (case ?g c1 w1 of (c3, w3) \<Rightarrow>
        (c3, idem_store (l_Http L) w_Set (gc_IdempotencyTTL (cfg_Gateway (d_Config D))) w_emit c1 c3 w3))"
      using Idempotency_miss [where get = w_Get, OF _ admitted(4)] hdr(2) key(2) j by (simp add: gw_Idempotency_def)
    obtain c3 w3 where g: "?g c1 w1 = (c3, w3)" by (cases "?g c1 w1")
    with idem mt admitted(8) have c2: "c2 = c3"
      and w2: "w2 = idem_store (l_Http L) w_Set (gc_IdempotencyTTL (cfg_Gateway (d_Config D))) w_emit c1 c3 w3"
      by (auto simp: matched_order [OF r])
    have "w_Redis w3 = w_Redis w1"
      using redis_Enforce [of stub_handle L D ev ActionCreate "''order''" c1 w1] g by simp
    moreover have "w_Calls w3 \<noteq> w_Calls w1"
      using ran w'(2) w2 quiet_idem_store [of w3] admitted(1) by (metis quiet_def)
    with order_ran [OF r admitted(4-6) g] have "c_Status c3 = 201" .
    ultimately show ?thesis
      using stored_cached [of w3 R "gc_IdempotencyTTL (cfg_Gateway (d_Config D))" L c1 i c3]
        ex ttl H admitted(4,7,9) j valid set_ok client c' c2 w2 w'(1)
      by (simp add: k)
  qed
qed

end
