(* ===== verification/Expiry_Properties.thy ===== *)
theory Expiry_Properties
  imports Timed_Samples Gateway_Expiry
begin

text \<open>
  Properties of the gateway as time passes at the Redis server: an idempotency key answers for its
  order until it expires, and the expiry of the rate limiter's sets never lets a window exceed
  the limit.
\<close>

section \<open>Orders\<close>

text \<open>C6: An order is created once per idempotency key. When a \<open>POST /v1/orders\<close> ran the order
  handler and its response was stored, it answered 201; and then, whatever requests of whichever
  tenants the gateway serves in the meantime and however the time passes between them, a retry of
  the same tenant with the same key before the configured time to live is over does not run
  anything (no handler, no audit record, no change of a key): it is limited, or gets the status,
  the bytes and the content type of the first response, marked as a replay. Tenant ids contain no
  colon, the server expires keys as documented and answers the lookup.\<close>

theorem order_created_once:
  fixes w :: "'r World"
  assumes "redis_expires (fst (w_Redis w)) R" and "redis_atomic_eval (fst (w_Redis w))"
    and ttl: "0 < Milliseconds (gc_IdempotencyTTL (cfg_Gateway (d_Config D)))" and "json_roundtrip (l_Http L)"
    and r: "is_order_create r" "GetHeader (fresh_ctx r) HeaderIdempotencyKey = key" "key \<noteq> ''''"
    and i: "presented L D ev r w = Inr i" "separable (id_TenantID i)"
    and miss: "rc_Get (fst (w_Redis w)) (order_key (id_TenantID i) key) (snd (rate_limited D ev r i (w_Redis w))) = RNil"
    and set_ok: "\<And>v. fst (rc_Set (fst (w_Redis w)) (order_key (id_TenantID i) key) v
        (gc_IdempotencyTTL (cfg_Gateway (d_Config D))) (snd (rate_limited D ev r i (w_Redis w)))) = None"
    and run: "ServeHTTP L D ev r w = (c1, w1)" "w_Calls w1 \<noteq> w_Calls w"
    and valid: "ValidString (response_bytes (l_Http L) c1)" "ValidString (content_type (l_Http L) c1)"
    and qs: "timed_ok L D R qs w1" and w2: "w2 = aged R d (serve_timed L D R qs w1)" and d: "0 \<le> d"
    and in_time: "elapsed qs + d < Milliseconds (gc_IdempotencyTTL (cfg_Gateway (d_Config D)))"
    and r': "is_order_create r'" "GetHeader (fresh_ctx r') HeaderIdempotencyKey = key"
    and j: "presented L D ev' r' w2 = Inr j" "id_TenantID j = id_TenantID i"
    and up: "\<And>e. rc_Get (fst (w_Redis w2)) (order_key (id_TenantID i) key)
        (snd (rate_limited D ev' r' j (w_Redis w2))) \<noteq> RErr e"
    and retry: "ServeHTTP L D ev' r' w2 = (c2, w3)"
  shows "c_Status c1 = 201 \<and> quiet w2 w3 \<and>
    (c_Status c2 = 429 \<or> c_Status c2 = 201 \<and> response_bytes (l_Http L) c2 = response_bytes (l_Http L) c1 \<and>
      content_type (l_Http L) c2 = content_type (l_Http L) c1 \<and> c_Header c2 ''Idempotent-Replay'' = Some ''true'')"
proof -
  let ?k = "order_key (id_TenantID i) key" and ?ttl = "Milliseconds (gc_IdempotencyTTL (cfg_Gateway (d_Config D)))"
  let ?sr = "\<lparr>sr_Status = c_Status c1, sr_Body = response_bytes (l_Http L) c1,
    sr_ContentType = content_type (l_Http L) c1\<rparr>"
  have first: "c_Status c1 = 201" "cached L R ?k ?sr ?ttl (w_Redis w1)"
    using serve_first_cached [OF assms(1-7) i(1) miss set_ok run valid] by auto
  have "elapsed qs < ?ttl" and left: "d < ?ttl - elapsed qs" using in_time d by linarith+
  then have "cached L R ?k ?sr (?ttl - elapsed qs) (w_Redis (serve_timed L D R qs w1))"
    by (intro timed_keeps_cached [OF first(2) _ i(2) qs, of "''/v1/orders:'' @ key"]) (simp_all add: order_key_def)
  from cached_aged [OF this d left]
  have "cached L R ?k ?sr (?ttl - elapsed qs - d) (w_Redis w2)" by (simp add: w2)
  from serve_replays [OF this i(2) r' r(3) j up retry] first(1) show ?thesis by simp
qed

theorem order_created_once_witness:
  "let order = sample_request ''POST'' ''/v1/orders'' [];
       w1 = snd (ServeHTTP sample_libs sample_deps sample_env order (timed_world RoleAdmin));
       w2 = aged timed_server 2000 (serve_timed sample_libs sample_deps timed_server
          [(60000, sample_env, sample_request ''GET'' ''/v1/inventory'' [])] w1);
       w3 = snd (ServeHTTP sample_libs sample_deps sample_env order w2)
   in w_Calls w1 \<noteq> w_Calls (timed_world RoleAdmin) \<and> w_Calls w3 = w_Calls w2"
proof -
  let ?order = "sample_request ''POST'' ''/v1/orders'' []"
  let ?w = "timed_world RoleAdmin"
  let ?w1 = "snd (ServeHTTP sample_libs sample_deps sample_env ?order ?w)"
  let ?qs = "[(60000, sample_env, sample_request ''GET'' ''/v1/inventory'' [])]"
  let ?w2 = "aged timed_server 2000 (serve_timed sample_libs sample_deps timed_server ?qs ?w1)"
  let ?i = "\<lparr>id_TenantID = ''t1'', id_UserID = ''k1'', id_Role = RoleAdmin, id_Region = '''', id_SupplierID = ''''\<rparr>"
  let ?c1 = "fst (ServeHTTP sample_libs sample_deps sample_env ?order ?w)"
  have client: "fst (w_Redis ?w) = timed_client" by (simp add: timed_world_def initial_world_def)
  have ttl: "0 < Milliseconds (gc_IdempotencyTTL (cfg_Gateway (d_Config sample_deps)))"
    "elapsed ?qs + 2000 < Milliseconds (gc_IdempotencyTTL (cfg_Gateway (d_Config sample_deps)))" by code_simp+
  have order: "is_order_create ?order" "GetHeader (fresh_ctx ?order) HeaderIdempotencyKey = ''i1''" by code_simp+
  have pres: "presented sample_libs sample_deps sample_env ?order ?w = Inr ?i"
    "presented sample_libs sample_deps sample_env ?order ?w2 = Inr ?i" by code_simp+
  have ran: "w_Calls ?w1 \<noteq> w_Calls ?w" by code_simp
  have miss: "rc_Get (fst (w_Redis ?w)) (order_key (id_TenantID ?i) ''i1'')
      (snd (rate_limited sample_deps sample_env ?order ?i (w_Redis ?w))) = RNil"
    "case rc_Get (fst (w_Redis ?w2)) (order_key (id_TenantID ?i) ''i1'')
      (snd (rate_limited sample_deps sample_env ?order ?i (w_Redis ?w2))) of RErr e \<Rightarrow> False | _ \<Rightarrow> True"
    by code_simp+
  have valid: "ValidString (response_bytes (l_Http sample_libs) ?c1)"
    "ValidString (content_type (l_Http sample_libs) ?c1)" by code_simp+
  have tenant: "separable (id_TenantID ?i)" and qs: "timed_ok sample_libs sample_deps timed_server ?qs ?w1"
    by code_simp+
  have lib: "redis_expires (fst (w_Redis ?w)) timed_server" "redis_atomic_eval (fst (w_Redis ?w))"
    "json_roundtrip (l_Http sample_libs)"
    using timed_expires timed_client_eval sample_http_roundtrip client by (simp_all add: sample_libs_def)
  have set_ok: "fst (rc_Set (fst (w_Redis ?w)) k v t r) = None" for k v t r
    by (simp add: client timed_client_def)
  from order_created_once [OF lib(1,2) ttl(1) lib(3) order _ pres(1) tenant miss(1) set_ok
      prod.collapse [symmetric] ran valid qs refl _ ttl(2) order pres(2) refl _ prod.collapse [symmetric]] miss(2) ran
  show ?thesis by (auto simp: Let_def quiet_def split: redis_reply.splits)
qed

section \<open>Rate limits\<close>

text \<open>C11: The limit of the Redis limiter holds as time passes at the server and the sets of the script
  expire: for calls of any tenants and routes, each after a delay, also when replies are lost,
  with the gateways' clocks within \<open>\<delta>\<close> of the server's and a fresh member identifier per call, no
  window that is shorter than the configured one by \<open>2 \<delta>\<close> holds more admissions of a tenant on a
  route than the limit.\<close>

theorem expiring_window_bound:
  assumes "redis_timed_inv R s" and "int64_range window" and "0 < Milliseconds window" and "0 \<le> \<delta>"
    and "\<forall>(d, e, t', x') \<in> set calls. clock_ok (fst e)"
    and "near \<delta> \<sigma> (map (\<lambda>(d, e, _). (d, fst e)) calls)"
    and "timed_run_ok (\<lambda>(e, t', x'). redis_limiter_Allow e t' x' limit window) (redis_elapse R)
           (\<lambda>(e, t', x'). fresh_member e t' x') calls s"
    and "redis_stamps (fst s) t x (snd s) = {#}"
  shows "length (filter (\<lambda>(e, t', x'). t' = t \<and> x' = x \<and>
        y - (Milliseconds window - 2 * \<delta>) < fst e \<and> fst e \<le> y)
      (fst (run_timed (\<lambda>(e, t', x'). redis_limiter_Allow e t' x' limit window) (redis_elapse R) calls s))) \<le> nat limit"
  using assms by (rule redis_expiring.timed_window_bound)

text \<open>Two admissions, a refusal, and after the set expired another admission.\<close>

definition timed_calls :: "(int \<times> (int \<times> string) \<times> string \<times> string) list" where
  "timed_calls = [(0, (100, ''a''), ''t'', ''r''), (3, (104, ''b''), ''t'', ''r''), (1, (103, ''c''), ''t'', ''r''),
     (20, (124, ''d''), ''t'', ''r''), (0, (124, ''e''), ''u'', ''r'')]"

lemma timed_calls_admitted:
  "map (snd \<circ> fst) (fst (run_timed (\<lambda>(e, t', x'). redis_limiter_Allow e t' x' 2 (10 * Millisecond))
      (redis_elapse timed_server) timed_calls (timed_client, timed_empty))) = [''a'', ''b'', ''d'', ''e'']"
  by code_simp

theorem expiring_window_bound_witness:
  "length (filter (\<lambda>(e, t', x'). t' = ''t'' \<and> x' = ''r'' \<and> 104 - (10 - 2) < fst e \<and> fst e \<le> 104)
      (fst (run_timed (\<lambda>(e, t', x'). redis_limiter_Allow e t' x' 2 (10 * Millisecond))
        (redis_elapse timed_server) timed_calls (timed_client, timed_empty)))) \<le> 2"
proof -
  have "Milliseconds (10 * Millisecond) = 10" "int64_range (10 * Millisecond)"
    by (simp_all add: Milliseconds_def quot_def duration_units int64_range_def)
  moreover have "timed_run_ok (\<lambda>(e, t', x'). redis_limiter_Allow e t' x' 2 (10 * Millisecond)) (redis_elapse timed_server)
      (\<lambda>(e, t', x'). fresh_member e t' x') timed_calls (timed_client, timed_empty)"
    by code_simp
  moreover have "near 1 100 (map (\<lambda>(d, e, _). (d, fst e)) timed_calls)"
    "\<forall>(d, e, t', x') \<in> set timed_calls. clock_ok (fst e)"
    by (simp_all add: timed_calls_def clock_ok_def)
  moreover have "redis_stamps timed_client ''t'' ''r'' timed_empty = {#}"
    by (simp add: redis_stamps_def timed_client_def timed_empty_def)
  ultimately show ?thesis
    using expiring_window_bound [OF timed_limiter_inv, of "10 * Millisecond" 1 timed_calls 100 2 "''t''" "''r''" 104]
    by simp
qed

end
