(* ===== verification/Interleaving.thy ===== *)
theory Interleaving
  imports Go_Prelude
begin

text \<open>
  Goroutines that share a state. A program is finished with a result, or makes an atomic access to
  the state, whose outcome is the rest of the program and the state after it. A list of programs
  runs interleaved: at any moment any of them makes its next access. The locale \<open>protocol\<close> carries
  what the accesses of each program keep to over to every interleaving of them.
\<close>

section \<open>Definitions\<close>

datatype ('c, 'w) prog =
    Done 'c
  | Access "'w \<Rightarrow> ('c, 'w) prog \<times> 'w"

text \<open>One program after another.\<close>

primrec followed_by :: "('c, 'w) prog \<Rightarrow> ('c \<Rightarrow> ('c, 'w) prog) \<Rightarrow> ('c, 'w) prog" where
  "followed_by (Done c) k = k c"
| "followed_by (Access f) k = Access (map_prod (\<lambda>p. followed_by p k) id \<circ> f)"

text \<open>A program that runs alone.\<close>

primrec alone :: "('c, 'w) prog \<Rightarrow> 'w \<Rightarrow> 'c \<times> 'w" where
  "alone (Done c) = (\<lambda>w. (c, w))"
| "alone (Access f) = (\<lambda>w. case (map_prod alone id \<circ> f) w of (rest, w') \<Rightarrow> rest w')"

text \<open>An operation on the state as one access, and an update of it.\<close>

definition atomic :: "('a \<Rightarrow> 'w \<Rightarrow> 'c \<times> 'w) \<Rightarrow> 'a \<Rightarrow> ('c, 'w) prog" where
  "atomic h c = Access (\<lambda>w. case h c w of (c', w') \<Rightarrow> (Done c', w'))"

definition update :: "('w \<Rightarrow> 'w) \<Rightarrow> ('c, 'w) prog \<Rightarrow> ('c, 'w) prog" where
  "update f p = Access (\<lambda>w. (p, f w))"

subsection \<open>Programs in parallel\<close>

record ('c, 'w) threads =
  th_World :: 'w
  th_Progs :: "('c, 'w) prog list"

definition launch :: "('c, 'w) prog list \<Rightarrow> 'w \<Rightarrow> ('c, 'w) threads" where
  "launch ps w = \<lparr>th_World = w, th_Progs = ps\<rparr>"

definition thread_step :: "nat \<Rightarrow> ('c, 'w) threads \<Rightarrow> ('c, 'w) threads option" where
  "thread_step i s =
     (if i < length (th_Progs s)
      then (case th_Progs s ! i of
              Done c \<Rightarrow> None
            | Access f \<Rightarrow>
                (case f (th_World s) of
                   (p, w) \<Rightarrow> Some \<lparr>th_World = w, th_Progs = (th_Progs s)[i := p]\<rparr>))
      else None)"

text \<open>A run, with the states that the accesses of it met.\<close>

inductive interleaves :: "('c, 'w) threads \<Rightarrow> 'w list \<Rightarrow> ('c, 'w) threads \<Rightarrow> bool" where
  run_none: "interleaves s [] s"
| run_more: "interleaves s ws s' \<Longrightarrow> thread_step i s' = Some s'' \<Longrightarrow> interleaves s (ws @ [th_World s']) s''"

text \<open>A given order of accesses; a turn of a program that is finished is skipped.\<close>

fun schedule :: "nat list \<Rightarrow> ('c, 'w) threads \<Rightarrow> ('c, 'w) threads" where
  "schedule [] s = s"
| "schedule (i # is) s =
     (case thread_step i s of None \<Rightarrow> schedule is s | Some s' \<Rightarrow> schedule is s')"

fun finished :: "('c, 'w) prog \<Rightarrow> bool" where
  "finished (Done c) = True"
| "finished (Access f) = False"

subsection \<open>Specification\<close>

text \<open>
  A program keeps to a protocol: every access takes it from a phase to a phase in a way the protocol
  allows, whatever state it meets, and it ends in a final phase.
\<close>

inductive follows :: "('p \<Rightarrow> 'p \<Rightarrow> 'w \<Rightarrow> 'w \<Rightarrow> bool) \<Rightarrow> ('p \<Rightarrow> 'c \<Rightarrow> bool) \<Rightarrow> 'p \<Rightarrow> ('c, 'w) prog \<Rightarrow> bool"
  for moves final where
  follows_Done: "final ph c \<Longrightarrow> follows moves final ph (Done c)"
| follows_Access: "(\<And>w. \<exists>ph'. moves ph ph' w (snd (f w)) \<and> follows moves final ph' (fst (f w))) \<Longrightarrow>
     follows moves final ph (Access f)"

text \<open>A program makes at most so many accesses.\<close>

inductive within :: "nat \<Rightarrow> ('c, 'w) prog \<Rightarrow> bool" where
  within_Done: "within n (Done c)"
| within_Access: "(\<And>w. within n (fst (f w))) \<Longrightarrow> within (Suc n) (Access f)"

text \<open>
  A program whose accesses alternate with changes that \<open>rely\<close> allows: from states with \<open>P\<close> it ends with
  a result and a state with \<open>Q\<close>.
\<close>

definition undisturbed :: "('w \<Rightarrow> 'w \<Rightarrow> bool) \<Rightarrow> ('w \<Rightarrow> bool) \<Rightarrow> bool" where
  "undisturbed rely P \<longleftrightarrow> (\<forall>w w'. P w \<longrightarrow> rely w w' \<longrightarrow> P w')"

inductive meets ::
  "('w \<Rightarrow> 'w \<Rightarrow> bool) \<Rightarrow> ('w \<Rightarrow> bool) \<Rightarrow> ('c, 'w) prog \<Rightarrow> ('c \<Rightarrow> 'w \<Rightarrow> bool) \<Rightarrow> bool"
  for rely where
  meets_Done: "undisturbed rely P \<Longrightarrow> (\<And>w. P w \<Longrightarrow> Q c w) \<Longrightarrow> meets rely P (Done c) Q"
| meets_Access: "undisturbed rely P \<Longrightarrow>
     (\<And>w. P w \<Longrightarrow> \<exists>P'. P' (snd (f w)) \<and> meets rely P' (fst (f w)) Q) \<Longrightarrow> meets rely P (Access f) Q"

section \<open>Lemmas\<close>

inductive_cases follows_DoneE: "follows moves final ph (Done c)"
inductive_cases follows_AccessE: "follows moves final ph (Access f)"
inductive_cases within_AccessE: "within n (Access f)"
inductive_cases meets_DoneE: "meets rely P (Done c) Q"
inductive_cases meets_AccessE: "meets rely P (Access f) Q"

lemma finished_iff: "finished p \<longleftrightarrow> (\<exists>c. p = Done c)"
  by (cases p) auto

subsection \<open>Running alone\<close>

lemma alone_Access [simp]: "alone (Access f) w = (case f w of (p, w') \<Rightarrow> alone p w')"
  by (simp split: prod.splits)

declare alone.simps(2) [simp del]

lemma alone_followed_by [simp]:
  "alone (followed_by p k) w = (case alone p w of (c, w') \<Rightarrow> alone (k c) w')"
proof (induction p arbitrary: w)
  case (Access f)
  obtain p w' where f: "f w = (p, w')" by (cases "f w")
  then have "(p, w') \<in> range f" by (metis rangeI)
  with Access [of "f w" p w'] f show ?case by (simp add: fsts.intros)
qed simp

lemma alone_atomic [simp]: "alone (atomic h c) w = h c w"
  by (simp add: atomic_def split: prod.splits)

lemma alone_update [simp]: "alone (update f p) w = alone p (f w)"
  by (simp add: update_def)

subsection \<open>Keeping to a protocol\<close>

lemma follows_atomic:
  assumes "\<And>w. \<exists>ph'. moves ph ph' w (snd (h c w)) \<and> final ph' (fst (h c w))"
  shows "follows moves final ph (atomic h c)"
  unfolding atomic_def
proof (rule follows_Access)
  fix w
  obtain c' w' where h: "h c w = (c', w')" by (cases "h c w")
  with assms [of w] show "\<exists>ph'. moves ph ph' w (snd (case h c w of (c', w') \<Rightarrow> (Done c', w'))) \<and>
      follows moves final ph' (fst (case h c w of (c', w') \<Rightarrow> (Done c', w')))"
    by (auto intro: follows_Done)
qed

lemma follows_update:
  assumes "\<And>w. moves ph ph' w (f w)" and "follows moves final ph' p"
  shows "follows moves final ph (update f p)"
  unfolding update_def by (rule follows_Access) (use assms in auto)

lemma follows_followed_by:
  assumes "follows moves final ph p" and "\<And>ph' c. final ph' c \<Longrightarrow> follows moves final' ph' (k c)"
  shows "follows moves final' ph (followed_by p k)"
  using assms(1)
proof (induction rule: follows.induct)
  case (follows_Done ph c)
  with assms(2) show ?case by simp
next
  case (follows_Access ph f)
  have "\<exists>ph'. moves ph ph' w (snd (f w)) \<and> follows moves final' ph' (followed_by (fst (f w)) k)" for w
    using follows_Access [of w] by blast
  then show ?case by (auto intro: follows.follows_Access)
qed

lemma meets_undisturbed: "meets rely P p Q \<Longrightarrow> undisturbed rely P"
  by (erule meets.cases) simp_all

lemma meets_weaken:
  assumes "meets rely P p Q" and "undisturbed rely P'" and "\<And>w. P' w \<Longrightarrow> P w"
  shows "meets rely P' p Q"
  using assms by (cases rule: meets.cases) (auto intro: meets.intros)

text \<open>An access that only does what the others may do as well keeps what they leave undisturbed.\<close>

lemma meets_guaranteed:
  assumes "undisturbed rely P" and "\<And>w. rely w (snd (f w))" and "\<And>w. P w \<Longrightarrow> meets rely P (fst (f w)) Q"
  shows "meets rely P (Access f) Q"
  using assms unfolding undisturbed_def by (intro meets_Access exI [of _ P]) (auto simp: undisturbed_def)

lemma meets_update:
  assumes "\<And>w. rely w (f w)" and "meets rely P p Q"
  shows "meets rely P (update f p) Q"
  unfolding update_def using assms meets_undisturbed by (intro meets_guaranteed) auto

lemma meets_atomic:
  assumes "undisturbed rely P" and "\<And>w. P w \<Longrightarrow> M (fst (h c w)) (snd (h c w))" and "\<And>c. undisturbed rely (M c)"
  shows "meets rely P (atomic h c) M"
  unfolding atomic_def
proof (rule meets_Access [OF assms(1)])
  fix w
  assume "P w"
  with assms(2) [of w] show "\<exists>P'. P' (snd (case h c w of (c', w') \<Rightarrow> (Done c', w'))) \<and>
      meets rely P' (fst (case h c w of (c', w') \<Rightarrow> (Done c', w'))) M"
    by (intro exI [of _ "M (fst (h c w))"]) (auto simp: split_beta intro: meets_Done assms(3))
qed

lemma meets_followed_by:
  assumes "meets rely P p M" and "\<And>c. meets rely (M c) (k c) Q"
  shows "meets rely P (followed_by p k) Q"
  using assms
proof (induction rule: meets.induct)
  case (meets_Done P M c)
  then have "meets rely (M c) (k c) Q" by blast
  then show ?case using meets_Done by (auto intro: meets_weaken)
next
  case (meets_Access P f M)
  then show ?case by (force intro: meets.meets_Access)
qed

lemma within_atomic: "within (Suc n) (atomic h c)"
  unfolding atomic_def by (rule within_Access) (simp add: within_Done split: prod.splits)

lemma within_update: "within n p \<Longrightarrow> within (Suc n) (update f p)"
  unfolding update_def by (rule within_Access) simp

lemma within_mono: "within m p \<Longrightarrow> m \<le> n \<Longrightarrow> within n p"
proof (induction arbitrary: n rule: within.induct)
  case (within_Access m f)
  then obtain n' where "n = Suc n'" by (cases n) auto
  with within_Access show ?case by (auto intro: within.within_Access)
qed (rule within_Done)

lemma within_followed_by:
  assumes "within m p" and "\<And>c. within n (k c)"
  shows "within (m + n) (followed_by p k)"
  using assms(1)
proof (induction rule: within.induct)
  case (within_Done m c)
  then show ?case using within_mono [OF assms(2), of "m + n"] by simp
next
  case (within_Access m f)
  then show ?case by (auto intro: within.within_Access)
qed

subsection \<open>Runs\<close>

lemma thread_step_SomeE:
  assumes "thread_step i s = Some s'"
  obtains f where "i < length (th_Progs s)" "th_Progs s ! i = Access f"
    "th_World s' = snd (f (th_World s))" "th_Progs s' = (th_Progs s)[i := fst (f (th_World s))]"
  using assms by (auto simp: thread_step_def split: if_splits prog.splits prod.splits)

lemma run_trans: "interleaves s ws s' \<Longrightarrow> interleaves s' ws' s'' \<Longrightarrow> interleaves s (ws @ ws') s''"
proof (rotate_tac, induction rule: interleaves.induct)
  case (run_more s1 ws' s2 i s3)
  then show ?case using interleaves.run_more [of s "ws @ ws'" s2 i s3] by simp
qed simp

lemma run_length: "interleaves s ws s' \<Longrightarrow> length (th_Progs s') = length (th_Progs s)"
  by (induction rule: interleaves.induct) (auto elim!: thread_step_SomeE)

lemma schedule_run: "\<exists>ws. interleaves s ws (schedule is s)"
proof (induction "is" arbitrary: s)
  case Nil
  then show ?case using run_none by auto
next
  case (Cons i "is")
  show ?case
  proof (cases "thread_step i s")
    case (Some s1)
    have "interleaves s ([] @ [th_World s]) s1" by (rule run_more [OF run_none Some])
    with Cons.IH [of s1] run_trans show ?thesis by (fastforce simp: Some)
  qed (use Cons.IH in simp)
qed

lemma schedule_skips:
  "i \<notin> set is \<Longrightarrow> th_Progs (schedule is s) ! i = th_Progs s ! i"
proof (induction "is" arbitrary: s)
  case (Cons j "is")
  then show ?case by (cases "thread_step j s") (auto elim!: thread_step_SomeE)
qed simp

lemma schedule_done: "th_Progs s ! i = Done c \<Longrightarrow> th_Progs (schedule is s) ! i = Done c"
proof (induction "is" arbitrary: s)
  case (Cons j "is")
  show ?case
  proof (cases "thread_step j s")
    case (Some s')
    then have "th_Progs s' ! i = Done c"
      using Cons.prems by (auto elim!: thread_step_SomeE simp: nth_list_update)
    with Cons.IH Some show ?thesis by simp
  qed (use Cons in simp)
qed simp

text \<open>A program whose accesses are bounded is finished once it had that many turns.\<close>

lemma schedule_finishes:
  assumes "within n (th_Progs s ! i)" and "i < length (th_Progs s)" and "n \<le> count_list is i"
  shows "finished (th_Progs (schedule is s) ! i)"
  using assms
proof (induction "is" arbitrary: n s)
  case Nil
  then show ?case by (auto elim: within.cases)
next
  case (Cons j "is")
  show ?case
  proof (cases "th_Progs s ! i")
    case (Done c)
    then show ?thesis using schedule_done [OF Done, of "j # is"] by simp
  next
    case (Access f)
    with Cons.prems obtain m where m: "n = Suc m" "within m (fst (f w))" for w
      by (auto elim: within_AccessE)
    show ?thesis
    proof (cases "thread_step j s")
      case None
      with Access Cons.prems have "j \<noteq> i" by (auto simp: thread_step_def split: prod.splits)
      with None Cons show ?thesis by simp
    next
      case (Some s')
      then have "i < length (th_Progs s')" and "j \<noteq> i \<Longrightarrow> th_Progs s' ! i = th_Progs s ! i"
          and "j = i \<Longrightarrow> within m (th_Progs s' ! i)"
        using Cons.prems(2) Access m(2) by (auto elim!: thread_step_SomeE)
      with Cons.IH [of n s'] Cons.IH [of m s'] Cons.prems m(1) Some show ?thesis
        by (cases "j = i") auto
    qed
  qed
qed

text \<open>Running programs one after the other is one of their interleavings.\<close>

lemma run_alone:
  assumes "i < length ps" and "ps ! i = p"
  shows "\<exists>ws. interleaves \<lparr>th_World = w, th_Progs = ps\<rparr> ws
    \<lparr>th_World = snd (alone p w), th_Progs = ps[i := Done (fst (alone p w))]\<rparr>"
  using assms
proof (induction p arbitrary: ps w)
  case (Done c)
  then have "ps[i := Done c] = ps" by (metis list_update_id)
  with run_none show ?case by auto
next
  case (Access f)
  obtain p w' where f: "f w = (p, w')" by (cases "f w")
  let ?ps = "ps[i := p]"
  have range: "(p, w') \<in> range f" using f by (metis rangeI)
  have "p \<in> Basic_BNFs.fsts (p, w')" by (simp add: fsts.intros)
  from Access.IH [OF range this, of ?ps w'] Access.prems
  obtain ws where ws: "interleaves \<lparr>th_World = w', th_Progs = ?ps\<rparr> ws
      \<lparr>th_World = snd (alone p w'), th_Progs = ps[i := Done (fst (alone p w'))]\<rparr>"
    by auto
  have "thread_step i \<lparr>th_World = w, th_Progs = ps\<rparr> = Some \<lparr>th_World = w', th_Progs = ?ps\<rparr>"
    using Access.prems f by (simp add: thread_step_def)
  from run_trans [OF run_more [OF run_none this] ws] f show ?case by auto
qed

lemma run_in_order:
  "\<exists>ws cs. interleaves \<lparr>th_World = w, th_Progs = ds @ ps\<rparr> ws
     \<lparr>th_World = fold (\<lambda>p w. snd (alone p w)) ps w, th_Progs = ds @ map Done cs\<rparr>"
proof (induction ps arbitrary: ds w)
  case Nil
  then show ?case using run_none by (metis append_Nil2 fold_simps(1) list.map(1))
next
  case (Cons p ps)
  let ?d = "Done (fst (alone p w))"
  obtain ws where "interleaves \<lparr>th_World = w, th_Progs = ds @ p # ps\<rparr> ws
      \<lparr>th_World = snd (alone p w), th_Progs = (ds @ [?d]) @ ps\<rparr>"
    using run_alone [of "length ds" "ds @ p # ps" p w] by auto
  moreover obtain ws' cs where "interleaves \<lparr>th_World = snd (alone p w), th_Progs = (ds @ [?d]) @ ps\<rparr> ws'
      \<lparr>th_World = fold (\<lambda>p w. snd (alone p w)) ps (snd (alone p w)), th_Progs = (ds @ [?d]) @ map Done cs\<rparr>"
    using Cons.IH by blast
  ultimately have "interleaves \<lparr>th_World = w, th_Progs = ds @ p # ps\<rparr> (ws @ ws')
      \<lparr>th_World = fold (\<lambda>p w. snd (alone p w)) (p # ps) w, th_Progs = ds @ map Done (fst (alone p w) # cs)\<rparr>"
    by (auto dest: run_trans)
  then show ?case by blast
qed

text \<open>A sum over the programs changes where one of them changes.\<close>

lemma sum_list_update_at:
  fixes g :: "nat \<Rightarrow> 'p \<Rightarrow> nat"
  assumes "j < n" and "length phs = n"
  shows "(\<Sum>k<n. g k (phs[j := x] ! k)) + g j (phs ! j) = (\<Sum>k<n. g k (phs ! k)) + g j x"
proof -
  have "(\<Sum>k \<in> {..<n} - {j}. g k (phs[j := x] ! k)) = (\<Sum>k \<in> {..<n} - {j}. g k (phs ! k))"
    by (rule sum.cong) auto
  then show ?thesis using assms by (simp add: sum.remove [of "{..<n}" j])
qed

lemma sum_filter_length: "(\<Sum>j < length xs. if P (xs ! j) then 1 else 0) = length (filter P xs)"
proof (induction xs rule: rev_induct)
  case (snoc x xs)
  have "(\<Sum>j < length xs. if P ((xs @ [x]) ! j) then 1 else 0) = (\<Sum>j < length xs. if P (xs ! j) then 1 else 0 :: nat)"
    by (rule sum.cong) (auto simp: nth_append)
  with snoc show ?case by simp
qed simp

text \<open>Some program can always go on, and the number of accesses is bounded.\<close>

lemma thread_step_enabled:
  "i < length (th_Progs s) \<Longrightarrow> \<not> finished (th_Progs s ! i) \<Longrightarrow> \<exists>s'. thread_step i s = Some s'"
  by (cases "th_Progs s ! i") (auto simp: thread_step_def split: prod.splits)

lemma run_within:
  assumes "interleaves s ws s'" and "list_all2 within ns (th_Progs s)"
  shows "\<exists>ms. list_all2 within ms (th_Progs s') \<and> length ws + sum_list ms \<le> sum_list ns"
  using assms
proof (induction rule: interleaves.induct)
  case (run_none s)
  then show ?case by auto
next
  case (run_more s ws s' i s'')
  then obtain ms where ms: "list_all2 within ms (th_Progs s')" "length ws + sum_list ms \<le> sum_list ns" by blast
  from run_more.hyps(2) obtain f where i: "i < length (th_Progs s')" "th_Progs s' ! i = Access f"
    and s'': "th_Progs s'' = (th_Progs s')[i := fst (f (th_World s'))]"
    by (rule thread_step_SomeE)
  have "within (ms ! i) (Access f)" using ms(1) i by (metis list_all2_nthD2)
  then obtain n where n: "ms ! i = Suc n" "within n (fst (f (th_World s')))"
    by (auto elim: within_AccessE)
  have "i < length ms" using ms(1) i(1) by (simp add: list_all2_lengthD)
  then have "Suc (sum_list (ms[i := n])) = sum_list ms"
    using n(1) elem_le_sum_list [of i ms] by (simp add: sum_list_update)
  moreover have "list_all2 within (ms[i := n]) (th_Progs s'')"
    using ms(1) n(2) by (simp add: s'' list_all2_update_cong)
  ultimately show ?case using ms(2) by (intro exI [of _ "ms[i := n]"]) auto
qed

section \<open>Protocols\<close>

text \<open>
  Every program has a protocol of its own. What the moves of all protocols keep, of the phases, the
  states met and the state, holds throughout every interleaving.
\<close>

locale protocol =
  fixes moves :: "'a \<Rightarrow> 'p \<Rightarrow> 'p \<Rightarrow> 'w \<Rightarrow> 'w \<Rightarrow> bool"
    and final :: "'a \<Rightarrow> 'p \<Rightarrow> 'c \<Rightarrow> bool"
    and program :: "'a \<Rightarrow> ('c, 'w) prog"
    and start :: 'p
    and rely :: "'w \<Rightarrow> 'w \<Rightarrow> bool"
  assumes program_follows: "follows (moves a) (final a) start (program a)"
    and moves_rely: "moves a ph ph' w w' \<Longrightarrow> rely w w'"
begin

definition keeping :: "'a list \<Rightarrow> 'p list \<Rightarrow> ('c, 'w) threads \<Rightarrow> bool" where
  "keeping as phs s \<longleftrightarrow> length phs = length as \<and> length (th_Progs s) = length as \<and>
     (\<forall>i < length as. follows (moves (as ! i)) (final (as ! i)) (phs ! i) (th_Progs s ! i))"

lemma keeping_launch: "keeping as (replicate (length as) start) (launch (map program as) w)"
  by (simp add: keeping_def launch_def program_follows)

lemma keeping_step:
  assumes "keeping as phs s" and "thread_step i s = Some s'"
  obtains ph' where "i < length as" "moves (as ! i) (phs ! i) ph' (th_World s) (th_World s')"
    "keeping as (phs[i := ph']) s'"
proof -
  from assms(2) obtain f where i: "i < length (th_Progs s)" "th_Progs s ! i = Access f"
    and s': "th_World s' = snd (f (th_World s))" "th_Progs s' = (th_Progs s)[i := fst (f (th_World s))]"
    by (rule thread_step_SomeE)
  then have "follows (moves (as ! i)) (final (as ! i)) (phs ! i) (Access f)"
    using assms(1) by (metis keeping_def)
  then obtain ph' where "moves (as ! i) (phs ! i) ph' (th_World s) (snd (f (th_World s)))"
      "follows (moves (as ! i)) (final (as ! i)) ph' (fst (f (th_World s)))"
    by (metis follows_AccessE)
  with that [of ph'] assms(1) i(1) s' show thesis
    by (auto simp: keeping_def nth_list_update)
qed

lemma run_keeps:
  assumes "interleaves s ws s'" and "keeping as phs s" and "I phs vs (th_World s)"
    and step: "\<And>phs vs w i ph' w'. I phs vs w \<Longrightarrow> i < length as \<Longrightarrow> length phs = length as \<Longrightarrow>
      moves (as ! i) (phs ! i) ph' w w' \<Longrightarrow> I (phs[i := ph']) (vs @ [w]) w'"
  shows "\<exists>phs'. keeping as phs' s' \<and> I phs' (vs @ ws) (th_World s')"
  using assms(1-3)
proof (induction rule: interleaves.induct)
  case (run_none s)
  then show ?case by auto
next
  case (run_more s ws s' i s'')
  then obtain phs' where k: "keeping as phs' s'" and I: "I phs' (vs @ ws) (th_World s')" by blast
  from k run_more.hyps(2) obtain ph' where "i < length as"
      "moves (as ! i) (phs' ! i) ph' (th_World s') (th_World s'')" "keeping as (phs'[i := ph']) s''"
    by (rule keeping_step)
  moreover from this step [OF I] k have "I (phs'[i := ph']) ((vs @ ws) @ [th_World s']) (th_World s'')"
    by (simp add: keeping_def)
  ultimately show ?case by auto
qed

lemma launch_keeps:
  assumes "interleaves (launch (map program as) w) ws s" and "I (replicate (length as) start) [] w"
    and "\<And>phs vs w i ph' w'. I phs vs w \<Longrightarrow> i < length as \<Longrightarrow> length phs = length as \<Longrightarrow>
      moves (as ! i) (phs ! i) ph' w w' \<Longrightarrow> I (phs[i := ph']) (vs @ [w]) w'"
  obtains phs where "keeping as phs s" "I phs ws (th_World s)"
proof -
  have "I (replicate (length as) start) [] (th_World (launch (map program as) w))"
    using assms(2) by (simp add: launch_def)
  from run_keeps [where I = I, OF assms(1) keeping_launch this assms(3)] that show thesis by auto
qed

lemma keeping_final:
  assumes "keeping as phs s" and "i < length as" and "th_Progs s ! i = Done c"
  shows "final (as ! i) (phs ! i) c"
proof -
  have "follows (moves (as ! i)) (final (as ! i)) (phs ! i) (Done c)"
    using assms by (metis keeping_def)
  then show ?thesis by (rule follows_DoneE)
qed

text \<open>What a program achieves while the others only do what their protocols allow.\<close>

lemma run_meets:
  assumes "interleaves s ws s'" and "keeping as phs s" and "i < length as"
    and "meets rely P (th_Progs s ! i) Q" and "P (th_World s)"
  shows "\<exists>P'. meets rely P' (th_Progs s' ! i) Q \<and> P' (th_World s') \<and> (\<exists>phs'. keeping as phs' s')"
  using assms
proof (induction rule: interleaves.induct)
  case (run_none s)
  then show ?case by blast
next
  case (run_more s ws s' j s'')
  then obtain P' phs' where P': "meets rely P' (th_Progs s' ! i) Q" "P' (th_World s')"
    and k: "keeping as phs' s'" by blast
  from k run_more.hyps(2) obtain ph' where j: "moves (as ! j) (phs' ! j) ph' (th_World s') (th_World s'')"
      "keeping as (phs'[j := ph']) s''"
    by (rule keeping_step)
  from run_more.hyps(2) obtain f where f: "j < length (th_Progs s')" "th_Progs s' ! j = Access f"
    and s'': "th_World s'' = snd (f (th_World s'))" "th_Progs s'' = (th_Progs s')[j := fst (f (th_World s'))]"
    by (rule thread_step_SomeE)
  show ?case
  proof (cases "j = i")
    case True
    with P' f s'' have "\<exists>P''. P'' (th_World s'') \<and> meets rely P'' (th_Progs s'' ! i) Q"
      by (auto elim!: meets_AccessE)
    with j(2) show ?thesis by blast
  next
    case False
    have "undisturbed rely P'" using P'(1) by (cases rule: meets.cases) auto
    then have "P' (th_World s'')"
      using P'(2) moves_rely [OF j(1)] by (auto simp: undisturbed_def)
    with False P'(1) s''(2) j(2) show ?thesis by auto
  qed
qed

lemma run_result:
  assumes "interleaves s ws s'" and "keeping as phs s" and "i < length as"
    and "meets rely P (th_Progs s ! i) Q" and "P (th_World s)" and "th_Progs s' ! i = Done c"
  shows "Q c (th_World s')"
proof -
  from run_meets [OF assms(1-5)] obtain P' where "meets rely P' (Done c) Q" "P' (th_World s')"
    using assms(6) by auto
  then show ?thesis by (auto elim: meets_DoneE)
qed

end

end
