(* ===== verification/Gateway_Threads.thy ===== *)
theory Gateway_Threads
  imports Gateway_Runs Interleaving
begin

text \<open>
  The requests of \<open>internal/gateway/router.go\<close> as goroutines of the HTTP server: each request is a
  program whose accesses to what requests share are single steps. An access is one call of Redis
  (a command, or the limiter's script), of the in-memory limiter under its mutex, of the key store
  (whose concurrent calls are serialisable, see \<open>Key_Sessions\<close>), of the atomic counter of the
  placeholder module, or of the logger. Everything between two accesses is local to the request.
  A request that runs alone is served as \<open>ServeHTTP\<close> has it.
\<close>

section \<open>Definitions\<close>

type_synonym 'r request = "(GinCtx, 'r World) prog"

definition Authenticate_prog :: "Libs \<Rightarrow> Deps \<Rightarrow> Env \<Rightarrow> (GinCtx \<Rightarrow> 'r request) \<Rightarrow> GinCtx \<Rightarrow> 'r request" where
  "Authenticate_prog L D ev next c =
     Access (\<lambda>w. case resolveIdentity (l_Jwt L) (d_Issuer D) (ev_auth_now ev) (resolver L D ev) c w of
         (Inl err, w') \<Rightarrow> (Done (Unauthorized (auth_message err) c), w')
       | (Inr i, w') \<Rightarrow> (next (install_identity i c), w'))"

definition RateLimit_judge :: "(GinCtx \<Rightarrow> 'r request) \<Rightarrow> bool \<Rightarrow> GinCtx \<Rightarrow> 'r request" where
  "RateLimit_judge next allowed c =
     (if \<not> allowed then Done (Abort 429 CodeRateLimited ''rate limit exceeded'' c) else next c)"

definition RateLimit_prog :: "Deps \<Rightarrow> Env \<Rightarrow> (GinCtx \<Rightarrow> 'r request) \<Rightarrow> GinCtx \<Rightarrow> 'r request" where
  "RateLimit_prog D ev next c =
     (case FromGin c of
        None \<Rightarrow> Done (Unauthorized ''authentication required'' c)
      | Some actor \<Rightarrow>
          (let suffix = ''ratelimit:'' @ FullPath c;
               limit = gc_RateLimitRequests (cfg_Gateway (d_Config D));
               window = gc_RateLimitWindow (cfg_Gateway (d_Config D))
           in Access (\<lambda>w. case w_redis_Allow (ev_limit ev) (id_TenantID actor) suffix limit window w of
                ((allowed, err), w') \<Rightarrow>
                  (case err of
                     None \<Rightarrow> (RateLimit_judge next allowed c, w')
                   | Some e \<Rightarrow>
                       (update (w_emit (logger_FromContext (c_Context c)) LevelWarn
                            ''rate limiter falling back to in-memory''
                            [(''error'', AStr e), (''tenant_id'', AStr (id_TenantID actor)),
                             (''route'', AStr (FullPath c))])
                          (Access (\<lambda>w. case w_memory_Allow (ev_mem_now ev) (id_TenantID actor) suffix limit window w of
                             ((allowed, _), w') \<Rightarrow>
                               (RateLimit_judge next allowed (gin_Set FallbackKey (GBool True) c), w'))), w')))))"

definition idem_store_prog :: "Libs \<Rightarrow> Deps \<Rightarrow> GinCtx \<Rightarrow> GinCtx \<Rightarrow> 'r request" where
  "idem_store_prog L D c c' =
     (case FromGin c of
        None \<Rightarrow> Done c'
      | Some actor \<Rightarrow>
          (let status = c_Status c' in
           if status \<ge> 200 \<and> status < 500
           then (let sr = \<lparr>sr_Status = status, sr_Body = captured (l_Http L) c c',
                           sr_ContentType = content_type (l_Http L) c'\<rparr> in
                 case hl_Marshal (l_Http L) sr of
                   None \<Rightarrow> Done c'
                 | Some b \<Rightarrow>
                     Access (\<lambda>w. case w_Set (id_TenantID actor) (idem_suffix c) b
                                        (gc_IdempotencyTTL (cfg_Gateway (d_Config D))) w of
                         (None, w') \<Rightarrow> (Done c', w')
                       | (Some e, w') \<Rightarrow>
                           (update (w_emit (logger_FromContext (c_Context c)) LevelWarn
                              ''failed to persist idempotent response'' [(''error'', AStr e)]) (Done c'), w')))
           else Done c'))"

definition Idempotency_prog :: "Libs \<Rightarrow> Deps \<Rightarrow> (GinCtx \<Rightarrow> 'r request) \<Rightarrow> GinCtx \<Rightarrow> 'r request" where
  "Idempotency_prog L D next c =
     (if GetHeader c HeaderIdempotencyKey = ''''
      then Done (Abort 400 CodeIdempotency ''Idempotency-Key header is required for this endpoint'' c)
      else case FromGin c of
        None \<Rightarrow> Done (Unauthorized ''authentication required'' c)
      | Some actor \<Rightarrow>
          Access (\<lambda>w.
            ((let execute = followed_by (next c) (idem_store_prog L D c) in
              case w_Get (id_TenantID actor) (idem_suffix c) w of
                Inr val \<Rightarrow>
                  (case hl_Unmarshal (l_Http L) val of
                     Some sr \<Rightarrow> Done (replay sr c)
                   | None \<Rightarrow> execute)
              | Inl ErrCacheMiss \<Rightarrow> execute
              | Inl (CacheErr e) \<Rightarrow>
                  update (w_emit (logger_FromContext (c_Context c)) LevelWarn
                    ''idempotency store unavailable, proceeding without dedup''
                    [(''error'', AStr e), (''tenant_id'', AStr (id_TenantID actor))]) (next c)), w)))"

definition Enforce_prog ::
  "Libs \<Rightarrow> Deps \<Rightarrow> Env \<Rightarrow> Action \<Rightarrow> string \<Rightarrow> (GinCtx \<Rightarrow> 'r request) \<Rightarrow> GinCtx \<Rightarrow> 'r request" where
  "Enforce_prog L D ev action resourceType next c =
     (case FromGin c of
        None \<Rightarrow> Done (Unauthorized ''authentication required'' c)
      | Some actor \<Rightarrow>
          (let input = enforce_input action resourceType (Some (queryResourceExtractor (l_ParseFloat L))) c actor;
               decision = Evaluate (d_Engine D) (ev_select ev) input;
               c' = expose_decision decision c
           in update (\<lambda>w. snd (w_Write (d_Auditor D) (ev_audit_now ev)
                  (enforce_record action resourceType (in_Resource input) decision c actor) w))
                (if \<not> dec_Allow decision
                 then Done (Abort 403 CodeForbidden (''denied by policy: '' @ dec_Reason decision) c')
                 else next c')))"

text \<open>The routes; an endpoint makes one access.\<close>

type_synonym 'r route_prog = "string \<times> string \<times> (GinCtx \<Rightarrow> 'r request)"

definition registerStubRoutes_prog :: "Libs \<Rightarrow> Deps \<Rightarrow> Env \<Rightarrow> 'r route_prog list" where
  "registerStubRoutes_prog L D ev =
     [(''POST'', ''/v1/orders'',
         Idempotency_prog L D (Enforce_prog L D ev ActionCreate ''order'' (atomic stub_handle))),
      (''GET'', ''/v1/orders/:id'', Enforce_prog L D ev ActionRead ''order'' (atomic stub_handle)),
      (''PUT'', ''/v1/orders/:id'', Enforce_prog L D ev ActionUpdate ''order'' (atomic stub_handle)),
      (''GET'', ''/v1/inventory'', Enforce_prog L D ev ActionRead ''inventory'' (atomic stub_handle)),
      (''PUT'', ''/v1/inventory'', Enforce_prog L D ev ActionUpdate ''inventory'' (atomic stub_handle)),
      (''GET'', ''/v1/shipments/:id'', Enforce_prog L D ev ActionRead ''shipment'' (atomic stub_handle))]"

definition registerAPIKeyRoutes_prog :: "Libs \<Rightarrow> Deps \<Rightarrow> Env \<Rightarrow> 'r route_prog list" where
  "registerAPIKeyRoutes_prog L D ev =
     (if \<not> d_APIKeys D then []
      else
       [(''POST'', ''/v1/api-keys'', Enforce_prog L D ev ActionCreate ''api_key'' (atomic
          (APIKeyHandler_Create (l_bind_key L) (\<lambda>spec. on_db (Create (l_Key L) (ev_store ev) spec))))),
        (''GET'', ''/v1/api-keys'', Enforce_prog L D ev ActionRead ''api_key'' (atomic
          (APIKeyHandler_List (\<lambda>t w. List_keys (l_Key L) (ev_store ev) t (w_Db w))))),
        (''POST'', ''/v1/api-keys/:id/rotate'', Enforce_prog L D ev ActionUpdate ''api_key'' (atomic
          (APIKeyHandler_Rotate (\<lambda>t i. on_db (Rotate (l_Key L) (ev_store ev) t i))))),
        (''DELETE'', ''/v1/api-keys/:id'', Enforce_prog L D ev ActionDelete ''api_key'' (atomic
          (APIKeyHandler_Revoke (\<lambda>t i. on_db (Revoke (l_Key L) (ev_store ev) t i)))))])"

definition v1_prog :: "Libs \<Rightarrow> Deps \<Rightarrow> Env \<Rightarrow> (GinCtx \<Rightarrow> 'r request) \<Rightarrow> GinCtx \<Rightarrow> 'r request" where
  "v1_prog L D ev next = Authenticate_prog L D ev (RateLimit_prog D ev next)"

definition protected_progs :: "Libs \<Rightarrow> Deps \<Rightarrow> Env \<Rightarrow> 'r route_prog list" where
  "protected_progs L D ev = registerStubRoutes_prog L D ev @ registerAPIKeyRoutes_prog L D ev"

definition NewRouter_prog :: "Libs \<Rightarrow> Deps \<Rightarrow> Env \<Rightarrow> 'r route_prog list" where
  "NewRouter_prog L D ev =
     map (\<lambda>(m, p, h). (m, p, atomic h)) (public_routes L D ev) @
     map (\<lambda>(m, p, k). (m, p, v1_prog L D ev k)) (protected_progs L D ev)"

definition matched_prog :: "Libs \<Rightarrow> Deps \<Rightarrow> Env \<Rightarrow> Request \<Rightarrow> GinCtx \<Rightarrow> 'r request" where
  "matched_prog L D ev r =
     (case List.find (\<lambda>(m, p, k). m = req_Method r \<and> p = req_FullPath r) (NewRouter_prog L D ev) of
        Some (_, _, k) \<Rightarrow> k
      | None \<Rightarrow> (\<lambda>c. Done (gin_NotFound c)))"

definition RequestLog_prog :: "Env \<Rightarrow> GinCtx \<Rightarrow> 'r request" where
  "RequestLog_prog ev c' =
     update (w_emit (logger_FromContext (c_Context c')) LevelInfo ''request''
       (access_attrs (ev_latency ev) c')) (Done c')"

definition ServeHTTP_prog :: "Libs \<Rightarrow> Deps \<Rightarrow> Env \<times> Request \<Rightarrow> 'r request" where
  "ServeHTTP_prog L D =
     (\<lambda>(ev, r). followed_by (matched_prog L D ev r (entry_ctx D ev r)) (RequestLog_prog ev))"

text \<open>Requests that are served at the same time.\<close>

definition serve_together :: "Libs \<Rightarrow> Deps \<Rightarrow> (Env \<times> Request) list \<Rightarrow> 'r World \<Rightarrow> (GinCtx, 'r World) threads" where
  "serve_together L D reqs w = launch (map (ServeHTTP_prog L D) reqs) w"

section \<open>A request alone\<close>

lemma alone_Authenticate:
  "alone (Authenticate_prog L D ev k c) w =
   Authenticate (l_Jwt L) (d_Issuer D) (ev_auth_now ev) (resolver L D ev) (\<lambda>c. alone (k c)) c w"
  by (simp add: Authenticate_prog_def Authenticate_def split: prod.splits sum.splits)

lemma alone_RateLimit:
  "alone (RateLimit_prog D ev k c) w =
   RateLimit (w_redis_Allow (ev_limit ev)) (w_memory_Allow (ev_mem_now ev))
     (gc_RateLimitRequests (cfg_Gateway (d_Config D))) (gc_RateLimitWindow (cfg_Gateway (d_Config D)))
     w_emit (\<lambda>c. alone (k c)) c w"
  by (auto simp: RateLimit_prog_def RateLimit_def RateLimit_judge_def Let_def split: option.splits prod.splits)

lemma alone_v1: "alone (v1_prog L D ev k c) w = v1 L D ev (\<lambda>c. alone (k c)) c w"
  by (simp add: v1_prog_def v1_def alone_Authenticate alone_RateLimit [abs_def])

lemma alone_idem_store:
  "alone (idem_store_prog L D c c') w =
   (c', idem_store (l_Http L) w_Set (gc_IdempotencyTTL (cfg_Gateway (d_Config D))) w_emit c c' w)"
  by (auto simp: idem_store_prog_def idem_store_def Let_def split: option.splits prod.splits)

lemma alone_Idempotency:
  "alone (Idempotency_prog L D k c) w = gw_Idempotency L D (\<lambda>c. alone (k c)) c w"
  by (auto simp: Idempotency_prog_def gw_Idempotency_def Idempotency_def idem_lookup_def Let_def alone_idem_store
      split: option.splits sum.splits cache_error.splits)

lemma alone_Enforce:
  "alone (Enforce_prog L D ev a t k c) w = gw_Enforce L D ev a t (\<lambda>c. alone (k c)) c w"
  by (auto simp: Enforce_prog_def gw_Enforce_def Enforce_def Let_def split: option.splits)

lemma alone_endpoint: "(\<lambda>c. alone (atomic h c)) = h"
  by (intro ext) simp

lemmas alone_middleware = alone_v1 alone_Idempotency alone_Enforce

lemma alone_NewRouter:
  "map (\<lambda>(m, p, k). (m, p, \<lambda>c. alone (k c))) (NewRouter_prog L D ev) = NewRouter L D ev"
  by (simp add: NewRouter_prog_def NewRouter_def protected_progs_def protected_routes_def registerStubRoutes_prog_def
      registerStubRoutes_def registerAPIKeyRoutes_prog_def registerAPIKeyRoutes_def public_routes_def auth_Register_def
      alone_endpoint alone_middleware [abs_def])

lemma find_map_route:
  "List.find (\<lambda>(m', p', h). m' = m \<and> p' = p) (map (\<lambda>(m, p, k). (m, p, f k)) rs) =
   map_option (\<lambda>(m, p, k). (m, p, f k)) (List.find (\<lambda>(m', p', k). m' = m \<and> p' = p) rs)"
  by (induction rs) auto

lemma alone_matched: "alone (matched_prog L D ev r c) w = matched L D ev r c w"
  unfolding matched_def matched_prog_def alone_NewRouter [symmetric] find_map_route
  by (simp split: option.splits prod.splits)

lemma alone_ServeHTTP: "alone (ServeHTTP_prog L D (ev, r)) w = ServeHTTP L D ev r w"
  by (simp add: ServeHTTP_prog_def ServeHTTP_eq RequestLog_prog_def alone_matched split: prod.splits)

end
