(* ===== verification/Gateway_Protocol.thy ===== *)
theory Gateway_Protocol
  imports Gateway_Threads
begin

text \<open>
  The protocol that the goroutine of a request keeps to, on every route of
  \<open>internal/gateway/router.go\<close>: it verifies an identity before it asks for a decision, records the
  decision before it acts on it, acts at most once, and writes its access line last. Every access
  is judged for itself, in whatever state the other requests have left, so that the protocol holds
  of every interleaving.
\<close>

section \<open>Definitions\<close>

text \<open>How far a request is.\<close>

datatype phase =
    Entered
  | Verified Identity
  | Granted Identity Action string
  | Settled
  | Answered GinCtx

text \<open>An access of the infrastructure, of the auditor, of an endpoint, and of the access log.\<close>

definition silent :: "'r World \<Rightarrow> 'r World \<Rightarrow> bool" where
  "silent w w' \<longleftrightarrow> quiet w w' \<and> log_grows w w'"

definition recorded :: "Deps \<Rightarrow> AuditRecord \<Rightarrow> 'r World \<Rightarrow> 'r World \<Rightarrow> bool" where
  "recorded D rec w w' \<longleftrightarrow> audited D rec w w' \<and> log_grows w w'"

definition acted :: "KeyLib \<Rightarrow> Identity \<Rightarrow> Action \<Rightarrow> string \<Rightarrow> 'r World \<Rightarrow> 'r World \<Rightarrow> bool" where
  "acted K i a t w w' \<longleftrightarrow> w_Log w' = w_Log w \<and> grows (w_Db w) (w_Db w') \<and>
     (if t = ''api_key''
      then w_Calls w' = w_Calls w \<and> (a = ActionRead \<longrightarrow> w_Db w' = w_Db w) \<and>
        keys_by K (id_TenantID i) (adds_key a) (revokes_key a) (w_Db w) (w_Db w')
      else w_Calls w' = w_Calls w + 1 \<and> w_Db w' = w_Db w)"

definition correlation_id :: "Env \<times> Request \<Rightarrow> string" where
  "correlation_id q = request_id (ev_uuid (fst q)) (fresh_ctx (snd q))"

definition well_formed :: "Deps \<Rightarrow> Env \<times> Request \<Rightarrow> GinCtx \<Rightarrow> bool" where
  "well_formed D q c \<longleftrightarrow> traced (d_Logger D) (correlation_id q) c \<and> answered D (snd q) (correlation_id q) c"

definition closed_by :: "Deps \<Rightarrow> Env \<times> Request \<Rightarrow> GinCtx \<Rightarrow> 'r World \<Rightarrow> 'r World \<Rightarrow> bool" where
  "closed_by D q c w w' \<longleftrightarrow> quiet w w' \<and>
     (\<exists>as. w_Log w' = w_Log w @
        (if lg_Level (d_Logger D) \<le> LevelInfo then [access_line D (fst q) (correlation_id q) as c] else []))"

definition on_route :: "Request \<Rightarrow> Action \<Rightarrow> string \<Rightarrow> bool" where
  "on_route r a t \<longleftrightarrow> (req_Method r, req_FullPath r, a, t) \<in> set route_policy"

fun open_phase :: "phase \<Rightarrow> bool" where
  "open_phase (Granted i a t) = False"
| "open_phase (Answered c) = False"
| "open_phase ph = True"

inductive request_moves ::
  "Libs \<Rightarrow> Deps \<Rightarrow> Env \<times> Request \<Rightarrow> phase \<Rightarrow> phase \<Rightarrow> 'r World \<Rightarrow> 'r World \<Rightarrow> bool"
  for L D q where
  stay: "open_phase ph \<Longrightarrow> silent w w' \<Longrightarrow> request_moves L D q ph ph w w'"
| verify: "presented L D (fst q) (snd q) w = Inr i \<Longrightarrow> Valid (id_Role i) \<Longrightarrow> silent w w' \<Longrightarrow>
    request_moves L D q Entered (Verified i) w w'"
| grant: "on_route (snd q) a t \<Longrightarrow> dec_Allow (route_decision L D (fst q) a t (snd q) i) \<Longrightarrow>
    recorded D (route_record L D (fst q) a t (snd q) i) w w' \<Longrightarrow>
    request_moves L D q (Verified i) (Granted i a t) w w'"
| deny: "on_route (snd q) a t \<Longrightarrow> \<not> dec_Allow (route_decision L D (fst q) a t (snd q) i) \<Longrightarrow>
    recorded D (route_record L D (fst q) a t (snd q) i) w w' \<Longrightarrow>
    request_moves L D q (Verified i) Settled w w'"
| act: "acted (l_Key L) i a t w w' \<Longrightarrow> request_moves L D q (Granted i a t) Settled w w'"
| answer: "open_phase ph \<Longrightarrow> well_formed D q c \<Longrightarrow> closed_by D q c w w' \<Longrightarrow>
    request_moves L D q ph (Answered c) w w'"

text \<open>Where the handlers of a request end, and where the request does.\<close>

definition handled :: "Deps \<Rightarrow> Env \<times> Request \<Rightarrow> phase \<Rightarrow> GinCtx \<Rightarrow> bool" where
  "handled D q ph c \<longleftrightarrow> open_phase ph \<and> well_formed D q c"

definition request_ends :: "Deps \<Rightarrow> Env \<times> Request \<Rightarrow> phase \<Rightarrow> GinCtx \<Rightarrow> bool" where
  "request_ends D q ph c \<longleftrightarrow> ph = Answered c \<and> well_formed D q c"

text \<open>What the others may do to the shared state between two accesses of a request.\<close>

definition shared_grows :: "'r World \<Rightarrow> 'r World \<Rightarrow> bool" where
  "shared_grows w w' \<longleftrightarrow> grows (w_Db w) (w_Db w') \<and>
     (\<exists>rs. audit_trail (w_Log w') = audit_trail (w_Log w) @ rs)"

text \<open>The context of a request on its way to its endpoint.\<close>

definition on_the_way :: "Deps \<Rightarrow> Env \<times> Request \<Rightarrow> Identity \<Rightarrow> GinCtx \<Rightarrow> bool" where
  "on_the_way D q i c \<longleftrightarrow> FromGin c = Some i \<and> c_Request c = snd q \<and> c_Written c = [] \<and>
     traced (d_Logger D) (correlation_id q) c \<and> routed D (snd q)"

section \<open>Lemmas\<close>

inductive_simps moves_from_Granted: "request_moves L D q (Granted i a t) ph w w'"
inductive_cases request_movesE: "request_moves L D q ph ph' w w'"

lemma silent_refl [simp]: "silent w w"
  by (simp add: silent_def)

lemma silent_emit: "msg \<noteq> ''audit'' \<Longrightarrow> msg \<noteq> ''request'' \<Longrightarrow> silent w (w_emit lg lvl msg as w)"
  by (simp add: silent_def quiet_emit log_grows_emit)

lemma silent_accesses:
  "silent w (snd (w_redis_Allow e t x limit window w))"
  "silent w (snd (w_memory_Allow now t x limit window w))"
  "silent w (snd (w_Set t x v ttl w))"
  "silent w (snd (resolveIdentity J iss n (resolver L D ev) c w))"
  by (simp_all add: silent_def quiet_redis_Allow quiet_memory_Allow quiet_Set quiet_resolveIdentity
      log_grows_same log_frames log_resolveIdentity)

lemma entry_rid: "get_string (entry_ctx D (fst q) (snd q)) RequestIDKey = correlation_id q"
  using traced_entry [of D "fst q" "snd q"] by (simp add: traced_def correlation_id_def)

lemma on_the_way_route:
  assumes "on_the_way D q i c"
  shows "FromGin c = Some i" "c_Request c = snd q" "c_Written c = []"
    "traced (d_Logger D) (correlation_id q) c"
    "get_string c RequestIDKey = get_string (entry_ctx D (fst q) (snd q)) RequestIDKey"
    "routed D (snd q)"
  using assms unfolding entry_rid by (simp_all add: on_the_way_def traced_def)

lemma well_formed_proper:
  "proper (d_Logger D) (correlation_id q) h \<Longrightarrow> traced (d_Logger D) (correlation_id q) c \<Longrightarrow> c_Written c = [] \<Longrightarrow>
   routed D (snd q) \<Longrightarrow> well_formed D q (fst (h c w))"
  unfolding well_formed_def answered_def by (simp add: properD)

lemma well_formed_errors:
  assumes "traced (d_Logger D) (correlation_id q) c" and "c_Written c = []" and "routed D (snd q)"
  shows "well_formed D q (Unauthorized m c)"
    and "well_formed D q (Abort 429 CodeRateLimited m c)" and "well_formed D q (Abort 403 CodeForbidden m c)"
    and "well_formed D q (Abort 400 CodeIdempotency m c)" and "well_formed D q (replay sr c)"
  using assms envelope_busy [OF assms(2,1), of m] envelope_Abort [OF assms(2,1), of 403 CodeForbidden m]
    envelope_Abort [OF assms(2,1), of 400 CodeIdempotency m]
  by (simp_all add: well_formed_def answered_def envelope_errors replayed_replay error_status_def code_defs)

subsection \<open>The programs keep to the protocol\<close>

abbreviation keeps :: "Libs \<Rightarrow> Deps \<Rightarrow> Env \<times> Request \<Rightarrow> phase \<Rightarrow> 'r request \<Rightarrow> bool" where
  "keeps L D q \<equiv> follows (request_moves L D q) (handled D q)"

lemma keeps_Done: "open_phase ph \<Longrightarrow> well_formed D q c \<Longrightarrow> keeps L D q ph (Done c)"
  by (rule follows_Done) (simp add: handled_def)

lemma keeps_silent:
  assumes "open_phase ph" and "\<And>w. silent w (snd (f w))" and "\<And>w. keeps L D q ph (fst (f w))"
  shows "keeps L D q ph (Access f)"
  using assms by (intro follows_Access exI [of _ ph]) (simp add: stay)

lemma keeps_emit:
  assumes "open_phase ph" and "msg \<noteq> ''audit''" and "msg \<noteq> ''request''" and "keeps L D q ph p"
  shows "keeps L D q ph (update (w_emit lg lvl msg as) p)"
  unfolding update_def using assms by (intro keeps_silent) (simp_all add: silent_emit)

lemma modest_acts:
  assumes "modest (l_Key L) a t k" and "FromGin c = Some i"
  shows "acted (l_Key L) i a t w (snd (k c w))"
  using assms by (auto simp: modest_def key_change_def acted_def keys_by_def dest: spec)

lemma keeps_endpoint:
  assumes "on_the_way D q i c" and "modest (l_Key L) a t k" and "proper (d_Logger D) (correlation_id q) k"
  shows "keeps L D q (Granted i a t) (atomic k c)"
proof (rule follows_atomic)
  fix w
  note way = on_the_way_route [OF assms(1)]
  have "request_moves L D q (Granted i a t) Settled w (snd (k c w))"
    by (rule act [OF modest_acts [OF assms(2) way(1)]])
  moreover have "handled D q Settled (fst (k c w))"
    using well_formed_proper [OF assms(3) way(4,3,6)] by (simp add: handled_def)
  ultimately show "\<exists>ph'. request_moves L D q (Granted i a t) ph' w (snd (k c w)) \<and> handled D q ph' (fst (k c w))"
    by blast
qed

lemma keeps_Enforce:
  fixes k :: "'r World handler"
  assumes c: "on_the_way D q i c" and "on_route (snd q) a t" and "modest (l_Key L) a t k"
    and "proper (d_Logger D) (correlation_id q) k"
  shows "keeps L D q (Verified i) (Enforce_prog L D (fst q) a t (atomic k) c)"
proof -
  let ?d = "route_decision L D (fst q) a t (snd q) i"
  let ?input = "enforce_input a t (Some (queryResourceExtractor (l_ParseFloat L))) c i"
  let ?c = "expose_decision ?d c"
  note way = on_the_way_route [OF c]
  note guard = enforce_route [OF way(2,5) refl, where a = a and t = t and L = L and i = i]
  let ?f = "\<lambda>w :: 'r World. snd (w_Write (d_Auditor D) (ev_audit_now (fst q))
    (enforce_record a t (in_Resource ?input) ?d c i) w)"
  have rec: "recorded D (route_record L D (fst q) a t (snd q) i) w (?f w)" for w
    unfolding recorded_def by (rule conjI [OF guard(2) log_grows_Write])
  have c': "on_the_way D q i ?c" using c by (simp add: on_the_way_def)
  have "keeps L D q (Verified i) (update ?f (atomic k ?c))" if "dec_Allow ?d"
    by (rule follows_update [where ph' = "Granted i a t", OF _ keeps_endpoint [OF c' assms(3,4)]])
       (rule grant [OF assms(2) that rec])
  moreover have "keeps L D q (Verified i)
      (update ?f (Done (Abort 403 CodeForbidden (''denied by policy: '' @ dec_Reason ?d) ?c)))" if "\<not> dec_Allow ?d"
  proof (rule follows_update [where ph' = Settled])
    show "request_moves L D q (Verified i) Settled w (?f w)" for w by (rule deny [OF assms(2) that rec])
  qed (simp add: keeps_Done well_formed_errors way)
  ultimately show ?thesis
    using way(1) guard(1) by (auto simp: Enforce_prog_def Let_def)
qed

lemma keeps_idem_store:
  assumes "handled D q ph c'"
  shows "keeps L D q ph (idem_store_prog L D c c' :: 'r request)"
proof -
  have ph: "open_phase ph" and fin: "keeps L D q ph (Done c' :: 'r request)"
    using assms by (simp_all add: handled_def keeps_Done)
  have "keeps L D q ph (Access (\<lambda>w :: 'r World. case w_Set t x b ttl w of
      (None, w') \<Rightarrow> (Done c', w')
    | (Some e, w') \<Rightarrow> (update (w_emit lg LevelWarn ''failed to persist idempotent response'' (as e)) (Done c'), w')))"
    for t x b ttl lg as
  proof (rule keeps_silent [OF ph])
    fix w :: "'r World"
    obtain e w' where set: "w_Set t x b ttl w = (e, w')" by (cases "w_Set t x b ttl w")
    let ?p = "case w_Set t x b ttl w of (None, w') \<Rightarrow> (Done c' :: 'r request, w')
      | (Some e, w') \<Rightarrow> (update (w_emit lg LevelWarn ''failed to persist idempotent response'' (as e)) (Done c'), w')"
    show "silent w (snd ?p)"
      using silent_accesses(3) [of w t x b ttl] set by (cases e) simp_all
    show "keeps L D q ph (fst ?p)"
      using set fin ph by (cases e) (simp_all add: keeps_emit)
  qed
  with fin show ?thesis by (auto simp: idem_store_prog_def Let_def split: option.splits)
qed

lemma keeps_Idempotency:
  assumes c: "on_the_way D q i c" and k: "keeps L D q (Verified i) (k c)"
  shows "keeps L D q (Verified i) (Idempotency_prog L D k c)"
proof -
  note way = on_the_way_route [OF c]
  have exe: "keeps L D q (Verified i) (followed_by (k c) (idem_store_prog L D c))"
    by (rule follows_followed_by [OF k keeps_idem_store])
  note ok = well_formed_errors [OF way(4,3,6)]
  show ?thesis
  proof (cases "GetHeader c HeaderIdempotencyKey = ''''")
    case True
    then show ?thesis by (simp add: Idempotency_prog_def keeps_Done ok)
  next
    case False
    show ?thesis
      unfolding Idempotency_prog_def if_not_P [OF False] way(1) option.case
      by (rule keeps_silent)
         (auto simp: Let_def keeps_Done ok exe k keeps_emit split: sum.splits option.splits cache_error.splits)
  qed
qed

lemma keeps_judge:
  assumes "on_the_way D q i c" and "keeps L D q (Verified i) (k c)"
  shows "keeps L D q (Verified i) (RateLimit_judge k allowed c)"
  using assms well_formed_errors(2) [OF on_the_way_route(4,3,6) [OF assms(1)]]
  by (simp add: RateLimit_judge_def keeps_Done)

lemma keeps_RateLimit:
  assumes c: "on_the_way D q i c" and k: "\<And>c. on_the_way D q i c \<Longrightarrow> keeps L D q (Verified i) (k c)"
  shows "keeps L D q (Verified i) (RateLimit_prog D (fst q) k c)"
proof -
  note way = on_the_way_route [OF c]
  let ?c = "gin_Set FallbackKey (GBool True) c"
  have c': "on_the_way D q i ?c" using c by (simp add: on_the_way_def)
  note judge = keeps_judge [where k = k, OF c k [OF c]] keeps_judge [where k = k, OF c' k [OF c']]
  have mem: "keeps L D q (Verified i) (Access (\<lambda>w.
      case w_memory_Allow now t x limit window w of ((allowed, _), w') \<Rightarrow> (RateLimit_judge k allowed ?c, w')))"
    for now t x limit window
    by (rule keeps_silent) (simp_all add: judge split_beta silent_accesses)
  show ?thesis
    unfolding RateLimit_prog_def way(1) option.case Let_def
    by (rule keeps_silent)
       (simp_all add: judge keeps_emit mem [unfolded split_beta] split_beta silent_accesses split: option.splits)
qed

lemma keeps_v1:
  assumes "\<And>i c. on_the_way D q i c \<Longrightarrow> keeps L D q (Verified i) (k c)" and "routed D (snd q)"
  shows "keeps L D q Entered (v1_prog L D (fst q) k (entry_ctx D (fst q) (snd q)) :: 'r request)"
  unfolding v1_prog_def Authenticate_prog_def
proof (rule follows_Access)
  fix w :: "'r World"
  let ?c = "entry_ctx D (fst q) (snd q)"
  let ?res = "resolveIdentity (l_Jwt L) (d_Issuer D) (ev_auth_now (fst q)) (resolver L D (fst q)) ?c w"
  have c: "c_Written ?c = []" "traced (d_Logger D) (correlation_id q) ?c" "c_Request ?c = snd q"
    using traced_entry [of D "fst q" "snd q"]
    by (simp_all add: entry_ctx_def fresh_ctx_def correlation_id_def)
  obtain reply w' where res: "?res = (reply, w')" by (cases ?res)
  have sil: "silent w w'" using silent_accesses(4) res by (metis snd_conv)
  let ?p = "case ?res of (Inl err, w') \<Rightarrow> (Done (Unauthorized (auth_message err) ?c), w')
    | (Inr i, w') \<Rightarrow> (RateLimit_prog D (fst q) k (install_identity i ?c), w')"
  show "\<exists>ph'. request_moves L D q Entered ph' w (snd ?p) \<and> keeps L D q ph' (fst ?p)"
  proof (cases reply)
    case (Inl err)
    with res sil c assms(2) show ?thesis
      by (intro exI [of _ Entered]) (simp add: stay keeps_Done well_formed_errors)
  next
    case (Inr i)
    have "resolver L D (fst q) = map_option (\<lambda>env k. on_db (Resolve (l_Key L) env k))
        (if d_APIKeys D then Some (ev_resolve (fst q)) else None)"
      by (simp add: resolver_def)
    with res Inr have "Valid (id_Role i)" by (metis world_keys.resolveIdentity_valid)
    moreover have "presented L D (fst q) (snd q) w = Inr i" using res Inr by (simp add: presented_def)
    moreover have "on_the_way D q i (install_identity i ?c)"
      using c assms(2) by (simp add: on_the_way_def traced_identity)
    ultimately show ?thesis
      using res Inr sil keeps_RateLimit [OF _ assms(1)] by (intro exI [of _ "Verified i"]) (simp add: verify)
  qed
qed

subsection \<open>Routes\<close>

text \<open>A protected route: enforcement of its row of the policy, then the endpoint.\<close>

definition guarded_prog :: "Libs \<Rightarrow> Deps \<Rightarrow> Env \<Rightarrow> 'r route_prog \<Rightarrow> bool" where
  "guarded_prog L D ev = (\<lambda>(m, p, k). \<exists>a t h. (m, p, a, t) \<in> set route_policy \<and> modest (l_Key L) a t h \<and>
     (\<forall>base rid. proper base rid h) \<and>
     (k = Enforce_prog L D ev a t (atomic h) \<or> k = Idempotency_prog L D (Enforce_prog L D ev a t (atomic h))))"

lemma guarded_prog_intros:
  assumes "(m, p, a, t) \<in> set route_policy" and "modest (l_Key L) a t h" and "\<And>base rid. proper base rid h"
  shows "guarded_prog L D ev (m, p, Enforce_prog L D ev a t (atomic h))"
    and "guarded_prog L D ev (m, p, Idempotency_prog L D (Enforce_prog L D ev a t (atomic h)))"
  using assms unfolding guarded_prog_def by blast+

lemma guarded_progs: "list_all (guarded_prog L D ev) (protected_progs L D ev)"
  by (simp add: protected_progs_def registerStubRoutes_prog_def registerAPIKeyRoutes_prog_def guarded_prog_intros
      route_policy_def modest_stub modest_keys proper_stub proper_Create proper_List proper_Rotate proper_Revoke)

lemma matched_prog_cases:
  obtains (none) "matched_prog L D ev r = (\<lambda>c. Done (gin_NotFound c) :: 'r request)" "\<not> routed D r"
  | (public) h :: "'r World handler"
    where "(req_Method r, req_FullPath r, h) \<in> set (public_routes L D ev)" "matched_prog L D ev r = atomic h"
  | (protected) k :: "GinCtx \<Rightarrow> 'r request"
    where "(req_Method r, req_FullPath r, k) \<in> set (protected_progs L D ev)"
      "matched_prog L D ev r = v1_prog L D ev k"
proof -
  let ?P = "\<lambda>(m, p, k :: GinCtx \<Rightarrow> 'r request). m = req_Method r \<and> p = req_FullPath r"
  show thesis
  proof (cases "List.find ?P (NewRouter_prog L D ev)")
    case None
    then have "(req_Method r, req_FullPath r) \<notin> (\<lambda>(m, p, h). (m, p)) ` set (NewRouter L D ev :: 'r route list)"
      unfolding alone_NewRouter [symmetric] by (auto simp: find_None_iff)
    then have "\<not> routed D r" using routed_iff by blast
    with None show thesis using none by (simp add: matched_prog_def)
  next
    case (Some route)
    obtain m p k where route: "route = (m, p, k)" by (cases route)
    with Some have "(req_Method r, req_FullPath r, k) \<in> set (NewRouter_prog L D ev)"
      by (auto dest!: find_Some_conv)
    moreover have "matched_prog L D ev r = k" using Some route by (simp add: matched_prog_def)
    ultimately show thesis using public protected by (auto simp: NewRouter_prog_def)
  qed
qed

lemma routed_member:
  fixes h :: "'r World handler" and k :: "GinCtx \<Rightarrow> 'r request"
  shows "(req_Method r, req_FullPath r, h) \<in> set (public_routes L D ev) \<Longrightarrow> routed D r"
    and "(req_Method r, req_FullPath r, k) \<in> set (protected_progs L D ev) \<Longrightarrow> routed D r"
proof -
  have prog: "(req_Method r, req_FullPath r, k') \<in> set (NewRouter_prog L D ev) \<Longrightarrow> routed D r"
    for k' :: "GinCtx \<Rightarrow> 'r request"
    unfolding routed_iff [of D r L ev, where 'r = 'r] alone_NewRouter [symmetric] by force
  show "(req_Method r, req_FullPath r, h) \<in> set (public_routes L D ev) \<Longrightarrow> routed D r"
    by (rule prog [of "atomic h"]) (force simp: NewRouter_prog_def)
  show "(req_Method r, req_FullPath r, k) \<in> set (protected_progs L D ev) \<Longrightarrow> routed D r"
    by (rule prog [of "v1_prog L D ev k"]) (force simp: NewRouter_prog_def)
qed

lemma keeps_matched:
  "keeps L D q Entered (matched_prog L D (fst q) (snd q) (entry_ctx D (fst q) (snd q)) :: 'r request)"
proof -
  let ?c = "entry_ctx D (fst q) (snd q)"
  have c: "c_Written ?c = []" "traced (d_Logger D) (correlation_id q) ?c" "\<not> c_Aborted ?c"
    using traced_entry [of D "fst q" "snd q"]
    by (simp_all add: entry_ctx_def install_request_id_def fresh_ctx_def correlation_id_def Let_def)
  show ?thesis
  proof (cases rule: matched_prog_cases [of L D "fst q" "snd q", where 'r = 'r])
    case none
    with c show ?thesis by (simp add: keeps_Done well_formed_def answered_NotFound)
  next
    case (public h)
    have "keeps L D q Entered (atomic h ?c)"
    proof (rule follows_atomic)
      fix w
      have "snd (h ?c w) = w" by (rule public_quiet [OF public(1)])
      with well_formed_proper [OF proper_public [OF public(1)] c(2,1) routed_member(1) [OF public(1)]]
      show "\<exists>ph'. request_moves L D q Entered ph' w (snd (h ?c w)) \<and> handled D q ph' (fst (h ?c w))"
        by (intro exI [of _ Entered]) (simp add: stay handled_def)
    qed
    with public(2) show ?thesis by simp
  next
    case (protected k)
    from protected(1) guarded_progs [of L D "fst q"] obtain a t h
      where h: "on_route (snd q) a t" "modest (l_Key L) a t h" "\<And>base rid. proper base rid h"
        and k: "k = Enforce_prog L D (fst q) a t (atomic h) \<or>
          k = Idempotency_prog L D (Enforce_prog L D (fst q) a t (atomic h))"
      unfolding list_all_iff guarded_prog_def on_route_def by blast
    have "keeps L D q (Verified i) (k c')" if "on_the_way D q i c'" for i c'
      using k keeps_Enforce [OF that h] 
        keeps_Idempotency [where k = "Enforce_prog L D (fst q) a t (atomic h)", OF that keeps_Enforce [OF that h]]
      by blast
    with keeps_v1 [of D q L k] routed_member(2) [OF protected(1)] protected(2) show ?thesis by simp
  qed
qed

lemma emit_closes:
  assumes "well_formed D q c"
  shows "closed_by D q c w (w_emit (logger_FromContext (c_Context c)) LevelInfo ''request''
    (access_attrs (ev_latency (fst q)) c) w)"
proof -
  obtain as where "logger_FromContext (c_Context c) =
      slog_With (d_Logger D) ((''request_id'', AStr (correlation_id q)) # as)"
    using assms by (auto simp: well_formed_def traced_def)
  then have "w_Log (w_emit (logger_FromContext (c_Context c)) LevelInfo ''request''
      (access_attrs (ev_latency (fst q)) c) w) = w_Log w @
      (if lg_Level (d_Logger D) \<le> LevelInfo then [access_line D (fst q) (correlation_id q) as c] else [])"
    by (simp add: w_emit_def slog_Log_def access_line_def)
  moreover have "quiet w (w_emit (logger_FromContext (c_Context c)) LevelInfo ''request''
      (access_attrs (ev_latency (fst q)) c) w)"
    by (rule quiet_emit) simp
  ultimately show ?thesis unfolding closed_by_def by (intro conjI exI)
qed

lemma follows_ServeHTTP:
  "follows (request_moves L D q) (request_ends D q) Entered (ServeHTTP_prog L D q :: 'r request)"
proof -
  have "follows (request_moves L D q) (request_ends D q) ph (RequestLog_prog (fst q) c :: 'r request)"
    if "handled D q ph c" for ph c
  proof -
    have ok: "open_phase ph" "well_formed D q c" using that by (simp_all add: handled_def)
    show ?thesis
      unfolding RequestLog_prog_def
    proof (rule follows_update [where ph' = "Answered c"])
      show "request_moves L D q ph (Answered c) w (w_emit (logger_FromContext (c_Context c)) LevelInfo ''request''
          (access_attrs (ev_latency (fst q)) c) w)" for w :: "'r World"
        by (rule answer [OF ok emit_closes [OF ok(2)]])
    qed (rule follows_Done, simp add: request_ends_def ok)
  qed
  then have "follows (request_moves L D q) (request_ends D q) Entered
      (followed_by (matched_prog L D (fst q) (snd q) (entry_ctx D (fst q) (snd q))) (RequestLog_prog (fst q)) :: 'r request)"
    by (rule follows_followed_by [OF keeps_matched])
  then show ?thesis by (simp add: ServeHTTP_prog_def case_prod_beta)
qed

lemma moves_shared:
  assumes "request_moves L D q ph ph' w w'"
  shows "shared_grows w w'"
  using assms
  by (cases rule: request_moves.cases)
     (auto simp: shared_grows_def silent_def quiet_def recorded_def audited_def acted_def closed_by_def)

interpretation gateway: protocol "request_moves L D" "request_ends D" "ServeHTTP_prog L D" Entered shared_grows
  for L :: Libs and D :: Deps
  by unfold_locales (rule follows_ServeHTTP, rule moves_shared)

subsection \<open>A bound on the accesses\<close>

lemma within_Enforce: "within 2 (Enforce_prog L D ev a t (atomic k) c)"
  unfolding Enforce_prog_def Let_def numeral_2_eq_2
  by (auto split: option.splits intro!: within_Done within_update within_atomic)

lemma within_idem_store: "within 2 (idem_store_prog L D c c')"
  unfolding idem_store_prog_def Let_def numeral_2_eq_2
  by (auto split: option.splits prod.splits intro!: within_Done within_update within_Access)

lemma within_Idempotency:
  assumes "within 2 (k c)"
  shows "within 5 (Idempotency_prog L D k c)"
proof -
  have exe: "within 4 (followed_by (k c) (idem_store_prog L D c))"
    using within_followed_by [OF assms within_idem_store] by simp
  have degr: "within 4 (update f (k c))" for f
    using within_mono [OF within_update [OF assms], of 4] by simp
  have access: "(\<And>w. within 4 (fst (f w))) \<Longrightarrow> within 5 (Access f)" for f :: "'b \<Rightarrow> (GinCtx, 'b) prog \<times> 'b"
    using within_Access [of 4 f] by simp
  show ?thesis
    unfolding Idempotency_prog_def Let_def
    by (auto simp: exe degr split: option.splits sum.splits cache_error.splits intro!: within_Done access)
qed

lemma within_RateLimit:
  assumes "\<And>c. within n (k c)"
  shows "within (Suc (Suc (Suc n))) (RateLimit_prog D ev k c)"
proof -
  have judge: "within n (RateLimit_judge k allowed c)" for allowed c
    using assms by (simp add: RateLimit_judge_def within_Done)
  have "within (Suc (Suc n)) (RateLimit_judge k allowed c)" for allowed c
    by (rule within_mono [OF judge]) simp
  with judge show ?thesis
    unfolding RateLimit_prog_def Let_def
    by (auto split: option.splits prod.splits intro!: within_Done within_Access within_update)
qed

lemma within_v1:
  assumes "\<And>c. within n (k c)"
  shows "within (n + 4) (v1_prog L D ev k c)"
proof -
  have "within (Suc (Suc (Suc (Suc n)))) (v1_prog L D ev k c)"
    unfolding v1_prog_def Authenticate_prog_def
    by (rule within_Access)
       (auto split: prod.splits sum.splits intro: within_Done within_RateLimit [OF assms])
  then show ?thesis by (simp add: eval_nat_numeral)
qed

lemma within_matched: "within 9 (matched_prog L D ev r c :: 'r request)"
proof (cases rule: matched_prog_cases [of L D ev r, where 'r = 'r])
  case none
  then show ?thesis by (simp add: within_Done)
next
  case (public h)
  then show ?thesis using within_atomic [of 8 h c] by simp
next
  case (protected k)
  from protected(1) guarded_progs [of L D ev] obtain a t h
    where k: "k = Enforce_prog L D ev a t (atomic h) \<or> k = Idempotency_prog L D (Enforce_prog L D ev a t (atomic h))"
    unfolding list_all_iff guarded_prog_def by blast
  have "within 5 (k c)" for c
    using k within_mono [OF within_Enforce, of 5] within_Idempotency [OF within_Enforce] by auto
  from within_v1 [of 5, OF this] protected(2) show ?thesis by simp
qed

lemma within_ServeHTTP: "within 10 (ServeHTTP_prog L D q)"
proof -
  have "within 1 (RequestLog_prog ev c)" for ev c
    unfolding RequestLog_prog_def One_nat_def by (rule within_update) (rule within_Done)
  from within_followed_by [OF within_matched this] show ?thesis
    by (simp add: ServeHTTP_prog_def case_prod_beta)
qed

lemma together_within:
  assumes "interleaves (serve_together L D reqs w) ws s"
  shows "length ws \<le> 10 * length reqs"
proof -
  have "list_all2 within (replicate (length reqs) 10) (th_Progs (serve_together L D reqs w))"
    by (auto simp: serve_together_def launch_def list_all2_conv_all_nth within_ServeHTTP)
  from run_within [OF assms this] show ?thesis by (auto simp: sum_list_replicate)
qed

end
