(* ===== verification/Gateway_Together.thy ===== *)
theory Gateway_Together
  imports Gateway_Protocol
begin

text \<open>
  Requests that the gateway of \<open>internal/gateway/router.go\<close> serves at the same time, in any
  interleaving of their accesses: what each of them may do and when, what the audit trail and the
  access log say of all of them, and what becomes of a key that is revoked among them.
\<close>

section \<open>Definitions\<close>

text \<open>The record that a request owes an effect for.\<close>

fun owes :: "Libs \<Rightarrow> Deps \<Rightarrow> (AuditRecord \<Rightarrow> bool) \<Rightarrow> Env \<times> Request \<Rightarrow> phase \<Rightarrow> nat" where
  "owes L D P q (Granted i a t) = (if P (route_record L D (fst q) a t (snd q) i) then 1 else 0)"
| "owes L D P q ph = 0"

definition owing :: "Libs \<Rightarrow> Deps \<Rightarrow> (AuditRecord \<Rightarrow> bool) \<Rightarrow> (Env \<times> Request) list \<Rightarrow> phase list \<Rightarrow> nat" where
  "owing L D P reqs phs = (\<Sum>j < length reqs. owes L D P (reqs ! j) (phs ! j))"

text \<open>The trail accounts for the effects so far and for those that are owed.\<close>

definition accounted_with :: "KeyLib \<Rightarrow> ((AuditRecord \<Rightarrow> bool) \<Rightarrow> nat) \<Rightarrow> 'r World \<Rightarrow> bool" where
  "accounted_with K n w \<longleftrightarrow> db_ok (w_Db w) \<and>
     w_Calls w + of_nat (n ran) = of_nat (length (filter ran (audit_trail (w_Log w)))) \<and>
     (\<forall>t. length (tenant_view t (w_Db w)) + n (key_record K adds_key t) \<le>
            length (filter (key_record K adds_key t) (audit_trail (w_Log w))) \<and>
          length (filter (\<lambda>r. \<not> live r) (tenant_view t (w_Db w))) + n (key_record K revokes_key t) \<le>
            length (filter (key_record K revokes_key t) (audit_trail (w_Log w))))"

text \<open>What is known of a request by its phase: who it is for, and the record it left.\<close>

fun vouched :: "Libs \<Rightarrow> Deps \<Rightarrow> 'r World list \<Rightarrow> 'r World \<Rightarrow> Env \<times> Request \<Rightarrow> phase \<Rightarrow> bool" where
  "vouched L D ws w q (Verified i) \<longleftrightarrow>
     (\<exists>v \<in> set ws. presented L D (fst q) (snd q) v = Inr i) \<and> Valid (id_Role i)"
| "vouched L D ws w q (Granted i a t) \<longleftrightarrow>
     (\<exists>v \<in> set ws. presented L D (fst q) (snd q) v = Inr i) \<and> Valid (id_Role i) \<and>
     on_route (snd q) a t \<and> dec_Allow (route_decision L D (fst q) a t (snd q) i) \<and>
     (audit_enabled (d_Auditor D) \<longrightarrow> route_record L D (fst q) a t (snd q) i \<in> set (audit_trail (w_Log w)))"
| "vouched L D ws w q ph \<longleftrightarrow> True"

definition all_vouched ::
  "Libs \<Rightarrow> Deps \<Rightarrow> (Env \<times> Request) list \<Rightarrow> phase list \<Rightarrow> 'r World list \<Rightarrow> 'r World \<Rightarrow> bool" where
  "all_vouched L D reqs phs ws w \<longleftrightarrow> (\<forall>j < length reqs. vouched L D ws w (reqs ! j) (phs ! j))"

section \<open>Mediation\<close>

lemma shared_trail: "shared_grows w w' \<Longrightarrow> set (audit_trail (w_Log w)) \<subseteq> set (audit_trail (w_Log w'))"
  by (auto simp: shared_grows_def)

lemma vouched_later:
  assumes "vouched L D ws w q ph" and "shared_grows w w'"
  shows "vouched L D (ws @ [w]) w' q ph"
  using assms(1) shared_trail [OF assms(2)] by (cases ph) auto

lemma vouched_moves:
  assumes "vouched L D ws w q ph" and "request_moves L D q ph ph' w w'"
  shows "vouched L D (ws @ [w]) w' q ph'"
  using assms(2)
proof (cases rule: request_moves.cases)
  case stay
  with vouched_later [OF assms(1) moves_shared [OF assms(2)]] show ?thesis by simp
next
  case (grant a t i)
  with assms(1) show ?thesis by (auto simp: recorded_def audited_def)
qed auto

lemma all_vouched_moves:
  assumes "all_vouched L D reqs phs ws w" and "j < length reqs" and "length phs = length reqs"
    and "request_moves L D (reqs ! j) (phs ! j) ph' w w'"
  shows "all_vouched L D reqs (phs[j := ph']) (ws @ [w]) w'"
  unfolding all_vouched_def
proof (intro allI impI)
  fix k
  assume k: "k < length reqs"
  then have v: "vouched L D ws w (reqs ! k) (phs ! k)" using assms(1) by (simp add: all_vouched_def)
  show "vouched L D (ws @ [w]) w' (reqs ! k) (phs[j := ph'] ! k)"
  proof (cases "k = j")
    case True
    with vouched_moves [of L D ws w "reqs ! j" "phs ! j"] v assms(2-4) show ?thesis by simp
  next
    case False
    with vouched_later [OF v moves_shared [OF assms(4)]] show ?thesis by simp
  qed
qed

lemma all_vouched_start: "all_vouched L D reqs (replicate (length reqs) Entered) [] w"
  by (simp add: all_vouched_def)

text \<open>An access that runs a handler or changes a key is the act of a verified, allowed, recorded request.\<close>

lemma together_mediated:
  assumes run: "interleaves (serve_together L D reqs w) ws s" and step: "thread_step j s = Some s'"
    and effect: "w_Calls (th_World s') \<noteq> w_Calls (th_World s) \<or>
      key_view (w_Db (th_World s')) \<noteq> key_view (w_Db (th_World s))"
  obtains i a t where "j < length reqs" "vouched L D ws (th_World s) (reqs ! j) (Granted i a t)"
    "acted (l_Key L) i a t (th_World s) (th_World s')"
proof -
  obtain phs where k: "gateway.keeping L D reqs phs s" and v: "all_vouched L D reqs phs ws (th_World s)"
    by (rule gateway.launch_keeps [where I = "all_vouched L D reqs", OF run [unfolded serve_together_def]
          all_vouched_start all_vouched_moves])
  from k step obtain ph' where j: "j < length reqs"
    and m: "request_moves L D (reqs ! j) (phs ! j) ph' (th_World s) (th_World s')"
    by (rule gateway.keeping_step)
  from m effect obtain i a t where "phs ! j = Granted i a t" "acted (l_Key L) i a t (th_World s) (th_World s')"
    by (cases rule: request_moves.cases)
       (auto simp: silent_def quiet_def recorded_def audited_def closed_by_def)
  with that [OF j] v j show thesis by (auto simp: all_vouched_def simp del: vouched.simps)
qed

section \<open>The audit trail\<close>

lemma owing_update:
  assumes "j < length reqs" and "length phs = length reqs"
  shows "owing L D P reqs (phs[j := ph']) + owes L D P (reqs ! j) (phs ! j) =
    owing L D P reqs phs + owes L D P (reqs ! j) ph'"
  unfolding owing_def by (rule sum_list_update_at [OF assms])

lemma owing_start: "owing L D P reqs (replicate (length reqs) Entered) = 0"
  by (simp add: owing_def)

lemma accounted_with_quiet:
  assumes "accounted_with K n w" and "quiet w w'"
  shows "accounted_with K n w'"
  using assms grows_db_ok by (auto simp: accounted_with_def quiet_def tenant_view_def)

lemma accounted_with_cong: "(\<And>P. n' P = n P) \<Longrightarrow> accounted_with K n w = accounted_with K n' w"
  by (simp add: accounted_with_def)

lemma accounted_with_recorded:
  assumes "accounted_with K n w" and "recorded D rec w w'" and "audit_enabled (d_Auditor D)"
    and "\<And>P. n' P \<le> n P + (if P rec then 1 else 0)"
    and "n' ran = n ran + (if ran rec then 1 else 0)"
  shows "accounted_with K n' w'"
proof -
  have trail: "audit_trail (w_Log w') = audit_trail (w_Log w) @ [rec]" and same: "w_Calls w' = w_Calls w"
      "key_view (w_Db w') = key_view (w_Db w)" and "db_ok (w_Db w')"
    using assms(1-3) grows_db_ok by (auto simp: recorded_def audited_def accounted_with_def)
  moreover have "length (tenant_view t (w_Db w)) + n' (key_record K adds_key t) \<le>
        length (filter (key_record K adds_key t) (audit_trail (w_Log w'))) \<and>
      length (filter (\<lambda>r. \<not> live r) (tenant_view t (w_Db w))) + n' (key_record K revokes_key t) \<le>
        length (filter (key_record K revokes_key t) (audit_trail (w_Log w')))" for t
  proof -
    have "length (tenant_view t (w_Db w)) + n (key_record K adds_key t) \<le>
          length (filter (key_record K adds_key t) (audit_trail (w_Log w)))"
        "length (filter (\<lambda>r. \<not> live r) (tenant_view t (w_Db w))) + n (key_record K revokes_key t) \<le>
          length (filter (key_record K revokes_key t) (audit_trail (w_Log w)))"
      using assms(1) by (simp_all add: accounted_with_def)
    with assms(4) [of "key_record K adds_key t"] assms(4) [of "key_record K revokes_key t"] show ?thesis
      by (simp add: trail split: if_splits)
  qed
  moreover have "w_Calls w + of_nat (n' ran) = of_nat (length (filter ran (audit_trail (w_Log w'))))"
    using assms(1) unfolding accounted_with_def by (simp add: trail assms(5) add.assoc [symmetric])
  ultimately show ?thesis by (simp add: accounted_with_def tenant_view_def)
qed

lemma accounted_with_acted:
  assumes acc: "accounted_with (l_Key L) n w" and act: "acted (l_Key L) i a t w w'"
    and allow: "dec_Allow (route_decision L D ev a t r i)" and "eng_rules (d_Engine D) = DefaultRules"
    and owed: "\<And>P. n P = n' P + (if P (route_record L D ev a t r i) then 1 else 0)"
  shows "accounted_with (l_Key L) n' w'"
proof -
  let ?K = "l_Key L" and ?rec = "route_record L D ev a t r i"
  have log: "w_Log w' = w_Log w" and ok: "db_ok (w_Db w')"
    using act acc grows_db_ok by (auto simp: acted_def accounted_with_def)
  have old: "length (tenant_view u (w_Db w)) + n (key_record ?K adds_key u) \<le>
        length (filter (key_record ?K adds_key u) (audit_trail (w_Log w))) \<and>
      length (filter (\<lambda>r. \<not> live r) (tenant_view u (w_Db w))) + n (key_record ?K revokes_key u) \<le>
        length (filter (key_record ?K revokes_key u) (audit_trail (w_Log w)))" for u
    using acc by (simp add: accounted_with_def)
  have view: "length (tenant_view u (w_Db w')) \<le> length (tenant_view u (w_Db w)) +
        (if key_record ?K adds_key u ?rec then 1 else 0) \<and>
      length (filter (\<lambda>r. \<not> live r) (tenant_view u (w_Db w'))) \<le>
        length (filter (\<lambda>r. \<not> live r) (tenant_view u (w_Db w))) +
        (if key_record ?K revokes_key u ?rec then 1 else 0)" for u
  proof (cases "t = ''api_key'' \<and> kl_uuid ?K (id_TenantID i) = Some u")
    case True
    have "adds_key a \<or> revokes_key a \<Longrightarrow> id_Role i = RoleAdmin"
      using key_change_admin [OF assms(4)] allow True by blast
    with True act acc allow show ?thesis
      by (auto simp: acted_def keys_by_def accounted_with_def key_record_def)
  next
    case False
    with act acc have "tenant_view u (w_Db w') = tenant_view u (w_Db w)"
      by (auto simp: acted_def keys_by_def accounted_with_def split: if_splits)
    then show ?thesis by simp
  qed
  have "w_Calls w' + of_nat (n' ran) = w_Calls w + of_nat (n ran)"
    using act allow owed [of ran] by (auto simp: acted_def ran_def split: if_splits)
  moreover have "length (tenant_view u (w_Db w')) + n' (key_record ?K adds_key u) \<le>
        length (filter (key_record ?K adds_key u) (audit_trail (w_Log w))) \<and>
      length (filter (\<lambda>r. \<not> live r) (tenant_view u (w_Db w'))) + n' (key_record ?K revokes_key u) \<le>
        length (filter (key_record ?K revokes_key u) (audit_trail (w_Log w)))" for u
    using view [of u] old [of u] owed [of "key_record ?K adds_key u"] owed [of "key_record ?K revokes_key u"]
    by linarith
  ultimately show ?thesis
    using ok acc by (simp add: accounted_with_def log)
qed

lemma owing_move:
  assumes "j < length reqs" and "length phs = length reqs"
    and "owes L D P (reqs ! j) (phs ! j) = m" and "owes L D P (reqs ! j) ph' = m'"
  shows "owing L D P reqs (phs[j := ph']) + m = owing L D P reqs phs + m'"
  using owing_update [OF assms(1,2), of L D P ph'] assms(3,4) by simp

lemma open_owes: "open_phase ph \<Longrightarrow> owes L D P q ph = 0"
  by (cases ph) simp_all

lemma accounted_moves:
  assumes acc: "accounted_with (l_Key L) (\<lambda>P. owing L D P reqs phs) w"
    and v: "all_vouched L D reqs phs ws w" and j: "j < length reqs" "length phs = length reqs"
    and on: "audit_enabled (d_Auditor D)" "eng_rules (d_Engine D) = DefaultRules"
    and m: "request_moves L D (reqs ! j) (phs ! j) ph' w w'"
  shows "accounted_with (l_Key L) (\<lambda>P. owing L D P reqs (phs[j := ph'])) w'"
proof -
  note move = owing_move [OF j, where ph' = ph']
  have still: ?thesis if "quiet w w'" "\<And>P. owes L D P (reqs ! j) (phs ! j) = 0" "\<And>P. owes L D P (reqs ! j) ph' = 0"
  proof -
    have "owing L D P reqs (phs[j := ph']) = owing L D P reqs phs" for P
      using move [OF that(2,3)] by simp
    with accounted_with_quiet [OF acc that(1)] show ?thesis by simp
  qed
  show ?thesis
    using m
  proof (cases rule: request_moves.cases)
    case stay
    then show ?thesis by (intro still) (simp_all add: silent_def open_owes)
  next
    case (verify i)
    then show ?thesis by (intro still) (simp_all add: silent_def)
  next
    case (grant a t i)
    let ?rec = "route_record L D (fst (reqs ! j)) a t (snd (reqs ! j)) i"
    have "owing L D P reqs (phs[j := ph']) = owing L D P reqs phs + (if P ?rec then 1 else 0)" for P
      using move [of L D P 0 "if P ?rec then 1 else 0"] grant(1,2) by simp
    with accounted_with_recorded [OF acc grant(5) on(1)] show ?thesis by simp
  next
    case (deny a t i)
    let ?rec = "route_record L D (fst (reqs ! j)) a t (snd (reqs ! j)) i"
    have same: "owing L D P reqs (phs[j := ph']) = owing L D P reqs phs" for P
      using move [of L D P 0 0] deny(1,2) by simp
    have "\<not> ran ?rec" using deny(4) by (simp add: ran_def)
    then show ?thesis by (intro accounted_with_recorded [OF acc deny(5) on(1)]) (simp_all add: same)
  next
    case (act i a t)
    have "dec_Allow (route_decision L D (fst (reqs ! j)) a t (snd (reqs ! j)) i)"
      using v j(1) act(1) by (auto simp: all_vouched_def dest!: spec [of _ j])
    moreover have "owing L D P reqs phs = owing L D P reqs (phs[j := ph']) +
        (if P (route_record L D (fst (reqs ! j)) a t (snd (reqs ! j)) i) then 1 else 0)" for P
      using move [of L D P "if P (route_record L D (fst (reqs ! j)) a t (snd (reqs ! j)) i) then 1 else 0" 0]
        act(1,2) by simp
    ultimately show ?thesis by (rule accounted_with_acted [OF acc act(3) _ on(2)])
  next
    case (answer c)
    then show ?thesis by (intro still) (simp_all add: closed_by_def open_owes)
  qed
qed

lemma answered_finished:
  assumes "gateway.keeping L D reqs phs s" and "j < length reqs"
  shows "finished (th_Progs s ! j) \<longleftrightarrow> (\<exists>c. phs ! j = Answered c)"
proof
  assume "finished (th_Progs s ! j)"
  then obtain c where "th_Progs s ! j = Done c" by (auto simp: finished_iff)
  from gateway.keeping_final [OF assms this] show "\<exists>c. phs ! j = Answered c"
    by (auto simp: request_ends_def)
next
  assume "\<exists>c. phs ! j = Answered c"
  then obtain c where c: "phs ! j = Answered c" by blast
  have f: "follows (request_moves L D (reqs ! j)) (request_ends D (reqs ! j)) (Answered c) (th_Progs s ! j)"
    using assms unfolding c [symmetric] gateway.keeping_def by blast
  show "finished (th_Progs s ! j)"
  proof (cases "th_Progs s ! j")
    case (Access g)
    with f obtain ph' where "request_moves L D (reqs ! j) (Answered c) ph' (th_World s) (snd (g (th_World s)))"
      by (metis follows_AccessE)
    then show ?thesis by (cases rule: request_moves.cases) auto
  qed simp
qed

lemma owing_unfinished:
  assumes "gateway.keeping L D reqs phs s"
  shows "owing L D P reqs phs \<le> length (filter (\<lambda>p. \<not> finished p) (th_Progs s))"
proof -
  have len: "length (th_Progs s) = length reqs" using assms by (simp add: gateway.keeping_def)
  have "owes L D P (reqs ! j) (phs ! j) \<le> (if \<not> finished (th_Progs s ! j) then 1 else 0)" if "j < length reqs" for j
    using answered_finished [OF assms that] by (cases "phs ! j") auto
  then have "owing L D P reqs phs \<le> (\<Sum>j < length reqs. if \<not> finished (th_Progs s ! j) then 1 else 0)"
    unfolding owing_def by (intro sum_mono) simp
  also have "\<dots> = length (filter (\<lambda>p. \<not> finished p) (th_Progs s))"
    unfolding len [symmetric] by (rule sum_filter_length)
  finally show ?thesis .
qed

lemma accounted_start:
  assumes "accounted (l_Key L) w"
  shows "accounted_with (l_Key L) (\<lambda>P. owing L D P reqs (replicate (length reqs) Entered)) w"
  using assms by (simp add: accounted_def accounted_with_def owing_start)

text \<open>At every moment the trail accounts for what was done, up to the requests on their way.\<close>

lemma together_accounted:
  assumes run: "interleaves (serve_together L D reqs w) ws s" and "audit_enabled (d_Auditor D)"
    and "eng_rules (d_Engine D) = DefaultRules" and "accounted (l_Key L) w"
  obtains phs where "gateway.keeping L D reqs phs s"
    "accounted_with (l_Key L) (\<lambda>P. owing L D P reqs phs) (th_World s)"
proof -
  let ?I = "\<lambda>phs ws w. all_vouched L D reqs phs ws w \<and> accounted_with (l_Key L) (\<lambda>P. owing L D P reqs phs) w"
  have "?I (replicate (length reqs) Entered) [] w"
    using all_vouched_start accounted_start [OF assms(4)] by blast
  moreover have "?I (phs[j := ph']) (vs @ [w]) w'" if "?I phs vs w" "j < length reqs" "length phs = length reqs"
      "request_moves L D (reqs ! j) (phs ! j) ph' w w'" for phs vs w j ph' w'
    using that all_vouched_moves [of L D reqs phs vs w j ph' w'] accounted_moves [OF _ _ that(2,3) assms(2,3) that(4)]
    by blast
  ultimately show thesis
    using gateway.launch_keeps [where I = ?I, OF run [unfolded serve_together_def]] that by blast
qed

section \<open>The access log\<close>

fun answers_of :: "phase \<Rightarrow> nat" where
  "answers_of (Answered c) = 1"
| "answers_of ph = 0"

lemma answers_of_open: "\<forall>c. ph \<noteq> Answered c \<Longrightarrow> answers_of ph = 0"
  by (cases ph) simp_all

definition logged :: "Deps \<Rightarrow> (Env \<times> Request) list \<Rightarrow> nat \<Rightarrow> phase list \<Rightarrow> 'r World list \<Rightarrow> 'r World \<Rightarrow> bool" where
  "logged D reqs n phs ws w \<longleftrightarrow>
     length (access_lines (w_Log w)) = n + (\<Sum>j < length reqs. answers_of (phs ! j)) \<and>
     (\<forall>j < length reqs. \<forall>c. phs ! j = Answered c \<longrightarrow>
        (\<exists>as. access_line D (fst (reqs ! j)) (correlation_id (reqs ! j)) as c \<in> set (w_Log w)))"

lemma access_lines_grows: "log_grows w w' \<Longrightarrow> access_lines (w_Log w') = access_lines (w_Log w)"
  by (auto simp: log_grows_def access_lines_def)

lemma moves_log:
  assumes "request_moves L D q ph ph' w w'"
  shows "log_grows w w' \<and> (\<forall>c. ph' \<noteq> Answered c) \<and> (\<forall>c. ph \<noteq> Answered c) \<or>
    (\<exists>c. ph' = Answered c \<and> (\<forall>c. ph \<noteq> Answered c) \<and> closed_by D q c w w')"
  using assms by (cases rule: request_moves.cases) (auto simp: silent_def recorded_def acted_def log_grows_same)

lemma logged_moves:
  assumes "logged D reqs n phs ws w" and j: "j < length reqs" "length phs = length reqs"
    and m: "request_moves L D (reqs ! j) (phs ! j) ph' w w'" and "lg_Level (d_Logger D) \<le> LevelInfo"
  shows "logged D reqs n (phs[j := ph']) (ws @ [w]) w'"
proof -
  note upd = sum_list_update_at [OF j, of "\<lambda>_. answers_of" ph']
  have lines: "\<exists>as. access_line D (fst (reqs ! k)) (correlation_id (reqs ! k)) as c \<in> set (w_Log w')"
    if "phs ! k = Answered c" "k < length reqs" "set (w_Log w) \<subseteq> set (w_Log w')" for k c
    using assms(1) that unfolding logged_def by blast
  from moves_log [OF m] show ?thesis
  proof (elim disjE exE conjE)
    assume g: "log_grows w w'" and no: "\<forall>c. ph' \<noteq> Answered c" "\<forall>c. phs ! j \<noteq> Answered c"
    have "answers_of (phs ! j) = 0" "answers_of ph' = 0" using no by (simp_all add: answers_of_open)
    moreover have "set (w_Log w) \<subseteq> set (w_Log w')" using g by (auto simp: log_grows_def)
    moreover have "phs ! k = Answered c" if "phs[j := ph'] ! k = Answered c" for k c
      using that no j by (cases "k = j") auto
    ultimately show ?thesis
      using assms(1) upd access_lines_grows [OF g] lines by (simp add: logged_def)
  next
    fix c
    assume c: "ph' = Answered c" and no: "\<forall>c. phs ! j \<noteq> Answered c" and cl: "closed_by D (reqs ! j) c w w'"
    obtain as where log: "w_Log w' = w_Log w @ [access_line D (fst (reqs ! j)) (correlation_id (reqs ! j)) as c]"
      using cl assms(5) by (auto simp: closed_by_def)
    have "answers_of (phs ! j) = 0" "answers_of ph' = 1" using c no by (simp_all add: answers_of_open)
    with assms(1) upd have "length (access_lines (w_Log w')) =
        n + (\<Sum>k < length reqs. answers_of (phs[j := ph'] ! k))"
      by (simp add: logged_def log access_lines_def access_line_def)
    moreover have "\<exists>as. access_line D (fst (reqs ! k)) (correlation_id (reqs ! k)) as c' \<in> set (w_Log w')"
      if "k < length reqs" "phs[j := ph'] ! k = Answered c'" for k c'
      using that lines [of k c'] c j by (cases "k = j") (auto simp: log)
    ultimately show ?thesis by (simp add: logged_def)
  qed
qed

lemma together_logged:
  assumes run: "interleaves (serve_together L D reqs w) ws s" and "lg_Level (d_Logger D) \<le> LevelInfo"
  obtains phs where "gateway.keeping L D reqs phs s"
    "logged D reqs (length (access_lines (w_Log w))) phs ws (th_World s)"
proof (rule gateway.launch_keeps [where I = "logged D reqs (length (access_lines (w_Log w)))",
      OF run [unfolded serve_together_def] _ logged_moves [OF _ _ _ _ assms(2)]])
  show "logged D reqs (length (access_lines (w_Log w))) (replicate (length reqs) Entered) [] w"
    by (simp add: logged_def)
qed (use that in auto)

lemma answered_count:
  assumes "gateway.keeping L D reqs phs s"
  shows "(\<Sum>j < length reqs. answers_of (phs ! j)) = length (filter finished (th_Progs s))"
proof -
  have len: "length (th_Progs s) = length reqs" using assms by (simp add: gateway.keeping_def)
  have "answers_of (phs ! j) = (if finished (th_Progs s ! j) then 1 else 0)" if "j < length reqs" for j
    using answered_finished [OF assms that] by (cases "phs ! j") auto
  then have "(\<Sum>j < length reqs. answers_of (phs ! j)) =
      (\<Sum>j < length reqs. if finished (th_Progs s ! j) then 1 else 0 :: nat)"
    by (intro sum.cong) auto
  also have "\<dots> = length (filter finished (th_Progs s))"
    unfolding len [symmetric] by (rule sum_filter_length)
  finally show ?thesis .
qed

end
