(* ===== verification/Key_Lockout.thy ===== *)
theory Key_Lockout
  imports Gateway_Together
begin

text \<open>
  Revocation among requests that \<open>internal/gateway/router.go\<close> serves at the same time. What a request
  relies on of the others is \<open>shared_grows\<close>: rows of the key table keep their digest and their
  revocation, and the audit trail is only extended. Under it, a revocation that answers 204 leaves
  the key revoked, and a request with the secret of a revoked key answers 401. Also, the requests
  served one after the other are one of the interleavings of them.
\<close>

section \<open>Definitions\<close>

text \<open>The key to be revoked is in the table, by its id and the digest of its secret.\<close>

definition holds_key :: "string \<Rightarrow> string \<Rightarrow> 'r World \<Rightarrow> bool" where
  "holds_key n h w \<longleftrightarrow> db_ok (w_Db w) \<and>
     (\<exists>row \<in> set (db_api_keys (w_Db w)). row_id row = n \<and> row_key_hash row = h)"

definition is_revoked :: "string \<Rightarrow> 'r World \<Rightarrow> bool" where
  "is_revoked h w \<longleftrightarrow> revoked_key h (w_Db w)"

text \<open>A request that presents a secret as its only credential.\<close>

definition presents_secret :: "string \<Rightarrow> Request \<Rightarrow> bool" where
  "presents_secret secret r \<longleftrightarrow> bearerToken (GetHeader (fresh_ctx r) ''Authorization'') = None \<and>
     GetHeader (fresh_ctx r) HeaderAPIKey = secret"

definition revocation_of :: "KeyLib \<Rightarrow> string \<Rightarrow> Request \<Rightarrow> bool" where
  "revocation_of K n r \<longleftrightarrow> req_Method r = ''DELETE'' \<and> req_FullPath r = ''/v1/api-keys/:id'' \<and>
     kl_uuid K (Param (fresh_ctx r) ''id'') = Some n"

section \<open>Lemmas\<close>

subsection \<open>What the other requests leave alone\<close>

lemma shared_quiet: "quiet w w' \<Longrightarrow> shared_grows w w'"
  by (simp add: quiet_def shared_grows_def)

lemma shared_silent: "silent w w' \<Longrightarrow> shared_grows w w'"
  by (simp add: silent_def shared_quiet)

lemma shared_accesses:
  "shared_grows w (snd (w_redis_Allow e t x limit window w))"
  "shared_grows w (snd (w_memory_Allow now t x limit window w))"
  "shared_grows w (snd (resolveIdentity J iss n (resolver L D ev) c w))"
  by (simp_all add: shared_silent silent_accesses)

lemma shared_emit: "msg \<noteq> ''audit'' \<Longrightarrow> shared_grows w (w_emit lg lvl msg as w)"
  by (simp add: shared_quiet quiet_emit)

lemma undisturbed_revoked: "undisturbed shared_grows (is_revoked h)"
  by (auto simp: undisturbed_def is_revoked_def shared_grows_def intro: revoked_key_grows)

lemma undisturbed_holds: "undisturbed shared_grows (holds_key n h)"
  unfolding undisturbed_def holds_key_def shared_grows_def
  by (metis grows_row grows_db_ok)

lemma undisturbed_answer: "undisturbed shared_grows (\<lambda>w. st = n \<longrightarrow> is_revoked h w)"
  using undisturbed_revoked by (auto simp: undisturbed_def)

lemma undisturbed_const: "undisturbed rely (\<lambda>w. b)"
  by (simp add: undisturbed_def)

subsection \<open>Middleware under interference\<close>

lemma meets_judge:
  assumes "meets shared_grows P (k c) Q" and "\<And>c w. P w \<Longrightarrow> c_Status c = 429 \<Longrightarrow> Q c w"
  shows "meets shared_grows P (RateLimit_judge k allowed c) Q"
  using assms meets_undisturbed [OF assms(1)] by (auto simp: RateLimit_judge_def intro!: meets_Done)

lemma meets_RateLimit:
  assumes k: "\<And>c. FromGin c = Some i \<Longrightarrow> c_Request c = r \<Longrightarrow> meets shared_grows P (k c) Q"
    and refuse: "\<And>c w. P w \<Longrightarrow> c_Status c = 429 \<Longrightarrow> Q c w" and c: "FromGin c = Some i" "c_Request c = r"
  shows "meets shared_grows P (RateLimit_prog D ev k c) Q"
proof -
  let ?c = "gin_Set FallbackKey (GBool True) c"
  have P: "undisturbed shared_grows P" by (rule meets_undisturbed [OF k [OF c]])
  have c': "FromGin ?c = Some i" "c_Request ?c = r" using c by simp_all
  note judge = meets_judge [where k = k, OF k [OF c] refuse] meets_judge [where k = k, OF k [OF c'] refuse]
  have mem: "meets shared_grows P (Access (\<lambda>w.
      case w_memory_Allow now t x limit window w of ((allowed, _), w') \<Rightarrow> (RateLimit_judge k allowed ?c, w'))) Q"
    for now t x limit window
    by (rule meets_guaranteed [OF P]) (simp_all add: judge split_beta shared_accesses)
  show ?thesis
    unfolding RateLimit_prog_def c(1) option.case Let_def
    by (rule meets_guaranteed [OF P])
       (simp_all add: judge split_beta shared_accesses shared_emit meets_update mem [unfolded split_beta]
         split: option.splits)
qed

lemma meets_v1:
  assumes k: "\<And>i c. FromGin c = Some i \<Longrightarrow> c_Request c = r \<Longrightarrow> meets shared_grows P (k c) Q"
    and refuse: "\<And>c w. P w \<Longrightarrow> c_Status c = 401 \<or> c_Status c = 429 \<Longrightarrow> Q c w"
    and P: "undisturbed shared_grows P" and c: "c_Request c = r"
  shows "meets shared_grows P (v1_prog L D ev k c) Q"
proof -
  have "meets shared_grows P (RateLimit_prog D ev k (install_identity i c)) Q" for i
    by (rule meets_RateLimit [where i = i and r = r, OF k]) (auto simp: refuse c)
  then show ?thesis
    unfolding v1_prog_def Authenticate_prog_def
    by (intro meets_guaranteed [OF P])
       (auto simp: split_beta shared_accesses refuse P intro!: meets_Done split: prod.splits sum.splits)
qed

lemma meets_RequestLog:
  assumes "undisturbed shared_grows (Q c)"
  shows "meets shared_grows (Q c) (RequestLog_prog ev c) Q"
  unfolding RequestLog_prog_def
  by (rule meets_update) (auto simp: shared_emit assms intro: meets_Done)

lemma meets_ServeHTTP:
  assumes "meets shared_grows P (matched_prog L D (fst q) (snd q) (entry_ctx D (fst q) (snd q))) Q"
    and "\<And>c. undisturbed shared_grows (Q c)"
  shows "meets shared_grows P (ServeHTTP_prog L D q) Q"
  using meets_followed_by [OF assms(1), of "RequestLog_prog (fst q)" Q] meets_RequestLog [of Q, OF assms(2)]
  by (simp add: ServeHTTP_prog_def case_prod_beta)

subsection \<open>A request with the secret of a revoked key\<close>

lemma protected_paths:
  assumes "on_route r a t" and "t \<noteq> ''api_key'' \<or> d_APIKeys D"
  shows "(req_Method r, req_FullPath r) \<in> (\<lambda>(m, p, k). (m, p)) ` set (protected_progs L D ev)"
    and "(req_Method r, req_FullPath r, h) \<notin> set (public_routes L D ev)"
  using assms by (auto simp: on_route_def route_policy_def protected_progs_def registerStubRoutes_prog_def
      registerAPIKeyRoutes_prog_def public_routes_def auth_Register_def)

lemma matched_prog_v1:
  assumes "on_route r a t" and "t \<noteq> ''api_key'' \<or> d_APIKeys D"
  obtains k :: "GinCtx \<Rightarrow> 'r request" where "matched_prog L D ev r = v1_prog L D ev k"
proof -
  let ?P = "\<lambda>(m, p, k :: GinCtx \<Rightarrow> 'r request). m = req_Method r \<and> p = req_FullPath r"
  obtain k :: "GinCtx \<Rightarrow> 'r request" where "(req_Method r, req_FullPath r, k) \<in> set (protected_progs L D ev)"
    using protected_paths(1) [OF assms, of L ev] by auto
  then have "(req_Method r, req_FullPath r, v1_prog L D ev k) \<in> set (NewRouter_prog L D ev)"
    by (force simp: NewRouter_prog_def)
  then obtain route where route: "List.find ?P (NewRouter_prog L D ev) = Some route"
    by (cases "List.find ?P (NewRouter_prog L D ev)") (auto simp: find_None_iff)
  obtain m p k where "route = (m, p, k)" by (cases route)
  with route have "(req_Method r, req_FullPath r, k) \<in> set (NewRouter_prog L D ev)"
      "matched_prog L D ev r = k"
    by (auto simp: matched_prog_def dest!: find_Some_conv)
  with that protected_paths(2) [OF assms] show thesis by (auto simp: NewRouter_prog_def)
qed

lemma meets_refused:
  fixes k :: "GinCtx \<Rightarrow> 'r request"
  assumes "presents_secret secret (snd q)"
  shows "meets shared_grows (is_revoked (hashAPIKey (kl_sha256 (l_Key L)) secret))
    (v1_prog L D (fst q) k (entry_ctx D (fst q) (snd q))) (\<lambda>c w. c_Status c = 401)"
proof -
  let ?res = "\<lambda>w :: 'r World. resolveIdentity (l_Jwt L) (d_Issuer D) (ev_auth_now (fst q)) (resolver L D (fst q))
    (entry_ctx D (fst q) (snd q)) w"
  have "\<exists>err w'. ?res w = (Inl err, w')" if "is_revoked (hashAPIKey (kl_sha256 (l_Key L)) secret) w" for w
    using presented_revoked [of L secret w "snd q" D "fst q"] that assms
    by (cases "?res w"; cases "fst (?res w)") (auto simp: is_revoked_def presents_secret_def presented_def)
  then show ?thesis
    unfolding v1_prog_def Authenticate_prog_def
    by (intro meets_guaranteed [OF undisturbed_revoked])
       (fastforce simp: split_beta shared_accesses undisturbed_revoked intro: meets_Done split: prod.splits sum.splits)+
qed

lemma meets_locked_out:
  assumes "presents_secret secret (snd q)" and "on_route (snd q) a t" and "t \<noteq> ''api_key'' \<or> d_APIKeys D"
  shows "meets shared_grows (is_revoked (hashAPIKey (kl_sha256 (l_Key L)) secret))
    (ServeHTTP_prog L D q :: 'r request) (\<lambda>c w. c_Status c = 401)"
proof -
  obtain k :: "GinCtx \<Rightarrow> 'r request" where "matched_prog L D (fst q) (snd q) = v1_prog L D (fst q) k"
    by (rule matched_prog_v1 [OF assms(2,3)])
  with meets_refused [OF assms(1)] show ?thesis
    by (intro meets_ServeHTTP) (simp_all add: undisturbed_const)
qed

subsection \<open>A revocation\<close>

lemma matched_prog_revoke:
  assumes "d_APIKeys D" and "revocation_of K n r"
  shows "matched_prog L D ev r = v1_prog L D ev (Enforce_prog L D ev ActionDelete ''api_key'' (atomic
    (APIKeyHandler_Revoke (\<lambda>t i. on_db (Revoke (l_Key L) (ev_store ev) t i)))))"
  using assms by (simp add: revocation_of_def matched_prog_def NewRouter_prog_def public_routes_def auth_Register_def
      protected_progs_def registerStubRoutes_prog_def registerAPIKeyRoutes_prog_def)

lemma meets_revoke_handler:
  assumes "FromGin c = Some i" and "kl_uuid K (Param c ''id'') = Some n"
  shows "meets shared_grows (holds_key n h)
    (atomic (APIKeyHandler_Revoke (\<lambda>t i. on_db (Revoke K env t i))) c) (\<lambda>c w. c_Status c = 204 \<longrightarrow> is_revoked h w)"
proof (rule meets_atomic [OF undisturbed_holds _ undisturbed_answer])
  fix w :: "'a World"
  assume "holds_key n h w"
  then show "c_Status (fst (APIKeyHandler_Revoke (\<lambda>t i. on_db (Revoke K env t i)) c w)) = 204 \<longrightarrow>
      is_revoked h (snd (APIKeyHandler_Revoke (\<lambda>t i. on_db (Revoke K env t i)) c w))"
    using handler_Revoke_204 [OF _ assms(1), of K env w] assms(2) by (auto simp: holds_key_def is_revoked_def)
qed

lemma meets_revoke:
  assumes "d_APIKeys D" and "revocation_of (l_Key L) n (snd q)"
  shows "meets shared_grows (holds_key n h) (ServeHTTP_prog L D q :: 'r request)
    (\<lambda>c w. c_Status c = 204 \<longrightarrow> is_revoked h w)"
proof -
  let ?Q = "\<lambda>c w :: 'r World. c_Status c = 204 \<longrightarrow> is_revoked h w"
  let ?k = "APIKeyHandler_Revoke (\<lambda>t i. on_db (Revoke (l_Key L) (ev_store (fst q)) t i)) :: 'r World handler"
  let ?act = "Enforce_prog L D (fst q) ActionDelete ''api_key'' (atomic ?k)"
  have "meets shared_grows (holds_key n h) (?act c) ?Q" if c: "FromGin c = Some i" "c_Request c = snd q" for i c
  proof -
    have "meets shared_grows (holds_key n h) (atomic ?k (expose_decision d c)) ?Q" for d
      using c assms(2)
      by (intro meets_revoke_handler [where i = i]) (auto simp: revocation_of_def Param_def fresh_ctx_def)
    moreover have "shared_grows w (snd (w_Write (d_Auditor D) now rec w))" for now rec and w :: "'r World"
      using world_auditor.Write_trail log_grows_Write [of w "d_Auditor D" now rec]
      by (auto simp: shared_grows_def snd_w_Write LogAuditor_Write_trail)
    ultimately show ?thesis
      using c(1) by (auto simp: Enforce_prog_def Let_def intro!: meets_update meets_Done undisturbed_holds)
  qed
  then have "meets shared_grows (holds_key n h)
      (v1_prog L D (fst q) ?act (entry_ctx D (fst q) (snd q)) :: 'r request) ?Q"
    by (rule meets_v1 [where r = "snd q"]) (auto simp: undisturbed_holds entry_ctx_def fresh_ctx_def)
  then show ?thesis
    by (intro meets_ServeHTTP undisturbed_answer) (simp add: matched_prog_revoke [OF assms])
qed

section \<open>Revocation in an interleaving\<close>

lemma together_locked_out:
  assumes run: "interleaves (serve_together L D reqs w) ws s" and more: "interleaves s ws' s'"
    and "d_APIKeys D" and j: "j < length reqs" "revocation_of (l_Key L) n (snd (reqs ! j))"
    and key: "holds_key n (hashAPIKey (kl_sha256 (l_Key L)) secret) w"
    and revoked: "th_Progs s ! j = Done c" "c_Status c = 204"
    and k: "k < length reqs" "presents_secret secret (snd (reqs ! k))" "on_route (snd (reqs ! k)) a t"
    and "th_Progs s ! k = ServeHTTP_prog L D (reqs ! k)" and "th_Progs s' ! k = Done c'"
  shows "c_Status c' = 401"
proof -
  let ?h = "hashAPIKey (kl_sha256 (l_Key L)) secret"
  have start: "gateway.keeping L D reqs (replicate (length reqs) Entered) (serve_together L D reqs w)"
    unfolding serve_together_def by (rule gateway.keeping_launch)
  have "meets shared_grows (holds_key n ?h) (th_Progs (serve_together L D reqs w) ! j)
      (\<lambda>c w. c_Status c = 204 \<longrightarrow> is_revoked ?h w)"
    using meets_revoke [OF assms(3) j(2)] j(1) by (simp add: serve_together_def launch_def)
  moreover have "holds_key n ?h (th_World (serve_together L D reqs w))"
    using key by (simp add: serve_together_def launch_def)
  ultimately have gone: "is_revoked ?h (th_World s)"
    using gateway.run_result [OF run start j(1) _ _ revoked(1)] revoked(2) by blast
  obtain phs where "gateway.keeping L D reqs phs s"
    by (rule gateway.launch_keeps [where I = "\<lambda>_ _ _. True", OF run [unfolded serve_together_def]]) simp_all
  moreover have "meets shared_grows (is_revoked ?h) (th_Progs s ! k) (\<lambda>c w. c_Status c = 401)"
    unfolding assms(12) by (rule meets_locked_out [OF k(2,3)]) (simp add: assms(3))
  ultimately show ?thesis
    using gateway.run_result [where P = "is_revoked ?h", OF more _ k(1) _ gone assms(13)] by blast
qed

section \<open>One after the other\<close>

lemma serve_all_alone: "serve_all L D qs w = fold (\<lambda>p w. snd (alone p w)) (map (ServeHTTP_prog L D) qs) w"
  by (induction qs arbitrary: w) (auto simp: alone_ServeHTTP)

lemma serve_all_interleaves:
  "\<exists>ws cs. interleaves (serve_together L D qs w) ws \<lparr>th_World = serve_all L D qs w, th_Progs = map Done cs\<rparr>"
  using run_in_order [of w "[]" "map (ServeHTTP_prog L D) qs"]
  by (simp add: serve_together_def launch_def serve_all_alone)

end
