(* ===== verification/Interleaving_Properties.thy ===== *)
theory Interleaving_Properties
  imports Samples Key_Lockout
begin

text \<open>
  The gateway of \<open>internal/gateway/router.go\<close> with any number of requests in flight: what holds of
  every interleaving of their accesses to Redis, the key table, the placeholder module and the log.
  A run is \<open>interleaves (serve_together L D reqs w) ws s\<close>: the requests \<open>reqs\<close> were started on \<open>w\<close>, their
  accesses so far met the states \<open>ws\<close>, and \<open>s\<close> is where they are.
\<close>

section \<open>Definitions\<close>

definition sample_together :: "Role \<Rightarrow> Request list \<Rightarrow> (GinCtx, sample_redis World) threads" where
  "sample_together role rs =
     serve_together sample_libs sample_deps (map (Pair sample_env) rs) (sample_world role)"

definition sample_token :: string where
  "sample_token = token_of ''secret'' \<lparr>cl_TenantID = ''t1'', cl_Role = ''admin'', cl_Region = '''',
     cl_SupplierID = '''', cl_TokenType = ''access'', cl_Subject = ''u1'', cl_Issuer = ''chainpulse'',
     cl_IssuedAt = Some 0, cl_ExpiresAt = Some 9\<rparr>"

text \<open>A call with an access token, so that it needs no key in the table.\<close>

definition token_request :: "string \<Rightarrow> string \<Rightarrow> Env \<times> Request" where
  "token_request m p = (sample_env, (sample_request m p [])\<lparr>req_Headers :=
     [(''Authorization'', ''Bearer '' @ sample_token)]\<rparr>)"

definition token_world :: "sample_redis World" where
  "token_world = initial_world (sample_client, empty_redis) [''t1'']"

section \<open>Requests one after the other\<close>

text \<open>A request whose goroutine runs alone is served exactly as the sequence of middleware and
  handlers has it, and serving requests one after the other is one of the interleavings of their
  goroutines, which ends with every request answered.\<close>

lemma sequential_service_interleaves:
  "alone (ServeHTTP_prog L D (ev, r)) w = ServeHTTP L D ev r w \<and>
   (\<exists>ws cs. interleaves (serve_together L D qs w) ws \<lparr>th_World = serve_all L D qs w, th_Progs = map Done cs\<rparr>)"
  using alone_ServeHTTP serve_all_interleaves by blast

section \<open>Mediation\<close>

text \<open>C2: Whatever requests are in flight and however their accesses interleave, an access that runs a
  module's handler or changes a key (a last-used stamp apart) is made by a request on a protected
  route that was authenticated as a known role in a state this run went through, that the policy
  engine allows for that identity, whose audit record is in the trail already, and the access does
  what the route's action permits for that tenant: one handler call, or at most one key added and
  at most one revoked.\<close>

theorem interleaved_mediation:
  assumes "interleaves (serve_together L D reqs w) ws s" and "thread_step j s = Some s'"
    and "w_Calls (th_World s') \<noteq> w_Calls (th_World s) \<or>
      key_view (w_Db (th_World s')) \<noteq> key_view (w_Db (th_World s))"
  shows "\<exists>i a t. j < length reqs \<and>
    (req_Method (snd (reqs ! j)), req_FullPath (snd (reqs ! j)), a, t) \<in> set route_policy \<and>
    (\<exists>v \<in> set ws. presented L D (fst (reqs ! j)) (snd (reqs ! j)) v = Inr i) \<and> Valid (id_Role i) \<and>
    dec_Allow (route_decision L D (fst (reqs ! j)) a t (snd (reqs ! j)) i) \<and>
    (audit_enabled (d_Auditor D) \<longrightarrow>
      route_record L D (fst (reqs ! j)) a t (snd (reqs ! j)) i \<in> set (audit_trail (w_Log (th_World s)))) \<and>
    acted (l_Key L) i a t (th_World s) (th_World s')"
proof -
  obtain i a t where "j < length reqs" "vouched L D ws (th_World s) (reqs ! j) (Granted i a t)"
    "acted (l_Key L) i a t (th_World s) (th_World s')"
    by (rule together_mediated [OF assms])
  then show ?thesis by (auto simp: on_route_def)
qed

theorem interleaved_mediation_witness:
  "let rs = [sample_request ''DELETE'' ''/v1/api-keys/:id'' [], sample_request ''GET'' ''/v1/inventory'' []];
       s = schedule [0, 1, 0, 1, 0, 1] (sample_together RoleAdmin rs)
   in \<exists>i a t. \<exists>v :: sample_redis World. (''DELETE'', ''/v1/api-keys/:id'', a, t) \<in> set route_policy \<and>
     presented sample_libs sample_deps sample_env (rs ! 0) v = Inr i \<and>
     dec_Allow (route_decision sample_libs sample_deps sample_env a t (rs ! 0) i) \<and>
     route_record sample_libs sample_deps sample_env a t (rs ! 0) i \<in> set (audit_trail (w_Log (th_World s)))"
proof -
  define del where "del = sample_request ''DELETE'' ''/v1/api-keys/:id'' []"
  let ?rs = "[del, sample_request ''GET'' ''/v1/inventory'' []]"
  define s where "s = schedule [0, 1, 0, 1, 0, 1] (sample_together RoleAdmin ?rs)"
  let ?keys = "\<lambda>s :: (GinCtx, sample_redis World) threads. map row_revoked_at (snd (key_view (w_Db (th_World s))))"
  obtain ws where run: "interleaves (sample_together RoleAdmin ?rs) ws s" unfolding s_def using schedule_run by blast
  have keys: "?keys s = [None]" "map_option ?keys (thread_step 0 s) = Some [Some 100]"
    unfolding s_def del_def by code_simp+
  have on: "audit_enabled (d_Auditor sample_deps)" by code_simp
  from keys(2) obtain s' where step: "thread_step 0 s = Some s'" "?keys s' = [Some 100]"
    by (cases "thread_step 0 s") (simp_all only: option.map option.inject option.distinct)
  have "key_view (w_Db (th_World s')) \<noteq> key_view (w_Db (th_World s))" using step(2) keys(1) by auto
  with interleaved_mediation [OF run [unfolded sample_together_def] step(1)] on
  obtain i a t and v :: "sample_redis World" where "(req_Method del, req_FullPath del, a, t) \<in> set route_policy"
      "presented sample_libs sample_deps sample_env del v = Inr i"
      "dec_Allow (route_decision sample_libs sample_deps sample_env a t del i)"
      "route_record sample_libs sample_deps sample_env a t del i \<in> set (audit_trail (w_Log (th_World s)))"
    by auto
  moreover have "req_Method del = ''DELETE''" "req_FullPath del = ''/v1/api-keys/:id''"
    by (simp_all add: del_def sample_request_def)
  ultimately show ?thesis unfolding Let_def nth_Cons_0 s_def [symmetric, unfolded del_def] del_def
    by (intro exI conjI) simp_all
qed

section \<open>The audit trail\<close>

text \<open>C3: The audit trail never lags behind: with the default rules, in every interleaving of requests
  and at every moment of it, the handler calls are the allow records on module resources, less
  at most one for each request still on its way; no tenant has more keys than allow records of its
  admins to create or rotate keys, nor more revoked keys than those to rotate or revoke; and when all
  requests are answered the handler calls are exactly the allow records on module resources.\<close>

theorem interleaved_accounting:
  assumes "interleaves (serve_together L D reqs w) ws s" and "audit_enabled (d_Auditor D)"
    and "eng_rules (d_Engine D) = DefaultRules" and "accounted (l_Key L) w"
  shows "(\<exists>n \<le> length (filter (\<lambda>p. \<not> finished p) (th_Progs s)).
      w_Calls (th_World s) + of_nat n =
        of_nat (length (filter ran (audit_trail (w_Log (th_World s)))))) \<and>
    (\<forall>t. length (tenant_view t (w_Db (th_World s))) \<le>
        length (filter (key_record (l_Key L) adds_key t) (audit_trail (w_Log (th_World s)))) \<and>
      length (filter (\<lambda>r. \<not> live r) (tenant_view t (w_Db (th_World s)))) \<le>
        length (filter (key_record (l_Key L) revokes_key t) (audit_trail (w_Log (th_World s))))) \<and>
    (list_all finished (th_Progs s) \<longrightarrow> accounted (l_Key L) (th_World s))"
proof -
  obtain phs where k: "gateway.keeping L D reqs phs s"
    and acc: "accounted_with (l_Key L) (\<lambda>P. owing L D P reqs phs) (th_World s)"
    by (rule together_accounted [OF assms])
  note bound = owing_unfinished [OF k]
  have keys: "length (tenant_view t (w_Db (th_World s))) \<le>
        length (filter (key_record (l_Key L) adds_key t) (audit_trail (w_Log (th_World s)))) \<and>
      length (filter (\<lambda>r. \<not> live r) (tenant_view t (w_Db (th_World s)))) \<le>
        length (filter (key_record (l_Key L) revokes_key t) (audit_trail (w_Log (th_World s))))" for t
    using acc unfolding accounted_with_def by (meson add_leD1)
  have calls: "w_Calls (th_World s) + of_nat (owing L D ran reqs phs) =
      of_nat (length (filter ran (audit_trail (w_Log (th_World s)))))"
    using acc by (simp add: accounted_with_def)
  have "accounted (l_Key L) (th_World s)" if "list_all finished (th_Progs s)"
  proof -
    have "filter (\<lambda>p. \<not> finished p) (th_Progs s) = []"
      using that by (simp add: filter_empty_conv list_all_iff)
    then have "owing L D ran reqs phs = 0" using bound [of ran] by simp
    then show ?thesis using acc keys calls by (simp add: accounted_def accounted_with_def)
  qed
  with calls bound [of ran] keys show ?thesis by blast
qed

theorem interleaved_accounting_witness:
  "accounted sample_keylib (th_World (schedule (concat (replicate 8 [1, 0]))
     (serve_together sample_libs sample_deps
       [token_request ''POST'' ''/v1/api-keys'', token_request ''PUT'' ''/v1/inventory''] token_world)))"
proof -
  let ?reqs = "[token_request ''POST'' ''/v1/api-keys'', token_request ''PUT'' ''/v1/inventory'']"
  let ?s = "schedule (concat (replicate 8 [1, 0])) (serve_together sample_libs sample_deps ?reqs token_world)"
  obtain ws where run: "interleaves (serve_together sample_libs sample_deps ?reqs token_world) ws ?s"
    using schedule_run by blast
  have "audit_enabled (d_Auditor sample_deps)" by code_simp
  moreover have "eng_rules (d_Engine sample_deps) = DefaultRules"
    by (simp add: sample_deps_def NewEngine_def)
  moreover have "accounted (l_Key sample_libs) token_world"
    unfolding token_world_def by (rule accounted_initial)
  moreover have "list_all finished (th_Progs ?s)" by code_simp
  ultimately have "accounted (l_Key sample_libs) (th_World ?s)"
    using interleaved_accounting [OF run] by blast
  then show ?thesis by (simp only: sample_libs_def Libs.simps)
qed

section \<open>The access log\<close>

text \<open>C19: In every interleaving, with a logger at level Info or below, the access log has one line for
  each request answered so far, and every answer carries the correlation id of its own request, is
  well formed, and has a line in the log with that id, its status and the decision it met.\<close>

theorem interleaved_access_log:
  assumes "interleaves (serve_together L D reqs w) ws s" and "lg_Level (d_Logger D) \<le> LevelInfo"
  shows "length (access_lines (w_Log (th_World s))) =
      length (access_lines (w_Log w)) + length (filter finished (th_Progs s)) \<and>
    (\<forall>j < length reqs. \<forall>c. th_Progs s ! j = Done c \<longrightarrow>
       c_Header c HeaderRequestID = Some (correlation_id (reqs ! j)) \<and>
       answered D (snd (reqs ! j)) (correlation_id (reqs ! j)) c \<and>
       (\<exists>as. access_line D (fst (reqs ! j)) (correlation_id (reqs ! j)) as c \<in> set (w_Log (th_World s))))"
proof -
  obtain phs where k: "gateway.keeping L D reqs phs s"
    and l: "logged D reqs (length (access_lines (w_Log w))) phs ws (th_World s)"
    by (rule together_logged [OF assms])
  have "request_ends D (reqs ! j) (phs ! j) c" if "j < length reqs" "th_Progs s ! j = Done c" for j c
    by (rule gateway.keeping_final [OF k that])
  then show ?thesis
    using l answered_count [OF k] by (auto simp: logged_def request_ends_def well_formed_def traced_def)
qed

theorem interleaved_access_log_witness:
  "let s = schedule [0, 1, 0, 1, 0, 1, 0, 1, 0] (sample_together RoleAnalyst
     [sample_request ''PUT'' ''/v1/inventory'' [], sample_request ''GET'' ''/v1/inventory'' []])
   in length (access_lines (w_Log (th_World s))) = 1 \<and> length (th_Progs s) = 2"
proof -
  let ?rs = "[sample_request ''PUT'' ''/v1/inventory'' [], sample_request ''GET'' ''/v1/inventory'' []]"
  define s where "s = schedule [0, 1, 0, 1, 0, 1, 0, 1, 0] (sample_together RoleAnalyst ?rs)"
  obtain ws where run: "interleaves (sample_together RoleAnalyst ?rs) ws s" unfolding s_def using schedule_run by blast
  have s: "length (filter finished (th_Progs s)) = 1" "length (th_Progs s) = 2"
    unfolding s_def by code_simp+
  have D: "lg_Level (d_Logger sample_deps) \<le> LevelInfo" "access_lines (w_Log (sample_world RoleAnalyst)) = []"
    by code_simp+
  from interleaved_access_log [OF run [unfolded sample_together_def] D(1)]
  have "length (access_lines (w_Log (th_World s))) =
      length (access_lines (w_Log (sample_world RoleAnalyst))) + length (filter finished (th_Progs s))"
    by (rule conjunct1)
  with s D(2) show ?thesis unfolding Let_def s_def [symmetric] by simp
qed

section \<open>Progress\<close>

text \<open>C18: Requests do not wait for each other: a request makes at most ten accesses, so however the
  turns are dealt, every request that had ten of them is answered, and a run of the gateway is at
  most ten accesses long for each request.\<close>

theorem interleaved_requests_finish:
  assumes "\<forall>j < length reqs. 10 \<le> count_list turns j"
  shows "list_all finished (th_Progs (schedule turns (serve_together L D reqs w))) \<and>
    (\<forall>ws s. interleaves (serve_together L D reqs w) ws s \<longrightarrow> length ws \<le> 10 * length reqs)"
proof -
  let ?s = "serve_together L D reqs w"
  obtain ws where "interleaves ?s ws (schedule turns ?s)" using schedule_run by blast
  then have len: "length (th_Progs (schedule turns ?s)) = length reqs"
    by (drule_tac run_length) (simp add: serve_together_def launch_def)
  have "finished (th_Progs (schedule turns ?s) ! j)" if "j < length reqs" for j
    by (rule schedule_finishes [where n = 10])
       (use that assms in \<open>auto simp: serve_together_def launch_def within_ServeHTTP\<close>)
  then show ?thesis using len together_within by (auto simp: list_all_length)
qed

theorem interleaved_requests_finish_witness:
  "list_all finished (th_Progs (schedule (concat (replicate 10 [1, 0])) (sample_together RoleAdmin
     [sample_request ''POST'' ''/v1/orders'' [], sample_request ''POST'' ''/v1/orders'' []])))"
proof -
  let ?reqs = "map (Pair sample_env) [sample_request ''POST'' ''/v1/orders'' [], sample_request ''POST'' ''/v1/orders'' []]"
  have "10 \<le> count_list (concat (replicate 10 [1, 0])) j" if "j < length ?reqs" for j :: nat
    using that by (auto simp: less_Suc_eq numeral_eq_Suc)
  then have "list_all finished (th_Progs (schedule (concat (replicate 10 [1, 0]))
      (serve_together sample_libs sample_deps ?reqs (sample_world RoleAdmin))))"
    using interleaved_requests_finish [of ?reqs] by blast
  then show ?thesis by (simp only: sample_together_def)
qed

section \<open>Revocation\<close>

text \<open>C5: Revocation is final among concurrent requests: whatever else is in flight, once a request to
  revoke a key was answered 204, a request with the secret of that key that makes its first access
  after that is answered 401 on every protected route.\<close>

theorem interleaved_revocation_final:
  assumes "interleaves (serve_together L D reqs w) ws s" and "interleaves s ws' s'" and "d_APIKeys D"
    and "j < length reqs" and "revocation_of (l_Key L) n (snd (reqs ! j))"
    and "db_ok (w_Db w)" and "row \<in> set (db_api_keys (w_Db w))" and "row_id row = n"
    and "row_key_hash row = hashAPIKey (kl_sha256 (l_Key L)) secret"
    and "th_Progs s ! j = Done c" and "c_Status c = 204"
    and "k < length reqs" and "presents_secret secret (snd (reqs ! k))"
    and "(req_Method (snd (reqs ! k)), req_FullPath (snd (reqs ! k)), a, t) \<in> set route_policy"
    and "th_Progs s ! k = ServeHTTP_prog L D (reqs ! k)" and "th_Progs s' ! k = Done c'"
  shows "c_Status c' = 401"
proof (rule together_locked_out [OF assms(1-5) _ assms(10-13) _ assms(15,16)])
  show "holds_key n (hashAPIKey (kl_sha256 (l_Key L)) secret) w"
    using assms(6-9) by (auto simp: holds_key_def)
  show "on_route (snd (reqs ! k)) a t" using assms(14) by (simp add: on_route_def)
qed

theorem interleaved_revocation_final_witness:
  "let rs = [sample_request ''DELETE'' ''/v1/api-keys/:id'' [], sample_request ''GET'' ''/v1/inventory'' [],
             sample_request ''POST'' ''/v1/orders'' []];
       s = schedule [2, 0, 2, 0, 2, 0, 0, 0] (sample_together RoleAdmin rs)
   in \<exists>c. th_Progs (schedule [2, 1, 2, 1] s) ! 1 = Done c \<and> c_Status c = 401"
proof -
  define del where "del = sample_request ''DELETE'' ''/v1/api-keys/:id'' []"
  define fetch where "fetch = sample_request ''GET'' ''/v1/inventory'' []"
  let ?rs = "[del, fetch, sample_request ''POST'' ''/v1/orders'' []]"
  define s where "s = schedule [2, 0, 2, 0, 2, 0, 0, 0] (sample_together RoleAdmin ?rs)"
  define s' where "s' = schedule [2, 1, 2, 1] s"
  note defs = s'_def s_def del_def fetch_def
  have "case th_Progs s ! 0 of Done c \<Rightarrow> c_Status c = 204 | Access f \<Rightarrow> False" "finished (th_Progs s' ! 1)"
    unfolding defs by code_simp+
  then obtain c c' where c: "th_Progs s ! 0 = Done c" "c_Status c = 204" and c': "th_Progs s' ! 1 = Done c'"
    unfolding finished_iff by (cases "th_Progs s ! 0") auto
  have fresh: "th_Progs s ! 1 = ServeHTTP_prog sample_libs sample_deps (sample_env, fetch)"
    using schedule_skips [of 1 "[2, 0, 2, 0, 2, 0, 0, 0]" "sample_together RoleAdmin ?rs"]
    by (simp add: s_def sample_together_def serve_together_def launch_def del: schedule.simps)
  obtain ws ws' where runs: "interleaves (sample_together RoleAdmin ?rs) ws s" "interleaves s ws' s'"
    unfolding s_def s'_def using schedule_run by blast
  have row: "sample_row RoleAdmin \<in> set (db_api_keys (w_Db (sample_world RoleAdmin)))"
    "db_ok (w_Db (sample_world RoleAdmin))"
    using sample_db_ok [of RoleAdmin] by (simp_all add: sample_world_def sample_db_def)
  have facts: "d_APIKeys sample_deps" "revocation_of (l_Key sample_libs) ''k1'' del"
    "row_id (sample_row RoleAdmin) = ''k1''" "presents_secret ''cp_01'' fetch"
    "row_key_hash (sample_row RoleAdmin) = hashAPIKey (kl_sha256 (l_Key sample_libs)) ''cp_01''"
    unfolding defs by code_simp+
  have "(req_Method fetch, req_FullPath fetch, ActionRead, ''inventory'') \<in> set route_policy"
    by (simp add: fetch_def sample_request_def route_policy_def)
  with interleaved_revocation_final [where j = 0 and k = 1 and n = "''k1''",
      OF runs(1) [unfolded sample_together_def] runs(2) facts(1) _ _ row(2,1) facts(3,5) c _ _ _ _ c']
    facts(2,4) fresh
  have "c_Status c' = 401" by simp
  with c' show ?thesis unfolding Let_def defs by blast
qed

end
