(* ===== verification/Archlint.thy ===== *)
theory Archlint
  imports Go_Strings
begin

text \<open>
  The architecture linter of \<open>tools/archlint/main.go\<close>. Loading packages is the library's
  (\<open>go/packages\<close>): \<open>load\<close> returns an error or the packages under a directory with the keys of
  their import maps, in the order the range loop visits them.
\<close>

section \<open>Definitions\<close>

record Violation =
  vi_From :: string
  vi_To :: string
  vi_Msg :: string

record ArchRule =
  ar_Module :: string
  ar_Allow :: "string list"
  ar_Deny :: "string list"

record Package =
  pkg_Name :: string
  pkg_Imports :: "string list"

definition Rules :: "ArchRule list" where
  "Rules =
     [\<lparr>ar_Module = ''internal/order'', ar_Allow = [],
       ar_Deny = [''internal/inventory'', ''internal/shipment'']\<rparr>,
      \<lparr>ar_Module = ''internal/inventory'', ar_Allow = [],
       ar_Deny = [''internal/order'', ''internal/shipment'']\<rparr>,
      \<lparr>ar_Module = ''internal/shipment'', ar_Allow = [],
       ar_Deny = [''internal/order'', ''internal/inventory'']\<rparr>]"

definition Violation_String :: "Violation \<Rightarrow> string" where
  "Violation_String v =
     [CHR 0xE2, CHR 0x9D, CHR 0x8C] @ '' '' @ vi_From v @ '' imports forbidden package '' @ vi_To v"

definition hasPrefix :: "string \<Rightarrow> string \<Rightarrow> bool" where
  "hasPrefix s prefix \<longleftrightarrow> length s \<ge> length prefix \<and> take (length prefix) s = prefix"

definition moduleRoot :: string where "moduleRoot = ''github.com/nickemma/chainpulse''"

definition isForbidden :: "string \<Rightarrow> string \<Rightarrow> bool" where
  "isForbidden fromPkg toImport =
     (if \<not> hasPrefix toImport moduleRoot then False
      else list_ex (\<lambda>r. hasPrefix fromPkg (moduleRoot @ ''/'' @ ar_Module r) \<and>
             list_ex (\<lambda>d. hasPrefix toImport (moduleRoot @ ''/'' @ d)) (ar_Deny r)) Rules)"

text \<open>The nested loops, with the list of violations found so far.\<close>

fun check_imports :: "string \<Rightarrow> string list \<Rightarrow> Violation list \<Rightarrow> Violation list" where
  "check_imports name [] violations = violations"
| "check_imports name (imp # imps) violations =
     check_imports name imps
       (if isForbidden name imp
        then violations @ [\<lparr>vi_From = name, vi_To = imp, vi_Msg = ''''\<rparr>] else violations)"

fun check_loop :: "Package list \<Rightarrow> Violation list \<Rightarrow> Violation list" where
  "check_loop [] violations = violations"
| "check_loop (pkg # pkgs) violations =
     check_loop pkgs (check_imports (pkg_Name pkg) (pkg_Imports pkg) violations)"

definition checkPackages :: "Package list \<Rightarrow> Violation list" where
  "checkPackages pkgs = check_loop pkgs []"

type_synonym loader = "string \<Rightarrow> string \<Rightarrow> string + (string \<times> string list) list"

definition Scan :: "loader \<Rightarrow> string \<Rightarrow> string + Package list" where
  "Scan load root =
     (case load root ''./...'' of
        Inl err \<Rightarrow> Inl err
      | Inr pkgs \<Rightarrow> Inr (map (\<lambda>(path, imports). \<lparr>pkg_Name = path, pkg_Imports = imports\<rparr>) pkgs))"

definition archlint_Run :: "loader \<Rightarrow> string \<Rightarrow> string + Violation list" where
  "archlint_Run load root =
     (case Scan load root of Inl err \<Rightarrow> Inl err | Inr pkgs \<Rightarrow> Inr (checkPackages pkgs))"

text \<open>The lines printed and the exit status; \<open>args\<close> are the arguments after the program name.\<close>

definition archlint_main :: "loader \<Rightarrow> string list \<Rightarrow> string list \<times> int" where
  "archlint_main load args =
     (let root = (case args of [] \<Rightarrow> ''.'' | a # _ \<Rightarrow> a) in
      case archlint_Run load root of
        Inl err \<Rightarrow> ([''archlint error: '' @ err], 1)
      | Inr violations \<Rightarrow>
          (if violations \<noteq> [] then (map Violation_String violations, 1)
           else ([''architecture clean''], 0)))"

subsection \<open>Specification\<close>

definition isolated :: "string set" where
  "isolated = {''internal/order'', ''internal/inventory'', ''internal/shipment''}"

definition under :: "string \<Rightarrow> string \<Rightarrow> bool" where
  "under m path \<longleftrightarrow> (\<exists>rest. path = moduleRoot @ ''/'' @ m @ rest)"

section \<open>Lemmas\<close>

lemma hasPrefix_iff: "hasPrefix s p \<longleftrightarrow> (\<exists>rest. s = p @ rest)"
proof
  assume "hasPrefix s p"
  then have "s = p @ drop (length p) s" by (metis append_take_drop_id hasPrefix_def)
  then show "\<exists>rest. s = p @ rest" ..
qed (auto simp: hasPrefix_def)

lemma hasPrefix_under: "hasPrefix s (moduleRoot @ ''/'' @ m) \<longleftrightarrow> under m s"
  by (auto simp: hasPrefix_iff under_def)

lemma isForbidden_under:
  "isForbidden f t \<longleftrightarrow> (\<exists>m \<in> isolated. \<exists>d \<in> isolated. m \<noteq> d \<and> under m f \<and> under d t)"
proof -
  have "under d t \<Longrightarrow> hasPrefix t moduleRoot" for d
    by (auto simp: under_def hasPrefix_iff)
  then show ?thesis
    unfolding isForbidden_def hasPrefix_under by (auto simp: Rules_def isolated_def)
qed

lemma check_imports_eq:
  "check_imports name imps vs =
     vs @ map (\<lambda>i. \<lparr>vi_From = name, vi_To = i, vi_Msg = ''''\<rparr>) (filter (isForbidden name) imps)"
  by (induction imps arbitrary: vs) simp_all

lemma check_loop_eq:
  "check_loop pkgs vs = vs @ concat (map (\<lambda>p. map (\<lambda>i. \<lparr>vi_From = pkg_Name p, vi_To = i, vi_Msg = ''''\<rparr>)
     (filter (isForbidden (pkg_Name p)) (pkg_Imports p))) pkgs)"
  by (induction pkgs arbitrary: vs) (simp_all add: check_imports_eq)

lemma checkPackages_empty:
  "checkPackages pkgs = [] \<longleftrightarrow>
     (\<forall>p \<in> set pkgs. \<forall>i \<in> set (pkg_Imports p). \<not> isForbidden (pkg_Name p) i)"
  by (simp add: checkPackages_def check_loop_eq filter_empty_conv)

text \<open>
  The module test has no path boundary: a package of a module whose name merely starts with an
  isolated module's name is linted as if it were part of it.
\<close>

lemma isForbidden_no_boundary:
  "isForbidden ''github.com/nickemma/chainpulse/internal/orderbook''
     ''github.com/nickemma/chainpulse/internal/inventory/store''"
  by (simp add: isForbidden_def hasPrefix_def Rules_def moduleRoot_def)

end
