(* ===== verification/Startup_Properties.thy ===== *)
theory Startup_Properties
  imports Samples Archlint
begin

text \<open>
  Properties of configuration, start-up and shutdown, and of the architecture linter, with
  their witnesses.
\<close>

section \<open>Configuration\<close>

text \<open>C39: Loading the \<open>.env\<close> file never overrides the environment: a variable that is set keeps its
  value, another one takes the first binding the file has for it, and a variable with no binding
  stays unset.\<close>

theorem environment_wins:
  "loadDotEnv file e k = (case e k of Some v \<Rightarrow> Some v | None \<Rightarrow> map_of (dotenv_bindings file) k)"
  by (rule loadDotEnv_apply)

text \<open>A variable that holds a decimal number of a unit, with or without a minus sign, is read as
  exactly that many nanoseconds, as long as they fit 63 bits, whatever the floating-point unit
  does with fractions.\<close>

lemma durations_exact:
  assumes "Getenv e key = pre @ ds @ u" and "pre = '''' \<or> pre = ''-''"
    and "ds \<noteq> []" and "list_all is_digit ds" and "map_of unitMap u = Some unit"
    and "digits_value 0 ds * unit < 2 ^ 63"
  shows "getDurationOrDefault frac e key fallback =
    (if pre = ''-'' then - (digits_value 0 ds * unit) else digits_value 0 ds * unit)"
  using ParseDuration_integral [OF assms(3-6), of frac] assms(1-3)
  by (auto simp: getDurationOrDefault_def Let_def)

section \<open>Start-up and shutdown\<close>

text \<open>A policy timeout of up to 9223372036854 milliseconds reaches the engine exactly; one
  millisecond more wraps around and switches the guard off, and the engine then evaluates every
  request the same way whether or not its deadline passed.\<close>

lemma eval_timeout_wraps:
  assumes "wire cfg = Inr D" and "ms = pc_EvalTimeoutMs (cfg_Policy cfg)"
  shows "(0 \<le> ms \<and> ms \<le> 9223372036854 \<longrightarrow> eng_evalTimeout (d_Engine D) = ms * Millisecond) \<and>
    (ms = 9223372036855 \<longrightarrow> eng_evalTimeout (d_Engine D) < 0 \<and>
       Evaluate (d_Engine D) CtxDone i = Evaluate (d_Engine D) ResultReady i)"
proof -
  have t: "eng_evalTimeout (d_Engine D) = wrap64 (ms * Millisecond)"
    using assms by (auto simp: wire_def Let_def NewEngine_def split: sum.splits)
  have "int64_range (ms * Millisecond)" if "0 \<le> ms" "ms \<le> 9223372036854"
    using that by (simp add: int64_range_def duration_units)
  then have "0 \<le> ms \<and> ms \<le> 9223372036854 \<longrightarrow> eng_evalTimeout (d_Engine D) = ms * Millisecond"
    by (simp add: t wrap64_id)
  moreover have "wrap64 (9223372036855 * Millisecond) < 0"
    by (simp add: wrap64_def duration_units)
  ultimately show ?thesis by (auto simp: t Evaluate_def)
qed

text \<open>C37: Whatever the environment and the infrastructure do, a run returns without a panic and
  closes what it opened: the Redis client and the pool, in the reverse order of opening, and it
  listens only while both are open.\<close>

theorem run_releases_resources:
  "\<exists>m lines evs. run frac X ping received shutdown file e = (Returned m, lines, evs) \<and>
     balanced False False evs"
proof (cases "Load frac file e")
  case (Inl err)
  then show ?thesis by (simp add: run_def)
next
  case (Inr cfg)
  obtain D where D: "wire cfg = Inr D" using wire_ok [OF Inr] by blast
  let ?log = "logger_New (ParseLevel (cfg_LogLevel cfg))"
  show ?thesis
  proof (cases rule: NewPostgres_cases [of X "po_DSN (cfg_Postgres cfg)"])
    case (failed err)
    with Inr show ?thesis by (simp add: run_def Let_def NewRedis_def)
  next
    case (closed err pool)
    with Inr show ?thesis by (simp add: run_def Let_def NewRedis_def)
  next
    case (opened pool)
    have "balanced True True (evs @ [ClosePool, CloseRedis]) \<and> (\<exists>m. res = Returned m)"
      if "serve cfg ?log received shutdown ls = (res, lines, evs)" for ls res lines evs
      using that by (rule serve_balanced)
    with Inr opened D show ?thesis
      by (auto simp: run_def Let_def NewRedis_def split: prod.splits)
  qed
qed

text \<open>C38: The process exits with status 0 exactly when the configuration loads, the pool opens and
  answers, and the server is stopped by a signal and drains within its timeout.\<close>

theorem clean_exit_iff:
  "exit_status (fst (run frac X ping received shutdown file e)) = 0 \<longleftrightarrow>
     (\<exists>cfg sig. Load frac file e = Inr cfg \<and> is_ok (fst (NewPostgres X (po_DSN (cfg_Postgres cfg)))) \<and>
        received = Quit sig \<and> shutdown (sv_ShutdownTimeout (cfg_Server cfg)) = None)"
proof (cases "Load frac file e")
  case (Inl err)
  then show ?thesis by (simp add: run_def exit_status_def)
next
  case (Inr cfg)
  obtain D where D: "wire cfg = Inr D" using wire_ok [OF Inr] by blast
  show ?thesis
  proof (cases rule: NewPostgres_cases [of X "po_DSN (cfg_Postgres cfg)"])
    case (opened pool)
    with Inr D show ?thesis
      by (auto simp: run_def Let_def NewRedis_def serve_def exit_status_def
          split: run_event.splits option.splits)
  qed (use Inr in \<open>simp_all add: run_def Let_def NewRedis_def exit_status_def\<close>)
qed

section \<open>The architecture linter\<close>

text \<open>C40: The linter exits with status 0 exactly when the packages load and no package under one of
  the three isolated modules imports a package under another of them.\<close>

theorem linter_exit_iff:
  "snd (archlint_main load args) = 0 \<longleftrightarrow>
     (\<exists>pkgs. load (case args of [] \<Rightarrow> ''.'' | a # _ \<Rightarrow> a) ''./...'' = Inr pkgs \<and>
        list_all (\<lambda>(path, imports). list_all (\<lambda>i.
          \<not> (\<exists>m d. m \<in> isolated \<and> d \<in> isolated \<and> m \<noteq> d \<and> under m path \<and> under d i)) imports) pkgs)"
proof -
  have "(\<exists>m d. m \<in> isolated \<and> d \<in> isolated \<and> m \<noteq> d \<and> under m p \<and> under d i) = isForbidden p i" for p i
    unfolding isForbidden_under by blast
  moreover have "checkPackages (map (\<lambda>(path, imports). \<lparr>pkg_Name = path, pkg_Imports = imports\<rparr>) pkgs) = [] \<longleftrightarrow>
      list_all (\<lambda>(path, imports). list_all (\<lambda>i. \<not> isForbidden path i) imports) pkgs" for pkgs
    by (auto simp: checkPackages_empty list_all_iff split: prod.splits)
  ultimately show ?thesis
    by (auto simp: archlint_main_def archlint_Run_def Scan_def Let_def split: sum.splits)
qed

end
