(* ===== verification/Spec2Isabelle.thy ===== *)
theory Spec2Isabelle
  imports Access_Properties Credential_Properties Concurrency_Properties Traffic_Properties Expiry_Properties
    Interleaving_Properties Startup_Properties
begin

text \<open>
  A verification of ChainPulse, the gateway of a multi-tenant supply-chain platform (Go). The
  program is an HTTP edge: every request passes a pipeline of middlewares (correlation id, access
  log, authentication by bearer token or partner key, rate limit, idempotency, policy
  enforcement with audit) before a module handler runs; the modules behind it are placeholders
  in this version. Around it stand the token issuer, the partner-key store in Postgres, the
  tenant-scoped Redis wrapper, configuration, start-up, and an architecture linter.

  \<^bold>\<open>Theories.\<close> Each models the source files it names, with the source's names for
  its operations.
  \<^item> \<open>Go_Prelude\<close>, \<open>Go_Strings\<close>: the fragments of the language and of its standard library the
    sources use (64-bit wrap-around, truncating division, durations, byte strings, trimming,
    hexadecimal, UTF-8 validity, constant-time comparison), with their lemmas.
  \<^item> \<open>Identity\<close> (\<open>shared/identity\<close>), \<open>Logger\<close> (\<open>shared/logger\<close>), \<open>Gin_Context\<close> (request and
    gin contexts), \<open>Httpx\<close> (\<open>shared/httpx\<close>): the vocabulary of the handlers. A handler is a
    function on a gin context and a world; a middleware takes the rest of the chain as an
    argument, so that a chain not being run is independence of that argument.
  \<^item> \<open>Audit_Trail\<close> (\<open>internal/audit\<close>): the interface \<open>Auditor\<close> as a locale, and \<open>LogAuditor\<close>.
  \<^item> \<open>Policy\<close> (\<open>internal/policy/engine.go\<close>, \<open>rules.go\<close>), \<open>Policy_Race\<close> (the goroutine, the channel and
    the context of \<open>Engine.Evaluate\<close> as a step relation), \<open>Policy_Enforce\<close> (\<open>middleware.go\<close>).
  \<^item> \<open>Jwt\<close> (\<open>internal/auth/jwt.go\<close>), \<open>Api_Key\<close> (\<open>apikey.go\<close>, the interfaces \<open>APIKeyResolver\<close>
    and \<open>APIKeyStore\<close> as locales), \<open>Api_Key_Store\<close> (\<open>apikey_postgres.go\<close>), \<open>Auth_Handlers\<close>
    (\<open>handler.go\<close>, \<open>apikey_handler.go\<close>), \<open>Key_Accounts\<close> (what each operation adds to and revokes
    from a tenant's part of the key table), \<open>Key_Sessions\<close> (concurrent calls of the store, one SQL
    statement at a time; the locale \<open>sessions\<close>).
  \<^item> \<open>Redis_Storage\<close> (\<open>shared/storage/redis.go\<close>), \<open>Rate_Limit\<close> and \<open>Idempotency\<close>
    (\<open>internal/gateway/middleware\<close>), with the locales \<open>limiter\<close> and \<open>response_cache\<close>; \<open>Rate_Fleet\<close>
    (the limit on several instances that share a Redis server), \<open>Rate_Expiry\<close> (the limit as time
    passes at the server; the locale \<open>expiring_limiter\<close>); \<open>Edge\<close> (\<open>requestid.go\<close>,
    \<open>logging.go\<close>, \<open>auth.go\<close> of the same directory).
  \<^item> \<open>Config\<close> (\<open>shared/config\<close>), \<open>Gateway\<close> (\<open>internal/gateway/router.go\<close>, \<open>stub.go\<close>), \<open>Server\<close>
    (\<open>cmd/server/main.go\<close>, \<open>shared/storage/postgres.go\<close>), \<open>Archlint\<close> (\<open>tools/archlint\<close>).
  \<^item> \<open>Gateway_Responses\<close>: a contract on handlers (the shapes a response can have, the correlation
    id, the growth of the log) that every handler meets and every middleware keeps.
    \<open>Gateway_Runs\<close>: sequences of requests (\<open>serve_all\<close>) and their invariants. \<open>Gateway_Expiry\<close>:
    sequences of requests with time passing at the Redis server (\<open>serve_timed\<close>), and what becomes of
    a stored response.
  \<^item> \<open>Interleaving\<close>: goroutines that share a state, as programs of atomic accesses, and all their
    interleavings; the locale \<open>protocol\<close>. \<open>Gateway_Threads\<close>: the routes of the gateway again, each
    request as such a program. \<open>Gateway_Protocol\<close>: the phases of a request and what each access may do
    in them, which is the locale's interpretation. \<open>Gateway_Together\<close>, \<open>Key_Lockout\<close>: what follows for
    requests in flight together, for the audit trail, the access log and revoked keys.
  \<^item> \<open>Samples\<close>, \<open>Timed_Samples\<close>: concrete instances of every library parameter, each proved to have
    the assumed behaviour, and a small deployment; the witnesses use them.
  \<^item> \<open>Access_Properties\<close>, \<open>Credential_Properties\<close>, \<open>Concurrency_Properties\<close>, \<open>Traffic_Properties\<close>,
    \<open>Expiry_Properties\<close>, \<open>Interleaving_Properties\<close>, \<open>Startup_Properties\<close> and this theory: the properties, C1 to C40.

  \<^bold>\<open>State.\<close> \<open>World\<close> holds what requests share: the Redis client and server, the in-memory limiter,
  the key table, the log and the call counter of the placeholder module. \<open>Env\<close> is what one
  request meets: clock readings, fresh identifiers, database faults, and which case the policy
  engine's select takes. \<open>ServeHTTP\<close> serves one request, \<open>serve_all\<close> any sequence of them, and
  \<open>serve_together\<close> starts any number of them at the same time: \<open>ServeHTTP_prog\<close> is a request as its
  goroutine runs it, where each call of Redis, of the in-memory limiter under its mutex, of the key
  store, of the atomic counter and of the logger is one access to the world, and \<open>interleaves\<close> lets the
  accesses of the requests alternate in any order. Alone, \<open>ServeHTTP_prog\<close> is \<open>ServeHTTP\<close>. What
  happens concurrently below such an access is modelled where the code has it: \<open>race_step\<close> interleaves
  the caller of \<open>Evaluate\<close>, its goroutine and the expiring context; \<open>idem_advance\<close> interleaves two
  requests inside the idempotency middleware; \<open>fleet_serve\<close> lets several instances with clocks
  that disagree judge requests against one Redis server that may fail at any call; \<open>advance\<close> lets
  concurrent calls of the key store issue their SQL statements in any order, as Postgres runs them
  at its default isolation level (\<open>FOR UPDATE\<close> and \<open>UPDATE\<close> wait for a locked row, an \<open>INSERT\<close> for an
  uncommitted one with the same key, writes show at the commit, an early return rolls back).

  \<^bold>\<open>Parameters.\<close> Third-party code is an argument, with what the sources rely on as named
  predicates: \<open>jwt_documented\<close> (tokens), \<open>redis_atomic_eval\<close>, \<open>redis_sorted_sets\<close>,
  \<open>redis_reads_back\<close>, \<open>redis_expires\<close> and \<open>redis_sets_expire\<close> (Redis), \<open>json_roundtrip\<close> (\<open>encoding/json\<close>). SHA-256, the entropy source, the
  database's uuid and timestamp columns, JSON decoding of request bodies, \<open>strconv.ParseFloat\<close>
  and the floating-point product in \<open>time.ParseDuration\<close> are arguments of which nothing is assumed.

  \<^bold>\<open>What the properties show.\<close>
  \<^item> Mediation (this theory): a module handler runs, and the key table changes, only for an
    authenticated, allowed and audited request of the resource's own tenant; refusals have no
    effect. A replayed order creation is not mediated (the last section), and the lemma
    \<open>analyst_lists_keys\<close> shows that analysts can list keys.
  \<^item> Sequences of requests (this theory): the audit trail only grows, by complete records; also, as
    lemmas, a revoked key is locked out for ever, the trail accounts for every handler call and
    every key, and every request leaves one access line.
  \<^item> Interleavings of requests: every effect is that of a request authenticated, allowed and recorded
    before it; the trail accounts for all effects at every moment, up to the requests on their way;
    a revocation that was answered locks the key out of every request that begins later; every
    answer is well formed and logged once; requests never wait for each other and finish. The model
    of interleaved requests has that of one request as its sequential case (lemma
    \<open>sequential_service_interleaves\<close>).
  \<^item> Responses (this theory): every answer on a registered route has one of a few shapes, with status
    and code in agreement and with the correlation id; other requests get the framework's plain 404.
  \<^item> Access: the engine implements deny-overrides, its goroutine refines the function, ends and
    never blocks, the default rules compute the access matrix, enforcement records each decision
    exactly once and first (at level Info: lemma \<open>audit_dropped_above_info\<close>).
  \<^item> Credentials: tokens round-trip, are not interchangeable and can be exchanged while they live; partner keys round-trip, rotate
    without changing scope or number, and are managed within the tenant; every reachable table
    is well formed.
  \<^item> Concurrency: every interleaving of store calls has the replies and the table of an order of
    whole calls, and nothing deadlocks; of several rotations and revocations of a key one wins,
    the number of live keys has no gap, and a retired key is refused from then on.
  \<^item> Traffic: both limiters bound the admissions of every window, up to the disorder of the clocks; a
    fleet of \<open>n\<close> instances admits at most \<open>n + 1\<close> times the limit; retries are replayed; the lemma
    \<open>redis_keys_collide\<close> shows tenants with a colon in their id sharing a key. Concurrent duplicates
    both run.
  \<^item> Expiry: an order is created once per key until the stored response expires, whatever is
    served in between; the expiry of the limiter's sets forgets nothing that still counts.
  \<^item> Start-up: the environment wins over \<open>.env\<close>, durations are read exactly (lemma), a run releases what it
    opened and exits cleanly exactly when it should; the linter is exact.

  \<^bold>\<open>Recursion.\<close> No definition uses fuel: every loop is structural or has a measure (the remaining
  input of the trimming, scanning and duration loops; the unread part of the slice that the
  in-memory limiter compacts). The programs of requests are finite trees; a request makes at most ten
  accesses (\<open>within_ServeHTTP\<close>). The runs of \<open>race_step\<close> are shown finite by the measure
  \<open>race_left\<close>, those of the store's calls by \<open>statements_left\<close>.

  \<^bold>\<open>Not modelled.\<close> The framework's path matching, redirects and panic recovery (a request comes with
  the route that matched); the HTTP server's sockets; JSON text. Interleavings of requests are
  those of their accesses: the limiter's mutex, the Redis script and the atomic counter make their
  operations atomic, calls of the key store are whole by \<open>Concurrency_Properties\<close> (\<open>List\<close>, a single
  read, is not among the concurrent calls there), and the clock reading the limiter takes before its
  mutex is covered by the disorder of readings. What a request reads of its own \<open>Env\<close> does not depend
  on the order of accesses.
  The other tables of the schema have no code yet.
\<close>

section \<open>Mediation\<close>

text \<open>C1: Complete mediation: whenever serving a request runs a module handler (the call counter
  moves), the request was on a protected route, carried a valid credential of an identity with a
  known role, and the policy engine allowed the route's action on a resource of that identity's
  own tenant; the handler ran exactly once, and the trail gained exactly the record of that
  decision.\<close>

theorem complete_mediation:
  assumes "ServeHTTP L D ev r w = (c', w')" and "w_Calls w' \<noteq> w_Calls w"
  shows "\<exists>i a t. (req_Method r, req_FullPath r, a, t) \<in> set route_policy \<and>
    presented L D ev r w = Inr i \<and> Valid (id_Role i) \<and>
    dec_Allow (route_decision L D ev a t r i) \<and>
    res_TenantID (in_Resource (route_input L a t r i)) = id_TenantID i \<and>
    w_Calls w' = w_Calls w + 1 \<and> key_view (w_Db w') = key_view (w_Db w) \<and>
    audit_trail (w_Log w') = audit_trail (w_Log w) @
      (if audit_enabled (d_Auditor D) then [route_record L D ev a t r i] else [])"
proof -
  have "\<not> quiet w w'" using assms(2) by (simp add: quiet_def)
  with assms(1) obtain i a t where *: "(req_Method r, req_FullPath r, a, t) \<in> set route_policy"
    "presented L D ev r w = Inr i" "Valid (id_Role i)" "served L D ev r i a t w w'"
    by (rule ServeHTTP_served)
  from *(4) assms(2) have "dec_Allow (route_decision L D ev a t r i)"
    "w_Calls w' = w_Calls w + 1" "key_view (w_Db w') = key_view (w_Db w)"
    "audit_trail (w_Log w') = audit_trail (w_Log w) @
      (if audit_enabled (d_Auditor D) then [route_record L D ev a t r i] else [])"
    by (auto simp: served_def split: if_splits)
  with * route_same_tenant [of L D ev a t r i] show ?thesis by blast
qed

theorem complete_mediation_witness:
  "\<exists>i. presented sample_libs sample_deps sample_env (sample_request ''GET'' ''/v1/inventory'' [])
       (sample_world RoleAnalyst) = Inr i \<and> Valid (id_Role i)"
proof -
  let ?r = "sample_request ''GET'' ''/v1/inventory'' []"
  obtain c' w' where run: "sample_serve RoleAnalyst ?r = (c', w')" by (metis prod.exhaust)
  have "w_Calls (snd (sample_serve RoleAnalyst ?r)) \<noteq> w_Calls (sample_world RoleAnalyst)"
    by code_simp
  then have "w_Calls w' \<noteq> w_Calls (sample_world RoleAnalyst)" by (simp add: run)
  from complete_mediation [OF run this] show ?thesis by blast
qed

text \<open>C4: Only an administrator changes the key table: whenever serving a request with the default
  rules adds or revokes a key (anything but the last-used stamps changes), it was an API-key route
  called with a valid credential of an admin, allowed by the engine and recorded.\<close>

theorem key_changes_need_admin:
  assumes "ServeHTTP L D ev r w = (c', w')" and "key_view (w_Db w') \<noteq> key_view (w_Db w)"
    and "eng_rules (d_Engine D) = DefaultRules"
  shows "\<exists>i a. (req_Method r, req_FullPath r, a, ''api_key'') \<in> set route_policy \<and>
    presented L D ev r w = Inr i \<and> id_Role i = RoleAdmin \<and> w_Calls w' = w_Calls w \<and>
    audit_trail (w_Log w') = audit_trail (w_Log w) @
      (if audit_enabled (d_Auditor D) then [route_record L D ev a ''api_key'' r i] else [])"
proof -
  have "\<not> quiet w w'" using assms(2) by (simp add: quiet_def)
  with assms(1) obtain i a t where *: "(req_Method r, req_FullPath r, a, t) \<in> set route_policy"
    "presented L D ev r w = Inr i" "Valid (id_Role i)" "served L D ev r i a t w w'"
    by (rule ServeHTTP_served)
  from *(4) assms(2) have t: "t = ''api_key''" and allow: "dec_Allow (route_decision L D ev a t r i)"
    and eff: "w_Calls w' = w_Calls w" "audit_trail (w_Log w') = audit_trail (w_Log w) @
      (if audit_enabled (d_Auditor D) then [route_record L D ev a t r i] else [])"
    by (auto simp: served_def split: if_splits)
  from allow assms(3) have "access_matrix (route_input L a t r i)"
    by (simp add: route_decision_def Evaluate_Allow_iff DefaultRules_deny_overrides)
  with t have "id_Role i = RoleAdmin \<or> id_Role i = RoleAnalyst \<and> a = ActionRead"
    by (auto simp: access_matrix_def Let_def route_input_def split: if_splits)
  moreover have "a \<noteq> ActionRead"
    using *(4) t allow assms(2) by (auto simp: served_def)
  ultimately show ?thesis using * t eff by blast
qed

theorem key_changes_need_admin_witness:
  "\<exists>i. presented sample_libs sample_deps sample_env (sample_request ''DELETE'' ''/v1/api-keys/:id'' [])
       (sample_world RoleAdmin) = Inr i \<and> id_Role i = RoleAdmin"
proof -
  let ?r = "sample_request ''DELETE'' ''/v1/api-keys/:id'' []"
  obtain c' w' where run: "sample_serve RoleAdmin ?r = (c', w')" by (metis prod.exhaust)
  have "map row_revoked_at (snd (key_view (w_Db (snd (sample_serve RoleAdmin ?r))))) = [Some 100]"
    "map row_revoked_at (snd (key_view (w_Db (sample_world RoleAdmin)))) = [None]"
    by code_simp+
  then have "key_view (w_Db w') \<noteq> key_view (w_Db (sample_world RoleAdmin))" by (auto simp: run)
  moreover have "eng_rules (d_Engine sample_deps) = DefaultRules"
    by (simp add: sample_deps_def NewEngine_def)
  ultimately show ?thesis using key_changes_need_admin [OF run] by blast
qed

text \<open>C27: Without a valid credential a protected route answers 401 and does nothing: no handler runs,
  no key changes, no audit record is written.\<close>

theorem unauthenticated_refused:
  assumes "(req_Method r, req_FullPath r, a, t) \<in> set route_policy" and "t \<noteq> ''api_key'' \<or> d_APIKeys D"
    and "presented L D ev r w = Inl err" and "ServeHTTP L D ev r w = (c', w')"
  shows "c_Status c' = 401 \<and> w_Calls w' = w_Calls w \<and> key_view (w_Db w') = key_view (w_Db w) \<and>
    audit_trail (w_Log w') = audit_trail (w_Log w)"
  using ServeHTTP_unauthenticated [OF assms] by (simp add: quiet_def)

theorem unauthenticated_refused_witness:
  "c_Status (fst (sample_serve RoleAdmin
     ((sample_request ''GET'' ''/v1/inventory'' [])\<lparr>req_Headers := [(''X-API-Key'', ''cp_02'')]\<rparr>))) = 401"
proof -
  let ?r = "(sample_request ''GET'' ''/v1/inventory'' [])\<lparr>req_Headers := [(''X-API-Key'', ''cp_02'')]\<rparr>"
  obtain c' w' where run: "sample_serve RoleAdmin ?r = (c', w')" by (metis prod.exhaust)
  have "\<not> is_ok (presented sample_libs sample_deps sample_env ?r (sample_world RoleAdmin))"
    by code_simp
  then obtain err where "presented sample_libs sample_deps sample_env ?r (sample_world RoleAdmin) = Inl err"
    by (cases "presented sample_libs sample_deps sample_env ?r (sample_world RoleAdmin)") auto
  then have "c_Status c' = 401"
    using unauthenticated_refused [OF _ _ _ run, of ActionRead "''inventory''"]
    by (simp add: route_policy_def sample_request_def)
  then show ?thesis by (simp add: run)
qed

text \<open>C28: A request the engine denies, on any protected route but order creation, is answered 403
  after exactly one audit record of the denial (or 429 by the limiter before the engine is
  asked), and neither runs a handler nor changes a key.\<close>

theorem denied_request:
  assumes "(req_Method r, req_FullPath r, a, t) \<in> set route_policy" and "t \<noteq> ''api_key'' \<or> d_APIKeys D"
    and "\<not> is_order_create r" and "presented L D ev r w = Inr i"
    and "\<not> dec_Allow (route_decision L D ev a t r i)" and "audit_enabled (d_Auditor D)"
    and "ServeHTTP L D ev r w = (c', w')"
  shows "w_Calls w' = w_Calls w \<and> key_view (w_Db w') = key_view (w_Db w) \<and>
    (c_Status c' = 429 \<and> audit_trail (w_Log w') = audit_trail (w_Log w) \<or>
     c_Status c' = 403 \<and> au_PolicyDecision (route_record L D ev a t r i) = DecisionDeny \<and>
     audit_trail (w_Log w') = audit_trail (w_Log w) @ [route_record L D ev a t r i])"
proof -
  have "au_PolicyDecision (route_record L D ev a t r i) = DecisionDeny"
    using assms(5) by (simp add: route_record_def stamp_def enforce_record_def decision_string_def)
  with ServeHTTP_denied [OF assms(1-5,7)] assms(6) show ?thesis
    by (auto simp: quiet_def audited_def)
qed

theorem denied_request_witness:
  "w_Calls (snd (sample_serve RoleSupplier (sample_request ''PUT'' ''/v1/inventory'' []))) = 0"
proof -
  let ?r = "sample_request ''PUT'' ''/v1/inventory'' []"
  let ?i = "\<lparr>id_TenantID = ''t1'', id_UserID = ''k1'', id_Role = RoleSupplier, id_Region = '''',
     id_SupplierID = ''''\<rparr>"
  obtain c' w' where run: "sample_serve RoleSupplier ?r = (c', w')" by (metis prod.exhaust)
  have pres: "presented sample_libs sample_deps sample_env ?r (sample_world RoleSupplier) = Inr ?i"
    by code_simp
  have deny: "\<not> dec_Allow (route_decision sample_libs sample_deps sample_env ActionUpdate ''inventory'' ?r ?i)"
    by code_simp
  have en: "audit_enabled (d_Auditor sample_deps)" by code_simp
  have "w_Calls w' = w_Calls (sample_world RoleSupplier)"
    using denied_request [OF _ _ _ pres deny en run]
    by (simp add: route_policy_def sample_request_def is_order_create_def)
  moreover have "w_Calls (sample_world RoleSupplier) = 0"
    by (simp add: sample_world_def initial_world_def)
  ultimately show ?thesis by (simp add: run)
qed

section \<open>Sequences of requests\<close>

text \<open>Revocation is final, end to end: once a request to revoke a key was answered 204, then after
  any sequence of requests in any environments a request that presents the secret of that key
  is answered 401 on every protected route, and has no effect.\<close>

lemma revoked_key_locked_out:
  assumes "d_APIKeys D" and "req_Method del = ''DELETE''" and "req_FullPath del = ''/v1/api-keys/:id''"
    and "db_ok (w_Db w)" and "row \<in> set (db_api_keys (w_Db w))"
    and "kl_uuid (l_Key L) (Param (fresh_ctx del) ''id'') = Some (row_id row)"
    and "row_key_hash row = hashAPIKey (kl_sha256 (l_Key L)) secret"
    and "ServeHTTP L D ev del w = (c1, w1)" and "c_Status c1 = 204"
    and "bearerToken (GetHeader (fresh_ctx r) ''Authorization'') = None"
    and "GetHeader (fresh_ctx r) HeaderAPIKey = secret"
    and "(req_Method r, req_FullPath r, a, t) \<in> set route_policy"
    and "w2 = serve_all L D qs w1" and "ServeHTTP L D ev' r w2 = (c', w')"
  shows "c_Status c' = 401 \<and> w_Calls w' = w_Calls w2 \<and> key_view (w_Db w') = key_view (w_Db w2) \<and>
    audit_trail (w_Log w') = audit_trail (w_Log w2)"
proof -
  have "revoked_key (hashAPIKey (kl_sha256 (l_Key L)) secret) (w_Db w1)"
    using ServeHTTP_revoke [OF assms(1-3,8,9,4-6)] assms(7) by simp
  then have "revoked_key (hashAPIKey (kl_sha256 (l_Key L)) secret) (w_Db w2)"
    using serve_all_grows assms(13) by (blast intro: revoked_key_grows)
  then have "\<not> is_ok (presented L D ev' r w2)"
    using assms(10,11) by (rule presented_revoked)
  then obtain err where "presented L D ev' r w2 = Inl err"
    by (cases "presented L D ev' r w2") auto
  from ServeHTTP_unauthenticated [OF assms(12) _ this assms(14)] assms(1) show ?thesis
    by (simp add: quiet_def)
qed

text \<open>The audit trail accounts for everything that happened: from an empty deployment with the
  default rules, after any sequence of requests, the number of handler calls is the number of
  allow records on module resources (modulo the width of the counter), the key table is well
  formed, and for every tenant its keys are at most as many as the allow records of admins of
  that tenant to create or rotate keys, and its revoked keys at most as many as those to rotate
  or revoke.\<close>

lemma trail_accounts_for_effects:
  assumes "audit_enabled (d_Auditor D)" and "eng_rules (d_Engine D) = DefaultRules"
  shows "accounted (l_Key L) (serve_all L D qs (initial_world rdb tenants))"
  using ServeHTTP_accounted [OF assms] accounted_initial
  by (rule serve_all_invariant [where I = "accounted (l_Key L)"])

text \<open>C21: The audit trail is append-only and complete: any sequence of requests extends it, by at
  most one record each, and every new record names an actor with a known role, an action and
  resource type of a route, a time, and, for an allow, the allow rule that granted it, for a
  deny, the deny rule or the built-in reason that refused it.\<close>

theorem trail_append_only:
  "\<exists>rs. audit_trail (w_Log (serve_all L D qs w)) = audit_trail (w_Log w) @ rs \<and> length rs \<le> length qs \<and>
     list_all (record_ok (d_Engine D)) rs"
  using serve_all_trail [of L D qs w] by (simp add: list_all_iff)

section \<open>Responses and the access log\<close>

text \<open>C20: Every response is well formed: whatever the request, the libraries and the infrastructure
  do, the answer carries the correlation id in \<open>X-Request-ID\<close>. On every registered route it is one
  JSON document (200 or 201), an empty 204, a verbatim replay marked as such, or the error envelope
  with exactly the status that belongs to its code and with the same correlation id, so that every
  failure of the gateway's own has the envelope. A request that no route matches does not: it is
  answered by the framework, with 404 and a plain text.\<close>

theorem responses_well_formed:
  "let c' = fst (ServeHTTP L D ev r w); rid = request_id (ev_uuid ev) (fresh_ctx r) in
   c_Header c' HeaderRequestID = Some rid \<and>
   (if routed D r then document c' \<or> no_content c' \<or> envelope rid c' \<or> replayed c' else page_not_found c')"
  using ServeHTTP_answers [OF refl, of L D ev r w]
  by (cases "ServeHTTP L D ev r w"; cases "routed D r") (simp_all add: Let_def traced_def answered_def response_ok_def)

text \<open>Every request is logged exactly once: with a logger at level Info or below, any sequence of
  requests, refused and failed ones included, leaves one access line per request, and the last
  line of the log after a request is its access line, with its correlation id, its status, and
  the policy decision it met.\<close>

lemma every_request_logged:
  assumes "lg_Level (d_Logger D) \<le> LevelInfo"
  shows "length (access_lines (w_Log (serve_all L D qs w))) = length (access_lines (w_Log w)) + length qs \<and>
    (\<exists>as. last (w_Log (snd (ServeHTTP L D ev r w))) =
       access_line D ev (request_id (ev_uuid ev) (fresh_ctx r)) as (fst (ServeHTTP L D ev r w)))"
proof -
  obtain c' w' where run: "ServeHTTP L D ev r w = (c', w')" by (metis prod.exhaust)
  obtain ls as where "w_Log w' = w_Log w @ ls @ [access_line D ev (request_id (ev_uuid ev) (fresh_ctx r)) as c']"
    using ServeHTTP_answers [OF refl run] assms by auto
  then have "last (w_Log w') = access_line D ev (request_id (ev_uuid ev) (fresh_ctx r)) as c'" by simp
  with run serve_all_access [OF assms] show ?thesis by auto
qed

section \<open>Where the guards do not reach\<close>

text \<open>A second key of the tenant \<open>t1\<close>, of an analyst, who may not create orders.\<close>

definition two_key_world :: "timed_redis World" where
  "two_key_world = (timed_world RoleAdmin)\<lparr>w_Db := (sample_db RoleAdmin)\<lparr>db_api_keys :=
     [sample_row RoleAdmin, (sample_row RoleAnalyst)\<lparr>row_id := ''k2'',
        row_key_hash := hashAPIKey (\<lambda>bs. bs) ''cp_02''\<rparr>]\<rparr>\<rparr>"

definition admin_order :: Request where
  "admin_order = sample_request ''POST'' ''/v1/orders'' []"

definition analyst_order :: Request where
  "analyst_order = admin_order\<lparr>req_Headers := [(''X-API-Key'', ''cp_02''), (''Idempotency-Key'', ''i1'')]\<rparr>"

definition analyst_identity :: Identity where
  "analyst_identity = \<lparr>id_TenantID = ''t1'', id_UserID = ''k2'', id_Role = RoleAnalyst, id_Region = '''',
     id_SupplierID = ''''\<rparr>"

definition after_admin_order :: "timed_redis World" where
  "after_admin_order = snd (ServeHTTP sample_libs sample_deps sample_env admin_order two_key_world)"

text \<open>C36: A stored response takes an order creation past the policy engine and the audit trail. Take any
  actor whom the engine denies the creation of an order. Where the store holds no response for the
  tenant and key, the request is denied: 403, nothing runs, and the record of the denial is added to
  the trail (or it is limited before, 429). Where the store holds one, whoever of the tenant it
  was made for, the same request of the same actor is answered with the stored status, bytes and
  content type (or is limited), and nothing is added to the trail. Tenant ids contain no colon and
  the server answers the lookup.\<close>

theorem replay_bypasses_policy:
  fixes w v :: "'r World"
  assumes r: "is_order_create r" "GetHeader (fresh_ctx r) HeaderIdempotencyKey = key" "key \<noteq> ''''"
    and deny: "\<not> dec_Allow (route_decision L D ev ActionCreate ''order'' r i)" and "audit_enabled (d_Auditor D)"
    and pres: "presented L D ev r w = Inr i" "presented L D ev r v = Inr i" "separable (id_TenantID i)"
    and hit: "cached L R (order_key (id_TenantID i) key) sr n (w_Redis w)"
    and up: "\<And>e. rc_Get (fst (w_Redis w)) (order_key (id_TenantID i) key) (snd (rate_limited D ev r i (w_Redis w)))
        \<noteq> RErr e"
    and miss: "rc_Get (fst (w_Redis v)) (order_key (id_TenantID i) key) (snd (rate_limited D ev r i (w_Redis v))) = RNil"
    and run: "ServeHTTP L D ev r w = (c1, w1)" "ServeHTTP L D ev r v = (c2, v2)"
  shows "audit_trail (w_Log w1) = audit_trail (w_Log w) \<and>
    (c_Status c1 = 429 \<or> c_Status c1 = sr_Status sr \<and> response_bytes (l_Http L) c1 = sr_Body sr \<and>
      content_type (l_Http L) c1 = sr_ContentType sr \<and> c_Header c1 ''Idempotent-Replay'' = Some ''true'') \<and>
    w_Calls v2 = w_Calls v \<and> key_view (w_Db v2) = key_view (w_Db v) \<and>
    (c_Status c2 = 429 \<and> audit_trail (w_Log v2) = audit_trail (w_Log v) \<or>
     c_Status c2 = 403 \<and> audit_trail (w_Log v2) =
       audit_trail (w_Log v) @ [route_record L D ev ActionCreate ''order'' r i])"
  using serve_replays [OF hit pres(3) r pres(1) refl up run(1)] serve_order_denied [OF r pres(2) deny miss run(2)]
    assms(5) by (auto simp: quiet_def audited_def)

theorem replay_bypasses_policy_witness:
  "let first = ServeHTTP sample_libs sample_deps sample_env analyst_order two_key_world;
       retry = ServeHTTP sample_libs sample_deps sample_env analyst_order after_admin_order
   in c_Status (fst first) = 403 \<and> length (audit_trail (w_Log (snd first))) = 1 \<and>
     c_Status (fst retry) = 201 \<and> audit_trail (w_Log (snd retry)) = audit_trail (w_Log after_admin_order)"
proof -
  let ?L = sample_libs and ?D = sample_deps and ?i = analyst_identity and ?r = analyst_order
  let ?first = "ServeHTTP ?L ?D sample_env ?r two_key_world" and ?retry = "ServeHTTP ?L ?D sample_env ?r after_admin_order"
  let ?k = "order_key (id_TenantID ?i) ''i1''"
  have r: "is_order_create ?r" "GetHeader (fresh_ctx ?r) HeaderIdempotencyKey = ''i1''" by code_simp+
  have deny: "\<not> dec_Allow (route_decision ?L ?D sample_env ActionCreate ''order'' ?r ?i)" by code_simp
  have audit: "audit_enabled (d_Auditor ?D)" by code_simp
  have pres: "presented ?L ?D sample_env ?r after_admin_order = Inr ?i"
    "presented ?L ?D sample_env ?r two_key_world = Inr ?i" "separable (id_TenantID ?i)" by code_simp+
  let ?w = two_key_world and ?a = admin_order
  let ?j = "?i\<lparr>id_UserID := ''k1'', id_Role := RoleAdmin\<rparr>"
  let ?c = "fst (ServeHTTP ?L ?D sample_env ?a ?w)"
  have client: "fst (w_Redis ?w) = timed_client" by (simp add: two_key_world_def timed_world_def initial_world_def)
  have lib: "redis_expires (fst (w_Redis ?w)) timed_server" "redis_atomic_eval (fst (w_Redis ?w))"
    "json_roundtrip (l_Http ?L)"
    using timed_expires timed_client_eval sample_http_roundtrip client by (simp_all add: sample_libs_def)
  have ttl: "0 < Milliseconds (gc_IdempotencyTTL (cfg_Gateway (d_Config ?D)))" by code_simp
  have a: "is_order_create ?a" "GetHeader (fresh_ctx ?a) HeaderIdempotencyKey = ''i1''"
    "presented ?L ?D sample_env ?a ?w = Inr ?j" by code_simp+
  have a_miss: "rc_Get (fst (w_Redis ?w)) (order_key (id_TenantID ?j) ''i1'')
      (snd (rate_limited ?D sample_env ?a ?j (w_Redis ?w))) = RNil" by code_simp
  have set_ok: "fst (rc_Set (fst (w_Redis ?w)) k x t s) = None" for k x t s by (simp add: client timed_client_def)
  have ran: "w_Calls (snd (ServeHTTP ?L ?D sample_env ?a ?w)) \<noteq> w_Calls ?w" by code_simp
  have valid: "ValidString (response_bytes (l_Http ?L) ?c)" "ValidString (content_type (l_Http ?L) ?c)" by code_simp+
  obtain sr n where "cached ?L timed_server ?k sr n (w_Redis after_admin_order)" and sr: "sr_Status sr = 201"
    using serve_first_cached [OF lib(1,2) ttl lib(3) a(1,2) _ a(3) a_miss set_ok prod.collapse [symmetric] ran valid]
    by (auto simp: after_admin_order_def)
  moreover have "case rc_Get (fst (w_Redis after_admin_order)) ?k
      (snd (rate_limited ?D sample_env ?r ?i (w_Redis after_admin_order))) of RErr e \<Rightarrow> False | _ \<Rightarrow> True" by code_simp
  moreover have "rc_Get (fst (w_Redis two_key_world)) ?k
      (snd (rate_limited ?D sample_env ?r ?i (w_Redis two_key_world))) = RNil" by code_simp
  moreover have "c_Status (fst ?first) \<noteq> 429 \<and> c_Status (fst ?retry) \<noteq> 429" by code_simp
  moreover have "audit_trail (w_Log two_key_world) = []" by code_simp
  ultimately show ?thesis
    using replay_bypasses_policy [OF r _ deny audit pres _ _ _ prod.collapse [symmetric] prod.collapse [symmetric]]
    unfolding Let_def by (fastforce split: redis_reply.splits)
qed

text \<open>An analyst can list the partner keys of the tenant: the general read rule for analysts
  covers the key resource, so listing does not need an admin.\<close>

lemma analyst_lists_keys:
  "c_Status (fst (sample_serve RoleAnalyst (sample_request ''GET'' ''/v1/api-keys'' []))) = 200"
  by code_simp

end
